(* ===== verification/Prelude.thy ===== *)
theory Prelude imports Main "HOL-Library.Word" begin

section \<open>Shared vocabulary\<close>

text \<open>
  The vocabulary every component theory uses: the machine integers of the C++ code, the ways in
  which an execution can leave the defined behaviour of C++ (\<open>fault\<close>), results that may be such
  a fault, bounds-checked vector reads, NUL-terminated strings, and the lemmas about lists, maps
  and words that several components share.
\<close>

named_theorems bridge_defs "unfolding the small operations of the components"
named_theorems result_intros "introduction rules for operations that do not fault"

type_synonym u8 = "8 word"
type_synonym u16 = "16 word"
type_synonym u32 = "32 word"
type_synonym u64 = "64 word"

text \<open>A C++ \<open>float\<close> is only copied by this code; it is represented by its bit pattern.\<close>

type_synonym float32 = "32 word"

text \<open>
  The identity of a user-supplied \<open>std::function\<close> the bridge can only call, such as an
  \<open>onConnect\<close> hook. What such a function does is outside the program; a call is an event.
\<close>

type_synonym hook = nat


subsection \<open>Faults and results\<close>

datatype fault =
    OutOfBounds          \<comment> \<open>\<open>v[i]\<close> with \<open>i >= v.size()\<close>: undefined behaviour\<close>
  | EmptyQueueAccess     \<comment> \<open>\<open>front\<close>, \<open>back\<close> or \<open>pop\<close> of an empty \<open>std::queue\<close>\<close>
  | UninitialisedRead    \<comment> \<open>reading a member no constructor or setter has written\<close>
  | BadVariantAccess     \<comment> \<open>\<open>std::get<T>\<close> of another alternative: throws\<close>
  | BadOptionalAccess    \<comment> \<open>\<open>std::optional::value\<close> of an empty optional: throws\<close>
  | InvalidFuture        \<comment> \<open>\<open>get\<close> or \<open>wait_for\<close> on a future without a shared state\<close>
  | JoinableThread       \<comment> \<open>assigning over a joinable \<open>std::thread\<close>: terminates\<close>
  | LengthError          \<comment> \<open>a \<open>std::string\<close> resized beyond \<open>max_size()\<close>: throws\<close>
  | DanglingIterator     \<comment> \<open>\<open>erase\<close> through an iterator that is no longer valid: undefined behaviour\<close>
  | BadFormat            \<comment> \<open>a conversion without an argument of its type: undefined behaviour\<close>

type_synonym 'a result = "fault + 'a"

definition rbind :: "'a result \<Rightarrow> ('a \<Rightarrow> 'b result) \<Rightarrow> 'b result" where
  "rbind r k = (case r of Inl e \<Rightarrow> Inl e | Inr x \<Rightarrow> k x)"

definition ok :: "'a result \<Rightarrow> bool" where
  "ok r = (case r of Inl _ \<Rightarrow> False | Inr _ \<Rightarrow> True)"

lemma rbind_simps [simp]:
  "rbind (Inl e) k = Inl e"
  "rbind (Inr x) k = k x"
  by (simp_all add: rbind_def)

lemma rbind_eq_Inr: "rbind r k = Inr y \<longleftrightarrow> (\<exists>x. r = Inr x \<and> k x = Inr y)"
  by (cases r) simp_all

lemma rbind_eq_Inl: "rbind r k = Inl e \<longleftrightarrow> r = Inl e \<or> (\<exists>x. r = Inr x \<and> k x = Inl e)"
  by (cases r) simp_all

lemma rbind_assoc: "rbind (rbind r f) g = rbind r (\<lambda>x. rbind (f x) g)"
  by (cases r) simp_all

lemma rbind_split: "P (rbind r k) \<longleftrightarrow> (\<forall>e. r = Inl e \<longrightarrow> P (Inl e)) \<and> (\<forall>x. r = Inr x \<longrightarrow> P (k x))"
  by (cases r) simp_all

lemma ok_simps [simp]: "ok (Inr x)" "\<not> ok (Inl e)"
  by (simp_all add: ok_def)

lemma ok_iff: "ok r \<longleftrightarrow> (\<exists>x. r = Inr x)"
  by (cases r) simp_all

lemma okI [result_intros]: "r = Inr x \<Longrightarrow> ok r"
  by simp

lemma okE:
  assumes "ok r"
  obtains x where "r = Inr x"
  using assms by (auto simp: ok_iff)

lemma ok_rbind: "ok (rbind r k) \<longleftrightarrow> (\<exists>x. r = Inr x \<and> ok (k x))"
  by (cases r) simp_all


subsection \<open>Vector reads, member reads and C strings\<close>

definition read_at :: "'a list \<Rightarrow> nat \<Rightarrow> 'a result" where
  "read_at xs i = (if i < length xs then Inr (xs ! i) else Inl OutOfBounds)"

definition read_member :: "'a option \<Rightarrow> 'a result" where
  "read_member m = (case m of None \<Rightarrow> Inl UninitialisedRead | Some x \<Rightarrow> Inr x)"

definition optional_value :: "'a option \<Rightarrow> 'a result" where
  "optional_value m = (case m of None \<Rightarrow> Inl BadOptionalAccess | Some x \<Rightarrow> Inr x)"

lemma read_at_simps [simp]:
  "i < length xs \<Longrightarrow> read_at xs i = Inr (xs ! i)"
  "length xs \<le> i \<Longrightarrow> read_at xs i = Inl OutOfBounds"
  by (simp_all add: read_at_def)

lemma read_at_eq_Inr: "read_at xs i = Inr x \<longleftrightarrow> i < length xs \<and> xs ! i = x"
  by (simp add: read_at_def)

lemma read_member_simps [simp]:
  "read_member (Some x) = Inr x"
  "read_member None = Inl UninitialisedRead"
  by (simp_all add: read_member_def)

lemma optional_value_simps [simp]:
  "optional_value (Some x) = Inr x"
  "optional_value None = Inl BadOptionalAccess"
  by (simp_all add: optional_value_def)

text \<open>What a callee sees of a \<open>std::string\<close> passed as \<open>s.c_str()\<close>: up to the first NUL.\<close>

definition c_str :: "string \<Rightarrow> string" where
  "c_str s = takeWhile (\<lambda>c. c \<noteq> CHR 0x00) s"

lemma c_str_id: "CHR 0x00 \<notin> set s \<Longrightarrow> c_str s = s"
  by (auto simp: c_str_def takeWhile_eq_all_conv)

lemma c_str_idem [simp]: "c_str (c_str s) = c_str s"
  by (simp add: c_str_def takeWhile_idem)


subsection \<open>Lists and maps\<close>

lemma take_drop_append:
  "i \<le> j \<Longrightarrow> take i xs @ take (j - i) (drop i xs) = take j xs"
  by (metis le_add_diff_inverse take_add)

lemma map_upd_dom [simp]: "m k = Some v \<Longrightarrow> insert k (dom m) = dom m"
  by auto

lemma set_nth_bound: "x \<in> set xs \<Longrightarrow> \<exists>i < length xs. xs ! i = x"
  by (auto simp: in_set_conv_nth)

lemma filter_filter_commute: "filter P (filter Q xs) = filter Q (filter P xs)"
  by (induction xs) auto


subsection \<open>Words\<close>

lemma unat_of_nat_less: "n < 2 ^ LENGTH('a) \<Longrightarrow> unat (word_of_nat n :: 'a::len word) = n"
  by (simp add: unat_of_nat take_bit_nat_eq_self)

lemma u32_of_nat [simp]: "n < 4294967296 \<Longrightarrow> unat (word_of_nat n :: u32) = n"
  by (rule unat_of_nat_less) simp

lemma u16_of_nat [simp]: "n < 65536 \<Longrightarrow> unat (word_of_nat n :: u16) = n"
  by (rule unat_of_nat_less) simp

lemma u8_of_nat [simp]: "n < 256 \<Longrightarrow> unat (word_of_nat n :: u8) = n"
  by (rule unat_of_nat_less) simp

lemma u32_bound: "unat (x :: u32) < 4294967296"
  using unsigned_less [of x] by simp

lemma u16_bound: "unat (x :: u16) < 65536"
  using unsigned_less [of x] by simp

lemma u32_unat_plus1:
  assumes "x \<noteq> (-1 :: u32)"
  shows "unat (x + 1) = unat x + 1"
proof -
  have "1 + x \<noteq> 0"
    using assms by (metis add.commute eq_neg_iff_add_eq_0)
  then show ?thesis
    using unatSuc [of x] by (simp add: add.commute)
qed


subsection \<open>Members that hold one user callback\<close>

text \<open>
  Several components keep one \<open>std::function\<close> member with a setter that says whether it overwrote
  a callback. The locale is the contract of such a setter; an empty function is \<open>None\<close>.
\<close>

locale callback_slot =
  fixes install :: "hook option \<Rightarrow> 's \<Rightarrow> bool \<times> 's"
    and slot :: "'s \<Rightarrow> hook option"
  assumes install_result: "fst (install f s) \<longleftrightarrow> slot s \<noteq> None"
    and slot_install: "slot (snd (install f s)) = f"
begin

fun installs :: "hook option list \<Rightarrow> 's \<Rightarrow> bool list \<times> 's" where
  "installs [] s = ([], s)"
| "installs (f # fs) s =
     (let (b, s) = install f s; (bs, s) = installs fs s in (b # bs, s))"

text \<open>
  Of a series of registrations the last one stays, and each call reports whether the one before it
  had left a callback.
\<close>

lemma slot_installs: "slot (snd (installs fs s)) = (if fs = [] then slot s else last fs)"
  by (induction fs arbitrary: s) (auto simp: Let_def case_prod_unfold slot_install)

lemma installs_results: "fst (installs fs s) = map (\<lambda>f. f \<noteq> None) (butlast (slot s # fs))"
  by (induction fs arbitrary: s)
     (auto simp: Let_def case_prod_unfold slot_install install_result)

end

end
