(* ===== verification/Pheromones.thy ===== *)
theory Pheromones imports Prelude begin

section \<open>The interface to the Pheromones and cpp-common libraries\<close>

text \<open>
  The bridge exchanges the message objects (DTOs) of the Propolis libraries, which the build
  fetches (\<open>cmake/propolis/propolis.cmake\<close>) and which are not part of this repository. This theory
  holds what the bridge's own code sees of them:

  \<^item> a DTO is the tuple of the values its getters return, a \<open>std::variant\<close> member is a datatype
    with the alternatives the bridge tests for and one constructor for all the others;
  \<^item> the constants and the constructors that may clip their input (a payload, a name, a list of
    arguments, a text) are unknown functions: the fields of the record \<open>pheromones\<close>, an argument
    of every definition of the model that calls one;
  \<^item> what the bridge relies on of those functions is stated by the predicates \<open>bytes_laws\<close>,
    \<open>call_laws\<close>, \<open>status_laws\<close> and \<open>description_laws\<close>, which appear as hypotheses where a
    property needs them, and \<open>sample_pheromones\<close> is an instance that shows they can hold.

  Nothing here stands for code under \<open>src/\<close>.
\<close>

subsection \<open>Leaf values\<close>

datatype UserCallTargetDTO = UNKNOWN | BUZZ | HOST

datatype GenericResponseStatusDTO = Ok | Unknown | BadRequest | OtherStatus nat

datatype FunctionDescriptionArgumentTypeDTO = ArgUnknown | ArgInt | ArgFloat

text \<open>An argument of a function call is a value the bridge only copies and counts.\<close>

type_synonym FunctionCallArgumentDTO = nat

text \<open>
  An argument of a log call, with the type it has in C: an \<open>int\<close>, a \<open>uint32_t\<close>, a \<open>size_t\<close> (64 bits)
  or a NUL-terminated string. \<open>printf\<close> conversions depend on that type.
\<close>

datatype log_arg = LogInt int | LogUnsigned u32 | LogSize u64 | LogStr string

record BytesDTO =
  getPacketId :: u32
  getPacketNumber :: u32
  isLastPacket :: bool
  getPayload :: "u8 list"
  getPayloadLength :: u16

text \<open>
  \<open>getArguments()\<close> is the whole \<open>std::array\<close> of \<open>FUNCTION_CALL_ARGUMENTS_MAX_LENGTH\<close> entries, of which
  the first \<open>getArgumentsLength()\<close> are the arguments of the call. The bridge takes \<open>begin()\<close> and \<open>end()\<close>
  of two calls of it, so it relies on a reference to the member.
\<close>

record FunctionCallRequestDTO =
  getFunctionName :: string
  getArguments :: "FunctionCallArgumentDTO list"
  getArgumentsLength :: nat

record GenericResponseDTO =
  getStatus :: GenericResponseStatusDTO
  getDetails :: string

text \<open>\<open>FunctionCallResponseDTO\<close> wraps a generic response, read with \<open>getResponse\<close>.\<close>

record FunctionCallResponseDTO =
  getFunctionCallResponse :: GenericResponseDTO

record FunctionDescriptionArgumentDTO =
  getArgumentName :: string
  getArgumentType :: FunctionDescriptionArgumentTypeDTO

text \<open>
  The bridge builds a description and never reads one back: \<open>getDescribedArguments\<close> stands for the
  arguments a peer reads, the first \<open>getArgumentsLength()\<close> entries of its array.
\<close>

record FunctionDescriptionDTO =
  getDescribedName :: string
  getDescribedArguments :: "FunctionDescriptionArgumentDTO list"

record NeighborPositionDTO =
  getDistance :: float32
  getAzimuth :: float32
  inLOSDTO :: bool

record GetNeighborResponseDTO =
  getNeighborId :: u16
  getNeighborPosition :: "NeighborPositionDTO option"

record GetNeighborsListResponseDTO =
  getNeighbors :: "u16 list"
  getNeighborsLength :: u64


subsection \<open>Requests, responses and messages\<close>

datatype user_call_request =
    FunctionListLengthRequest
  | FunctionDescriptionRequest u32    \<comment> \<open>its index\<close>
  | FunctionCallRequest FunctionCallRequestDTO
  | OtherUserCallRequest

record UserCallRequestDTO =
  getSource :: UserCallTargetDTO
  getDestination :: UserCallTargetDTO
  getUserCallRequest :: user_call_request

datatype host_api_request =
    BytesRequest BytesDTO
  | GetNeighborRequest u16            \<comment> \<open>its neighbor id\<close>
  | GetNeighborsListRequest
  | OtherHostApiRequest

datatype request_body =
    UserCallRequest UserCallRequestDTO
  | HostApiRequest host_api_request
  | OtherRequest

record RequestDTO =
  getRequestId :: u32
  getRequest :: request_body

datatype description_response =
    Description FunctionDescriptionDTO
  | DescriptionError GenericResponseDTO

datatype user_call_response =
    GenericUserCallResponse GenericResponseDTO
  | FunctionCallResponse FunctionCallResponseDTO
  | FunctionListLengthResponse u32    \<comment> \<open>its length\<close>
  | FunctionDescriptionResponse description_response
  | OtherUserCallResponse

record UserCallResponseDTO =
  getResponseSource :: UserCallTargetDTO
  getResponseDestination :: UserCallTargetDTO
  getUserCallResponse :: user_call_response

datatype host_api_response =
    NeighborsListResponse GetNeighborsListResponseDTO
  | NeighborResponse GetNeighborResponseDTO
  | OtherHostApiResponse

datatype response_body =
    GenericResponse GenericResponseDTO
  | UserCallResponse UserCallResponseDTO
  | HostApiResponse host_api_response
  | OtherResponse

record ResponseDTO =
  getResponseRequestId :: u32
  getResponse :: response_body

datatype message_body =
    Request RequestDTO
  | Response ResponseDTO
  | Greeting u32                      \<comment> \<open>the id of the greeting agent\<close>
  | OtherMessage nat                  \<comment> \<open>any other alternative, by its index\<close>

record MessageDTO =
  getSourceId :: u32
  getDestinationId :: u32
  getMessage :: message_body


subsection \<open>The library's constants and clipping constructors\<close>

text \<open>
  A constructor that takes a pointer and a length takes here the list the pointer reaches and the
  length.
\<close>

record pheromones =
  PAYLOAD_MAX_SIZE :: nat
  FUNCTION_CALL_ARGUMENTS_MAX_LENGTH :: nat
  max_arguments_arg :: log_arg  \<comment> \<open>\<open>FUNCTION_CALL_ARGUMENTS_MAX_LENGTH\<close> passed to a log call\<close>
  mk_BytesDTO :: "u32 \<Rightarrow> u32 \<Rightarrow> bool \<Rightarrow> u8 list \<Rightarrow> u16 \<Rightarrow> BytesDTO"
  mk_FunctionCallRequestDTO :: "string \<Rightarrow> FunctionCallArgumentDTO list \<Rightarrow> nat \<Rightarrow> FunctionCallRequestDTO"
  mk_GenericResponseDTO :: "GenericResponseStatusDTO \<Rightarrow> string \<Rightarrow> GenericResponseDTO"
  mk_FunctionCallResponseDTO :: "GenericResponseStatusDTO \<Rightarrow> string \<Rightarrow> FunctionCallResponseDTO"
  mk_FunctionDescriptionArgumentDTO ::
    "string \<Rightarrow> FunctionDescriptionArgumentTypeDTO \<Rightarrow> FunctionDescriptionArgumentDTO"
  mk_FunctionDescriptionDTO ::
    "string \<Rightarrow> FunctionDescriptionArgumentDTO list \<Rightarrow> nat \<Rightarrow> FunctionDescriptionDTO"
  default_MessageDTO :: MessageDTO
  message_index :: "message_body \<Rightarrow> nat"

definition bytes_laws :: "pheromones \<Rightarrow> bool" where
  "bytes_laws ph \<longleftrightarrow>
     0 < PAYLOAD_MAX_SIZE ph \<and> PAYLOAD_MAX_SIZE ph < 256 \<and>
     (\<forall>i n l p k. unat k \<le> PAYLOAD_MAX_SIZE ph \<longrightarrow> unat k \<le> length p \<longrightarrow>
        (let b = mk_BytesDTO ph i n l p k in
          getPacketId b = i \<and> getPacketNumber b = n \<and> isLastPacket b = l \<and>
          getPayloadLength b = k \<and> unat k \<le> length (getPayload b) \<and>
          take (unat k) (getPayload b) = take (unat k) p))"

definition call_laws :: "pheromones \<Rightarrow> bool" where
  "call_laws ph \<longleftrightarrow>
     (\<forall>f xs k. k \<le> FUNCTION_CALL_ARGUMENTS_MAX_LENGTH ph \<longrightarrow> k \<le> length xs \<longrightarrow>
        (let d = mk_FunctionCallRequestDTO ph f xs k in
          length (getArguments d) = FUNCTION_CALL_ARGUMENTS_MAX_LENGTH ph \<and>
          getArgumentsLength d = k \<and> take k (getArguments d) = take k xs))"

definition status_laws :: "pheromones \<Rightarrow> bool" where
  "status_laws ph \<longleftrightarrow>
     (\<forall>s d. getStatus (mk_GenericResponseDTO ph s d) = s) \<and>
     (\<forall>s d. getStatus (getFunctionCallResponse (mk_FunctionCallResponseDTO ph s d)) = s)"

definition description_laws :: "pheromones \<Rightarrow> (string \<Rightarrow> bool) \<Rightarrow> nat \<Rightarrow> bool" where
  \<comment> \<open>names that satisfy \<open>fits\<close> and at most \<open>m\<close> arguments are stored unchanged\<close>
  "description_laws ph fits m \<longleftrightarrow>
     (\<forall>s t. fits s \<longrightarrow>
        mk_FunctionDescriptionArgumentDTO ph s t = \<lparr>getArgumentName = s, getArgumentType = t\<rparr>) \<and>
     (\<forall>s xs. fits s \<longrightarrow> length xs \<le> m \<longrightarrow>
        mk_FunctionDescriptionDTO ph s xs (length xs) =
          \<lparr>getDescribedName = s, getDescribedArguments = xs\<rparr>)"

lemma bytes_lawsD:
  assumes "bytes_laws ph"
  shows "0 < PAYLOAD_MAX_SIZE ph" "PAYLOAD_MAX_SIZE ph < 256"
  using assms by (simp_all add: bytes_laws_def)

lemma bytes_laws_mk:
  assumes "bytes_laws ph" "unat k \<le> PAYLOAD_MAX_SIZE ph" "unat k \<le> length p"
  shows "getPacketId (mk_BytesDTO ph i n l p k) = i"
    and "getPacketNumber (mk_BytesDTO ph i n l p k) = n"
    and "isLastPacket (mk_BytesDTO ph i n l p k) = l"
    and "getPayloadLength (mk_BytesDTO ph i n l p k) = k"
    and "unat k \<le> length (getPayload (mk_BytesDTO ph i n l p k))"
    and "take (unat k) (getPayload (mk_BytesDTO ph i n l p k)) = take (unat k) p"
  using assms by (auto simp: bytes_laws_def Let_def)

lemma call_laws_mk:
  assumes "call_laws ph" "k \<le> FUNCTION_CALL_ARGUMENTS_MAX_LENGTH ph" "k \<le> length xs"
  shows "length (getArguments (mk_FunctionCallRequestDTO ph f xs k)) = FUNCTION_CALL_ARGUMENTS_MAX_LENGTH ph"
    and "getArgumentsLength (mk_FunctionCallRequestDTO ph f xs k) = k"
    and "take k (getArguments (mk_FunctionCallRequestDTO ph f xs k)) = take k xs"
  using assms by (auto simp: call_laws_def Let_def)

lemma description_laws_fun:
  assumes "description_laws ph fits m" "fits s" "length xs \<le> m"
  shows "mk_FunctionDescriptionDTO ph s xs (length xs) =
    \<lparr>getDescribedName = s, getDescribedArguments = xs\<rparr>"
  using assms by (simp add: description_laws_def)

definition sample_pheromones :: pheromones where
  "sample_pheromones = \<lparr>
     PAYLOAD_MAX_SIZE = 4,
     FUNCTION_CALL_ARGUMENTS_MAX_LENGTH = 2,
     max_arguments_arg = LogInt 2,
     mk_BytesDTO = (\<lambda>i n l p k. \<lparr>getPacketId = i, getPacketNumber = n, isLastPacket = l,
       getPayload = take 4 p @ replicate (4 - length p) 0, getPayloadLength = (if k \<le> 4 then k else 4)\<rparr>),
     mk_FunctionCallRequestDTO = (\<lambda>f xs k.
       \<lparr>getFunctionName = take 16 f,
        getArguments = take (min k 2) xs @ replicate (2 - length (take (min k 2) xs)) 0,
        getArgumentsLength = min k 2\<rparr>),
     mk_GenericResponseDTO = (\<lambda>s d. \<lparr>getStatus = s, getDetails = take 24 d\<rparr>),
     mk_FunctionCallResponseDTO = (\<lambda>s d.
       \<lparr>getFunctionCallResponse = \<lparr>getStatus = s, getDetails = take 24 d\<rparr>\<rparr>),
     mk_FunctionDescriptionArgumentDTO = (\<lambda>s t.
       \<lparr>getArgumentName = take 16 s, getArgumentType = t\<rparr>),
     mk_FunctionDescriptionDTO = (\<lambda>s xs k.
       \<lparr>getDescribedName = take 16 s, getDescribedArguments = take (min k 2) xs\<rparr>),
     default_MessageDTO = \<lparr>getSourceId = 0, getDestinationId = 0, getMessage = OtherMessage 0\<rparr>,
     message_index = (\<lambda>m. case m of OtherMessage i \<Rightarrow> i | Request _ \<Rightarrow> 1 | Response _ \<Rightarrow> 2
       | Greeting _ \<Rightarrow> 3)\<rparr>"

lemma sample_bytes_laws: "bytes_laws sample_pheromones"
  by (auto simp: bytes_laws_def sample_pheromones_def word_le_nat_alt take_append min_def)

lemma sample_call_laws: "call_laws sample_pheromones"
  by (auto simp: call_laws_def sample_pheromones_def min_def)

lemma sample_status_laws: "status_laws sample_pheromones"
  by (simp add: status_laws_def sample_pheromones_def)

lemma sample_description_laws: "description_laws sample_pheromones (\<lambda>s. length s \<le> 16) 2"
  by (auto simp: description_laws_def sample_pheromones_def)


subsection \<open>Loggers and observable events\<close>

text \<open>
  \<open>ILogger::log(level, format, ...)\<close> and the calls that leave the program are events; the list of
  events a run of an operation makes, in order, is part of its result.
\<close>

datatype log_level = Debug | Info | Warn | Error

record Position =
  distance :: float32
  azimuth :: float32
  inLOS :: bool

datatype event =
    Log log_level string "log_arg list"
  | SerializeToStream MessageDTO             \<comment> \<open>\<open>m_serializer.serializeToStream(message)\<close>\<close>
  | BytesReceived hook "u8 list" u64         \<comment> \<open>\<open>m_bytesReceivedCallback(data, size)\<close>\<close>
  | NeighborListUpdated hook "u16 list" u64
  | NeighborUpdated hook u16 "Position option"
  | ConnectHook hook                         \<comment> \<open>\<open>m_onConnect()\<close>\<close>
  | DisconnectHook hook                      \<comment> \<open>\<open>m_onDisonnect()\<close>\<close>
  | ShutdownFd int                           \<comment> \<open>\<open>::shutdown(fd, SHUT_RDWR)\<close>\<close>
  | CloseFd int                              \<comment> \<open>\<open>::close(fd)\<close>\<close>

fun is_log :: "event \<Rightarrow> bool" where
  "is_log (Log _ _ _) = True"
| "is_log _ = False"

fun serialized :: "event list \<Rightarrow> MessageDTO list" where
  "serialized [] = []"
| "serialized (SerializeToStream m # es) = m # serialized es"
| "serialized (_ # es) = serialized es"

lemma serialized_append [simp]: "serialized (es @ es') = serialized es @ serialized es'"
  by (induction es rule: serialized.induct) auto

end
