(* ===== verification/UserCallbackMap.thy ===== *)
theory UserCallbackMap imports Prelude Pheromones begin

section \<open>User callbacks and their registry\<close>

text \<open>
  \<open>Callback.h\<close>, \<open>UserCallbackArgumentDescription\<close>, \<open>UserCallbackFunctionWrapper\<close> and
  \<open>UserCallbackMap\<close>: the table of user-defined actions, kept as an unordered map from names to
  wrappers beside a vector of names that gives every action an index. The locale
  \<open>callback_registry\<close> is the contract of \<open>IUserCallbackMap\<close>; its clients' facts are proved in it
  once and \<open>cbm\<close> instantiates them with the code's class.
\<close>

subsection \<open>Callbacks, manifests and wrappers\<close>

type_synonym CallbackArgs = "FunctionCallArgumentDTO list"

record UserCallbackArgumentDescription =
  m_name :: string
  m_type :: FunctionDescriptionArgumentTypeDTO

type_synonym CallbackArgsManifest = "UserCallbackArgumentDescription list"

definition getName :: "UserCallbackArgumentDescription \<Rightarrow> string" where
  "getName d = m_name d"

definition getType :: "UserCallbackArgumentDescription \<Rightarrow> FunctionDescriptionArgumentTypeDTO" where
  "getType d = m_type d"

record CallbackReturn =
  m_args :: CallbackArgs
  m_returnFunctionName :: string

definition getReturnArgs :: "CallbackReturn \<Rightarrow> CallbackArgs" where
  "getReturnArgs r = m_args r"

definition getReturnFunctionName :: "CallbackReturn \<Rightarrow> string" where
  "getReturnFunctionName r = m_returnFunctionName r"

text \<open>
  Calling a \<open>CallbackFunction\<close> returns an optional return payload or throws. An empty
  \<open>std::function\<close> is \<open>None\<close>; calling it throws \<open>std::bad_function_call\<close>.
\<close>

datatype callback_outcome =
    Returns "CallbackReturn option"
  | ThrowsException string            \<comment> \<open>a \<open>std::exception\<close> and its \<open>what()\<close>\<close>
  | ThrowsOther

type_synonym CallbackFunction = "(CallbackArgs \<Rightarrow> callback_outcome) option"

definition call_function :: "CallbackFunction \<Rightarrow> CallbackArgs \<Rightarrow> callback_outcome" where
  "call_function f args =
     (case f of None \<Rightarrow> ThrowsException ''bad_function_call'' | Some g \<Rightarrow> g args)"

record UserCallbackFunctionWrapper =
  m_function :: CallbackFunction
  m_manifest :: CallbackArgsManifest

definition default_wrapper :: UserCallbackFunctionWrapper where
  "default_wrapper = \<lparr>m_function = None, m_manifest = []\<rparr>"

definition getFunction :: "UserCallbackFunctionWrapper \<Rightarrow> CallbackFunction" where
  "getFunction w = m_function w"

definition getManifest :: "UserCallbackFunctionWrapper \<Rightarrow> CallbackArgsManifest" where
  "getManifest w = m_manifest w"

lemmas [bridge_defs] = getName_def getType_def getReturnArgs_def getReturnFunctionName_def
  getFunction_def getManifest_def default_wrapper_def


subsection \<open>The map\<close>

record UserCallbackMap =
  m_callbacks :: "string \<rightharpoonup> UserCallbackFunctionWrapper"
  m_callbackNames :: "string list"

definition empty_callback_map :: UserCallbackMap where
  "empty_callback_map = \<lparr>m_callbacks = Map.empty, m_callbackNames = []\<rparr>"

definition registerCallback ::
  "string \<Rightarrow> CallbackFunction \<Rightarrow> CallbackArgsManifest \<Rightarrow> UserCallbackMap \<Rightarrow> bool \<times> UserCallbackMap" where
  "registerCallback name callback manifest m =
     (let overwriting = m_callbacks m name \<noteq> None;
          cb = \<lparr>m_function = callback, m_manifest = manifest\<rparr>;
          m = m\<lparr>m_callbacks := (m_callbacks m)(name \<mapsto> cb)\<rparr>;
          m = (if \<not> overwriting then m\<lparr>m_callbackNames := m_callbackNames m @ [name]\<rparr> else m)
      in (overwriting, m))"

definition registerCallback_noManifest ::
  "string \<Rightarrow> CallbackFunction \<Rightarrow> UserCallbackMap \<Rightarrow> bool \<times> UserCallbackMap" where
  "registerCallback_noManifest name callback m = registerCallback name callback [] m"

definition getCallback :: "string \<Rightarrow> UserCallbackMap \<Rightarrow> CallbackFunction option" where
  "getCallback name m =
     (case m_callbacks m name of Some w \<Rightarrow> Some (getFunction w) | None \<Rightarrow> None)"

definition getLength :: "UserCallbackMap \<Rightarrow> u32" where
  "getLength m = word_of_nat (length (m_callbackNames m))"

text \<open>
  The guard is \<open>index > size()\<close>, so \<open>index = size()\<close> reaches the unchecked \<open>operator[]\<close> of the
  vector. \<open>m_callbacks[name]\<close> inserts a default wrapper when the name has no entry.
\<close>

definition getManifestAt ::
  "u32 \<Rightarrow> UserCallbackMap \<Rightarrow> (CallbackArgsManifest option \<times> UserCallbackMap) result" where
  "getManifestAt index m =
     (if length (m_callbackNames m) < unat index then Inr (None, m)
      else rbind (read_at (m_callbackNames m) (unat index)) (\<lambda>name.
        case m_callbacks m name of
          Some cb \<Rightarrow> Inr (Some (getManifest cb), m)
        | None \<Rightarrow>
            Inr (Some (getManifest default_wrapper),
                 m\<lparr>m_callbacks := (m_callbacks m)(name \<mapsto> default_wrapper)\<rparr>)))"

definition getNameAt :: "u32 \<Rightarrow> UserCallbackMap \<Rightarrow> string option result" where
  "getNameAt index m =
     (if length (m_callbackNames m) < unat index then Inr None
      else rbind (read_at (m_callbackNames m) (unat index)) (\<lambda>name. Inr (Some name)))"


subsection \<open>The invariant: the vector is a lookup table for the map\<close>

definition callback_map_inv :: "UserCallbackMap \<Rightarrow> bool" where
  "callback_map_inv m \<longleftrightarrow>
     distinct (m_callbackNames m) \<and> set (m_callbackNames m) = dom (m_callbacks m)"

lemma callback_map_inv_empty [simp]: "callback_map_inv empty_callback_map"
  by (simp add: callback_map_inv_def empty_callback_map_def)

lemma registerCallback_fst: "fst (registerCallback n f a m) \<longleftrightarrow> n \<in> dom (m_callbacks m)"
  by (auto simp: registerCallback_def Let_def)

lemma registerCallback_callbacks [simp]:
  "m_callbacks (snd (registerCallback n f a m)) =
     (m_callbacks m)(n \<mapsto> \<lparr>m_function = f, m_manifest = a\<rparr>)"
  by (simp add: registerCallback_def Let_def)

lemma registerCallback_names:
  "m_callbackNames (snd (registerCallback n f a m)) =
     (if n \<in> dom (m_callbacks m) then m_callbackNames m else m_callbackNames m @ [n])"
  by (auto simp: registerCallback_def Let_def)

lemma registerCallback_inv [intro]:
  "callback_map_inv m \<Longrightarrow> callback_map_inv (snd (registerCallback n f a m))"
  by (auto simp: callback_map_inv_def registerCallback_names)

lemma getCallback_eq: "getCallback n m = map_option m_function (m_callbacks m n)"
  by (simp add: getCallback_def getFunction_def split: option.splits)

lemma getNameAt_inside:
  "unat i < length (m_callbackNames m) \<Longrightarrow> getNameAt i m = Inr (Some (m_callbackNames m ! unat i))"
  by (simp add: getNameAt_def)

lemma getManifestAt_inside:
  assumes "callback_map_inv m" "unat i < length (m_callbackNames m)"
  shows "getManifestAt i m =
    Inr (map_option m_manifest (m_callbacks m (m_callbackNames m ! unat i)), m)"
proof -
  have "m_callbackNames m ! unat i \<in> dom (m_callbacks m)"
    using assms by (metis callback_map_inv_def nth_mem)
  then show ?thesis
    using assms(2) by (auto simp: getManifestAt_def getManifest_def)
qed

lemma getManifestAt_beyond:
  "length (m_callbackNames m) < unat i \<Longrightarrow> getManifestAt i m = Inr (None, m)"
  by (simp add: getManifestAt_def)

lemma getNameAt_beyond: "length (m_callbackNames m) < unat i \<Longrightarrow> getNameAt i m = Inr None"
  by (simp add: getNameAt_def)

lemma getManifestAt_fault_iff:
  "getManifestAt i m = Inl e \<longleftrightarrow> unat i = length (m_callbackNames m) \<and> e = OutOfBounds"
  by (auto simp: getManifestAt_def read_at_def split: option.splits)

lemma getNameAt_fault_iff:
  "getNameAt i m = Inl e \<longleftrightarrow> unat i = length (m_callbackNames m) \<and> e = OutOfBounds"
  by (auto simp: getNameAt_def read_at_def)

text \<open>The lookup never inserts into the map while the vector and the map agree.\<close>

lemma getManifestAt_pure:
  assumes "callback_map_inv m" "getManifestAt i m = Inr (r, m')"
  shows "m' = m"
proof (cases "unat i" "length (m_callbackNames m)" rule: linorder_cases)
  case less
  then show ?thesis using assms by (simp add: getManifestAt_inside)
next
  case equal
  then show ?thesis using assms getManifestAt_fault_iff [of i m OutOfBounds] by simp
next
  case greater
  then show ?thesis using assms by (simp add: getManifestAt_beyond)
qed


subsection \<open>The contract of \<open>IUserCallbackMap\<close>\<close>

locale callback_registry =
  fixes register :: "string \<Rightarrow> CallbackFunction \<Rightarrow> CallbackArgsManifest \<Rightarrow> 'm \<Rightarrow> bool \<times> 'm"
    and callback :: "string \<Rightarrow> 'm \<Rightarrow> CallbackFunction option"
    and size_of :: "'m \<Rightarrow> u32"
    and manifest_at :: "u32 \<Rightarrow> 'm \<Rightarrow> (CallbackArgsManifest option \<times> 'm) result"
    and name_at :: "u32 \<Rightarrow> 'm \<Rightarrow> string option result"
    and names :: "'m \<Rightarrow> string list"
    and manifest_of :: "'m \<Rightarrow> string \<Rightarrow> CallbackArgsManifest option"
    and invar :: "'m \<Rightarrow> bool"
  assumes invar_register: "invar m \<Longrightarrow> invar (snd (register n f a m))"
    and overwrites: "invar m \<Longrightarrow> fst (register n f a m) \<longleftrightarrow> n \<in> set (names m)"
    and names_register: "invar m \<Longrightarrow>
      names (snd (register n f a m)) = (if n \<in> set (names m) then names m else names m @ [n])"
    and callback_register:
      "callback k (snd (register n f a m)) = (if k = n then Some f else callback k m)"
    and manifest_register:
      "manifest_of (snd (register n f a m)) k = (if k = n then Some a else manifest_of m k)"
    and callback_dom: "invar m \<Longrightarrow> callback k m \<noteq> None \<longleftrightarrow> k \<in> set (names m)"
    and names_distinct: "invar m \<Longrightarrow> distinct (names m)"
    and size_names: "size_of m = word_of_nat (length (names m))"
    and name_inside: "unat i < length (names m) \<Longrightarrow> name_at i m = Inr (Some (names m ! unat i))"
    and manifest_inside: "invar m \<Longrightarrow> unat i < length (names m) \<Longrightarrow>
      manifest_at i m = Inr (manifest_of m (names m ! unat i), m)"
begin

definition register_all ::
  "(string \<times> CallbackFunction \<times> CallbackArgsManifest) list \<Rightarrow> 'm \<Rightarrow> 'm" where
  "register_all rs m = fold (\<lambda>(n, f, a) m. snd (register n f a m)) rs m"

lemma register_all_simps:
  "register_all [] m = m"
  "register_all (r # rs) m =
     register_all rs (snd (register (fst r) (fst (snd r)) (snd (snd r)) m))"
  by (simp_all add: register_all_def case_prod_unfold)

lemma invar_register_all: "invar m \<Longrightarrow> invar (register_all rs m)"
  by (induction rs arbitrary: m) (auto simp: register_all_simps invar_register)

lemma callback_register_all:
  "callback k (register_all rs m) =
     (case map_of (rev (map (\<lambda>(n, f, a). (n, f)) rs)) k of Some f \<Rightarrow> Some f | None \<Rightarrow> callback k m)"
  by (induction rs arbitrary: m)
     (auto simp: register_all_simps callback_register map_of_append map_add_def split: option.splits)

lemma names_register_all:
  "invar m \<Longrightarrow> set (names (register_all rs m)) = set (names m) \<union> fst ` set rs"
proof (induction rs arbitrary: m)
  case Nil
  then show ?case by (simp add: register_all_simps)
next
  case (Cons r rs)
  then show ?case
    by (auto simp: register_all_simps names_register invar_register)
qed

text \<open>Registering never moves or removes a name: indexes handed out earlier stay valid.\<close>

lemma names_prefix: "invar m \<Longrightarrow> \<exists>ns. names (register_all rs m) = names m @ ns"
proof (induction rs arbitrary: m)
  case Nil
  then show ?case by (simp add: register_all_simps)
next
  case (Cons r rs)
  let ?m = "snd (register (fst r) (fst (snd r)) (snd (snd r)) m)"
  obtain ns where "names (register_all rs ?m) = names ?m @ ns"
    using Cons.IH Cons.prems invar_register by blast
  then show ?case
    using Cons.prems by (auto simp: register_all_simps names_register)
qed

text \<open>The names a client reads with the indexes below the advertised length.\<close>

lemma enumerate_names:
  assumes "length (names m) < 2 ^ 32"
  shows "map (\<lambda>i. name_at (word_of_nat i) m) [0 ..< unat (size_of m)] = map (Inr \<circ> Some) (names m)"
  using assms by (auto simp: size_names name_inside intro!: nth_equalityI)

lemma enumerate_complete:
  assumes "invar m" "length (names m) < 2 ^ 32"
  shows "callback k m \<noteq> None \<longleftrightarrow> (\<exists>i < unat (size_of m). name_at (word_of_nat i) m = Inr (Some k))"
proof -
  have "unat (size_of m) = length (names m)"
    using assms(2) by (simp add: size_names)
  moreover have "\<And>i. i < length (names m) \<Longrightarrow> name_at (word_of_nat i) m = Inr (Some (names m ! i))"
    using assms(2) by (simp add: name_inside)
  ultimately show ?thesis
    using callback_dom [OF assms(1)] by (auto simp: in_set_conv_nth)
qed

end

definition manifest_of_name :: "UserCallbackMap \<Rightarrow> string \<Rightarrow> CallbackArgsManifest option" where
  "manifest_of_name m n = map_option m_manifest (m_callbacks m n)"

interpretation cbm: callback_registry registerCallback getCallback getLength getManifestAt getNameAt
  m_callbackNames manifest_of_name callback_map_inv
proof (unfold_locales, goal_cases)
  case (2 m n f a)
  then show ?case by (simp add: registerCallback_fst callback_map_inv_def)
next
  case (3 m n f a)
  then show ?case by (simp add: registerCallback_names callback_map_inv_def)
next
  case (6 m k)
  then show ?case by (auto simp: getCallback_eq callback_map_inv_def)
next
  case (9 i m)
  then show ?case by (simp add: getNameAt_inside)
next
  case (10 m i)
  then show ?case by (simp add: getManifestAt_inside manifest_of_name_def)
qed (auto simp: getCallback_eq manifest_of_name_def getLength_def callback_map_inv_def
      registerCallback_names)


subsection \<open>Properties of the registry\<close>

definition registerCallbacks ::
  "(string \<times> CallbackFunction \<times> CallbackArgsManifest) list \<Rightarrow> UserCallbackMap \<Rightarrow> UserCallbackMap" where
  "registerCallbacks rs m = fold (\<lambda>(n, f, a) m. snd (registerCallback n f a m)) rs m"

lemma registerCallbacks_eq: "registerCallbacks = cbm.register_all"
  by (intro ext) (simp add: registerCallbacks_def cbm.register_all_def)

lemma registerCallbacks_inv: "callback_map_inv (registerCallbacks rs empty_callback_map)"
  by (simp add: registerCallbacks_eq cbm.invar_register_all)

text \<open>
  After any sequence of registrations the last callback registered under a name is the one
  found under it, names without a registration are not found, and the names with an index are
  exactly the registered ones, each once.
\<close>

theorem registry_last_registration_wins:
  "getCallback k (registerCallbacks rs empty_callback_map) =
     map_of (rev (map (\<lambda>(n, f, a). (n, f)) rs)) k \<and>
   distinct (m_callbackNames (registerCallbacks rs empty_callback_map)) \<and>
   set (m_callbackNames (registerCallbacks rs empty_callback_map)) = fst ` set rs"
proof (intro conjI)
  let ?m = "registerCallbacks rs empty_callback_map"
  have empty: "getCallback k empty_callback_map = None" "m_callbackNames empty_callback_map = []"
    by (simp_all add: getCallback_eq empty_callback_map_def)
  show "getCallback k ?m = map_of (rev (map (\<lambda>(n, f, a). (n, f)) rs)) k"
    by (simp add: registerCallbacks_eq cbm.callback_register_all empty split: option.split)
  show "distinct (m_callbackNames ?m)"
    using registerCallbacks_inv cbm.names_distinct by blast
  show "set (m_callbackNames ?m) = fst ` set rs"
    by (simp add: registerCallbacks_eq cbm.names_register_all empty)
qed

end
