(* ===== verification/ThreadSafeQueue.thy ===== *)
theory ThreadSafeQueue imports Prelude begin

section \<open>ThreadSafeQueue\<close>

text \<open>
  \<open>ThreadSafeQueue<T>\<close> wraps a \<open>std::queue\<close>; each member function holds the mutex for its whole
  body, so each is one atomic step. A sequence of calls is not: between \<open>empty\<close>, \<open>front\<close> and
  \<open>pop\<close> other threads may push. The locale \<open>thread_queue\<close> is the contract of
  \<open>IThreadSafeQueue\<close>, with the facts the bridge's single-consumer loops rest on.
\<close>

record 'a ThreadSafeQueue =
  m_queue :: "'a list"

definition new_queue :: "'a ThreadSafeQueue" where
  "new_queue = \<lparr>m_queue = []\<rparr>"

definition push :: "'a \<Rightarrow> 'a ThreadSafeQueue \<Rightarrow> 'a ThreadSafeQueue" where
  "push item q = q\<lparr>m_queue := m_queue q @ [item]\<rparr>"

definition pop :: "'a ThreadSafeQueue \<Rightarrow> 'a ThreadSafeQueue result" where
  "pop q = (case m_queue q of [] \<Rightarrow> Inl EmptyQueueAccess | _ # xs \<Rightarrow> Inr (q\<lparr>m_queue := xs\<rparr>))"

definition front :: "'a ThreadSafeQueue \<Rightarrow> 'a result" where
  "front q = (case m_queue q of [] \<Rightarrow> Inl EmptyQueueAccess | x # _ \<Rightarrow> Inr x)"

definition queue_back :: "'a ThreadSafeQueue \<Rightarrow> 'a result" where
  "queue_back q = (if m_queue q = [] then Inl EmptyQueueAccess else Inr (last (m_queue q)))"

definition queue_size :: "'a ThreadSafeQueue \<Rightarrow> nat" where
  "queue_size q = length (m_queue q)"

definition empty :: "'a ThreadSafeQueue \<Rightarrow> bool" where
  "empty q = (m_queue q = [])"


subsection \<open>The contract of \<open>IThreadSafeQueue\<close>\<close>

locale thread_queue =
  fixes enq :: "'a \<Rightarrow> 'q \<Rightarrow> 'q"
    and deq :: "'q \<Rightarrow> 'q result"
    and first :: "'q \<Rightarrow> 'a result"
    and newest :: "'q \<Rightarrow> 'a result"
    and count :: "'q \<Rightarrow> nat"
    and is_empty :: "'q \<Rightarrow> bool"
    and contents :: "'q \<Rightarrow> 'a list"
  assumes contents_enq: "contents (enq x q) = contents q @ [x]"
    and is_empty_iff: "is_empty q \<longleftrightarrow> contents q = []"
    and count_eq: "count q = length (contents q)"
    and first_nonempty: "contents q = x # xs \<Longrightarrow> first q = Inr x"
    and newest_nonempty: "contents q = xs @ [x] \<Longrightarrow> newest q = Inr x"
    and deq_nonempty: "contents q = x # xs \<Longrightarrow> \<exists>q'. deq q = Inr q' \<and> contents q' = xs"
    and first_empty: "contents q = [] \<Longrightarrow> first q = Inl EmptyQueueAccess"
    and deq_empty: "contents q = [] \<Longrightarrow> deq q = Inl EmptyQueueAccess"
begin

lemma contents_enqs: "contents (fold enq xs q) = contents q @ xs"
  by (induction xs arbitrary: q) (simp_all add: contents_enq)

lemma nonempty_stable: "\<not> is_empty q \<Longrightarrow> \<not> is_empty (fold enq xs q)"
  by (simp add: is_empty_iff contents_enqs)

text \<open>
  A single consumer that has seen the queue non-empty may read the front and later pop it, with
  any number of pushes by other threads in between: neither call faults, and the element removed
  is the one read.
\<close>

lemma read_then_pop:
  assumes "\<not> is_empty q"
  shows "\<exists>x q'. first (fold enq xs q) = Inr x \<and> deq (fold enq ys (fold enq xs q)) = Inr q' \<and>
    x # contents q' = contents q @ xs @ ys"
proof -
  obtain x rest where q: "contents q = x # rest"
    using assms by (auto simp: is_empty_iff neq_Nil_conv)
  have b: "contents (fold enq xs q) = x # (rest @ xs)"
    and c: "contents (fold enq ys (fold enq xs q)) = x # (rest @ xs @ ys)"
    by (simp_all add: contents_enqs q)
  from b have "first (fold enq xs q) = Inr x"
    by (rule first_nonempty)
  moreover obtain q' where "deq (fold enq ys (fold enq xs q)) = Inr q'"
    "contents q' = rest @ xs @ ys"
    using deq_nonempty [OF c] by blast
  ultimately show ?thesis using q by auto
qed

lemma deq_ok_iff: "ok (deq q) \<longleftrightarrow> \<not> is_empty q"
  by (cases "contents q") (auto simp: is_empty_iff deq_empty dest: deq_nonempty)

lemma first_ok_iff: "ok (first q) \<longleftrightarrow> \<not> is_empty q"
  by (cases "contents q") (auto simp: is_empty_iff first_empty first_nonempty)

lemma count_zero: "count q = 0 \<longleftrightarrow> is_empty q"
  by (simp add: count_eq is_empty_iff)

end

interpretation tsq: thread_queue push pop front queue_back queue_size empty m_queue
  by unfold_locales
     (auto simp: push_def pop_def front_def queue_back_def queue_size_def empty_def)

lemma push_queue [simp]: "m_queue (push x q) = m_queue q @ [x]"
  by (rule tsq.contents_enq)

lemma new_queue_contents [simp]: "m_queue new_queue = []"
  by (simp add: new_queue_def)

lemma pop_Cons: "m_queue q = x # xs \<Longrightarrow> pop q = Inr (q\<lparr>m_queue := xs\<rparr>)"
  by (simp add: pop_def)

lemma empty_iff: "empty q \<longleftrightarrow> m_queue q = []"
  by (rule tsq.is_empty_iff)


subsection \<open>Properties of the queue\<close>

text \<open>
  Items leave the queue in the order they entered it: with one consumer, what the consumer
  reads with \<open>front\<close> is what its later \<open>pop\<close> removes, and neither call touches an empty queue,
  whatever other threads push before the read (\<open>xs\<close>) and between the read and the pop (\<open>ys\<close>).
\<close>

theorem single_consumer_read_then_pop:
  assumes "\<not> empty q"
  shows "\<exists>x q'. front (fold push xs q) = Inr x \<and> pop (fold push ys (fold push xs q)) = Inr q' \<and>
    x # m_queue q' = m_queue q @ xs @ ys"
  using assms by (rule tsq.read_then_pop)

theorem single_consumer_read_then_pop_witness:
  "\<not> empty (push (1::nat) new_queue) \<and>
   (\<exists>x q'. front (fold push [2] (push (1::nat) new_queue)) = Inr x \<and>
     pop (fold push [3] (fold push [2] (push 1 new_queue))) = Inr q' \<and>
     x # m_queue q' = m_queue (push 1 new_queue) @ [2] @ [3])"
proof -
  have h: "\<not> empty (push (1::nat) new_queue)" by (simp add: empty_iff)
  show ?thesis using h single_consumer_read_then_pop [OF h, of "[2]" "[3]"] by blast
qed

end
