(* ===== verification/BytesAccumulator.thy ===== *)
theory BytesAccumulator imports Prelude begin

section \<open>BytesAccumulator\<close>

text \<open>
  \<open>BytesAccumulator\<close> rebuilds a payload from its packets: it accepts a packet only when its number
  follows the last accepted one. The last number is a \<open>uint32_t\<close> that starts at \<open>-1\<close>, so that
  \<open>m_lastPacketNumber + 1\<close> is 0 for the first packet; it wraps around.
\<close>

record BytesAccumulator =
  m_bytes :: "u8 list"
  m_lastPacketNumber :: u32

definition new_accumulator :: BytesAccumulator where
  "new_accumulator = \<lparr>m_bytes = [], m_lastPacketNumber = -1\<rparr>"

text \<open>The loop \<open>for (int i = 0; i < length; i++) m_bytes.push_back(bytes[i])\<close>.\<close>

function append_loop :: "u8 list \<Rightarrow> nat \<Rightarrow> nat \<Rightarrow> u8 list \<Rightarrow> u8 list result" where
  "append_loop bytes n i acc =
     (if i < n
      then rbind (read_at bytes i) (\<lambda>b. append_loop bytes n (Suc i) (acc @ [b]))
      else Inr acc)"
  by pat_completeness auto
termination
  by (relation "measure (\<lambda>(bytes, n, i, acc). n - i)") auto

declare append_loop.simps [simp del]

definition appendBytes ::
  "u8 list \<Rightarrow> u16 \<Rightarrow> u32 \<Rightarrow> BytesAccumulator \<Rightarrow> (bool \<times> BytesAccumulator) result" where
  "appendBytes bytes n packetNumber a =
     (if packetNumber \<noteq> m_lastPacketNumber a + 1 then Inr (False, a)
      else
        let a = a\<lparr>m_lastPacketNumber := packetNumber\<rparr> in
        rbind (append_loop bytes (unat n) 0 (m_bytes a)) (\<lambda>bs.
          Inr (True, a\<lparr>m_bytes := bs\<rparr>)))"

definition getBytes :: "BytesAccumulator \<Rightarrow> u8 list" where
  "getBytes a = m_bytes a"

definition getLastPacketNumber :: "BytesAccumulator \<Rightarrow> u32" where
  "getLastPacketNumber a = m_lastPacketNumber a"

lemma append_loop_eq:
  assumes "i \<le> n" "n \<le> length bytes"
  shows "append_loop bytes n i acc = Inr (acc @ take (n - i) (drop i bytes))"
  using assms
proof (induction bytes n i acc rule: append_loop.induct)
  case (1 bytes n i acc)
  show ?case
  proof (cases "i < n")
    case True
    then have i: "i < length bytes" using "1.prems" by simp
    have "append_loop bytes n i acc = append_loop bytes n (Suc i) (acc @ [bytes ! i])"
      using True i by (simp add: append_loop.simps [of bytes n i acc])
    also have "\<dots> = Inr ((acc @ [bytes ! i]) @ take (n - Suc i) (drop (Suc i) bytes))"
      using "1.IH" [OF True] True i "1.prems" by simp
    also have "\<dots> = Inr (acc @ take (n - i) (drop i bytes))"
      using True i by (simp add: Cons_nth_drop_Suc [symmetric] take_Cons' Suc_diff_Suc)
    finally show ?thesis .
  next
    case False
    then have "i = n" using "1.prems" by simp
    then show ?thesis by (simp add: append_loop.simps [of bytes n n acc])
  qed
qed

lemma append_loop_fault:
  assumes "length bytes < n" "i \<le> length bytes"
  shows "append_loop bytes n i acc = Inl OutOfBounds"
  using assms
proof (induction bytes n i acc rule: append_loop.induct)
  case (1 bytes n i acc)
  show ?case
  proof (cases "i < length bytes")
    case True
    then show ?thesis
      using "1.IH" [of "bytes ! i"] "1.prems" by (simp add: append_loop.simps [of bytes n i acc])
  next
    case False
    then show ?thesis
      using "1.prems" unfolding append_loop.simps [of bytes n i acc] by simp
  qed
qed

text \<open>
  The reference description of an append, for a payload array that holds the announced number of
  bytes.
\<close>

lemma appendBytes_eq:
  assumes "unat n \<le> length bytes"
  shows "appendBytes bytes n k a =
    (if k = m_lastPacketNumber a + 1
     then Inr (True, \<lparr>m_bytes = m_bytes a @ take (unat n) bytes, m_lastPacketNumber = k\<rparr>)
     else Inr (False, a))"
  using assms by (simp add: appendBytes_def Let_def append_loop_eq)

text \<open>
  An append either rejects the packet and leaves the accumulator alone, which happens exactly
  when the packet number is not the successor (modulo \<open>2 ^ 32\<close>) of the last one, or adds exactly
  the announced number of bytes at the end and remembers the number; it reads past the payload
  array exactly when an accepted packet announces more bytes than the array holds.
\<close>

theorem appendBytes_spec:
  "appendBytes bytes n k a =
    (if k \<noteq> getLastPacketNumber a + 1 then Inr (False, a)
     else if length bytes < unat n then Inl OutOfBounds
     else Inr (True, \<lparr>m_bytes = getBytes a @ take (unat n) bytes, m_lastPacketNumber = k\<rparr>))"
  by (simp add: appendBytes_def Let_def append_loop_eq append_loop_fault getBytes_def
      getLastPacketNumber_def)

lemma first_packet_number: "m_lastPacketNumber new_accumulator + 1 = 0"
  by (simp add: new_accumulator_def)

end
