(* ===== verification/HostApiRequestHandler.thy ===== *)
theory HostApiRequestHandler imports Prelude Pheromones BytesAccumulator "HOL-Library.Sublist" begin

section \<open>HiveMindHostApiRequestHandler\<close>

text \<open>
  The handler of requests the HiveMind addresses to the host: arbitrary payloads that arrive as
  numbered \<open>BytesDTO\<close> packets and are rebuilt by one \<open>BytesAccumulator\<close> per packet id. The theory
  models the class, describes a packet's effect on its own transfer, shows that transfers with
  different ids do not disturb each other, and what is delivered when packets are complete, lost
  or sent again.
\<close>

record HiveMindHostApiRequestHandler =
  m_bytesAccumulatorMap :: "u32 \<rightharpoonup> BytesAccumulator"
  m_bytesReceivedCallback :: "hook option"

definition new_request_handler :: HiveMindHostApiRequestHandler where
  "new_request_handler = \<lparr>m_bytesAccumulatorMap = Map.empty, m_bytesReceivedCallback = None\<rparr>"

definition onBytesReceived ::
  "hook option \<Rightarrow> HiveMindHostApiRequestHandler \<Rightarrow> bool \<times> HiveMindHostApiRequestHandler" where
  "onBytesReceived callback s =
     (let retVal = False;
          retVal = (if m_bytesReceivedCallback s \<noteq> None then True else retVal)
      in (retVal, s\<lparr>m_bytesReceivedCallback := callback\<rparr>))"

text \<open>\<open>m_bytesAccumulatorMap[packetId]\<close>, which creates a missing accumulator.\<close>

definition accumulator_at :: "(u32 \<rightharpoonup> BytesAccumulator) \<Rightarrow> u32 \<Rightarrow> BytesAccumulator" where
  "accumulator_at m k = (case m k of Some a \<Rightarrow> a | None \<Rightarrow> new_accumulator)"

definition handleBytes ::
  "MessageDTO \<Rightarrow> BytesDTO \<Rightarrow> HiveMindHostApiRequestHandler \<Rightarrow>
    (HiveMindHostApiRequestHandler \<times> event list) result" where
  "handleBytes message bytes s =
     (case m_bytesReceivedCallback s of
        None \<Rightarrow> Inr (s, [Log Warn ''No callback was defined to handle incoming bytes.'' []])
      | Some callback \<Rightarrow>
          let packetId = getPacketId bytes;
              s = (if m_bytesAccumulatorMap s packetId = None
                   then s\<lparr>m_bytesAccumulatorMap :=
                          (m_bytesAccumulatorMap s)(packetId \<mapsto> new_accumulator)\<rparr>
                   else s)
          in rbind (appendBytes (getPayload bytes) (getPayloadLength bytes) (getPacketNumber bytes)
                     (accumulator_at (m_bytesAccumulatorMap s) packetId)) (\<lambda>(success, a).
             let s = s\<lparr>m_bytesAccumulatorMap := (m_bytesAccumulatorMap s)(packetId \<mapsto> a)\<rparr> in
             if \<not> success then Inr (s, [Log Error ''A packet was skipped.'' []])
             else if isLastPacket bytes then
               let a = accumulator_at (m_bytesAccumulatorMap s) packetId in
               Inr (s\<lparr>m_bytesAccumulatorMap := (m_bytesAccumulatorMap s)(packetId := None)\<rparr>,
                    [BytesReceived callback (getBytes a) (word_of_nat (length (getBytes a)))])
             else Inr (s, [])))"

definition HostApiRequestHandler_handleMessage ::
  "MessageDTO \<Rightarrow> host_api_request \<Rightarrow> HiveMindHostApiRequestHandler \<Rightarrow>
    (HiveMindHostApiRequestHandler \<times> event list) result" where
  "HostApiRequestHandler_handleMessage message hmRequest s =
     (case hmRequest of
        BytesRequest bytes \<Rightarrow> handleBytes message bytes s
      | _ \<Rightarrow> Inr (s, [Log Warn ''Unsupported HiveMindHostApi request.'' []]))"

interpretation bytes_slot: callback_slot onBytesReceived m_bytesReceivedCallback
  by unfold_locales (auto simp: onBytesReceived_def Let_def)


subsection \<open>The effect of one packet\<close>

definition wf_bytes :: "BytesDTO \<Rightarrow> bool" where
  "wf_bytes b \<longleftrightarrow> unat (getPayloadLength b) \<le> length (getPayload b)"

definition payload_of :: "BytesDTO \<Rightarrow> u8 list" where
  "payload_of b = take (unat (getPayloadLength b)) (getPayload b)"

text \<open>
  The specification of one transfer: its accumulator, or \<open>None\<close> when there is none yet, and the
  payload the packet completes, if it completes one.
\<close>

definition transfer_step ::
  "BytesDTO \<Rightarrow> BytesAccumulator option \<Rightarrow> BytesAccumulator option \<times> u8 list option" where
  "transfer_step b t =
     (let a = (case t of Some a \<Rightarrow> a | None \<Rightarrow> new_accumulator);
          bs = m_bytes a @ payload_of b
      in if getPacketNumber b \<noteq> m_lastPacketNumber a + 1 then (Some a, None)
         else if isLastPacket b then (None, Some bs)
         else (Some \<lparr>m_bytes = bs, m_lastPacketNumber = getPacketNumber b\<rparr>, None))"

definition accepted :: "BytesDTO \<Rightarrow> BytesAccumulator option \<Rightarrow> bool" where
  "accepted b t \<longleftrightarrow>
     getPacketNumber b = m_lastPacketNumber (case t of Some a \<Rightarrow> a | None \<Rightarrow> new_accumulator) + 1"

definition packet_events :: "hook \<Rightarrow> BytesDTO \<Rightarrow> BytesAccumulator option \<Rightarrow> event list" where
  "packet_events h b t =
     (case snd (transfer_step b t) of
        Some bs \<Rightarrow> [BytesReceived h bs (word_of_nat (length bs))]
      | None \<Rightarrow> if accepted b t then [] else [Log Error ''A packet was skipped.'' []])"

text \<open>The handler implements the specification of the packet's own transfer and touches no other.\<close>

lemma handleBytes_eq:
  assumes "m_bytesReceivedCallback s = Some h" "wf_bytes b"
  shows "handleBytes m b s =
    Inr (s\<lparr>m_bytesAccumulatorMap := (m_bytesAccumulatorMap s)
             (getPacketId b := fst (transfer_step b (m_bytesAccumulatorMap s (getPacketId b))))\<rparr>,
         packet_events h b (m_bytesAccumulatorMap s (getPacketId b)))"
proof (cases "m_bytesAccumulatorMap s (getPacketId b)")
  case None
  then show ?thesis
    using assms
    by (simp add: handleBytes_def Let_def wf_bytes_def appendBytes_eq accumulator_at_def
        transfer_step_def packet_events_def accepted_def getBytes_def payload_of_def)
next
  case (Some a)
  then show ?thesis
    using assms
    by (simp add: handleBytes_def Let_def wf_bytes_def appendBytes_eq accumulator_at_def
        transfer_step_def packet_events_def accepted_def getBytes_def payload_of_def)
qed

lemma handleBytes_no_callback:
  "m_bytesReceivedCallback s = None \<Longrightarrow>
   handleBytes m b s = Inr (s, [Log Warn ''No callback was defined to handle incoming bytes.'' []])"
  by (simp add: handleBytes_def)

lemma handleBytes_ok: "wf_bytes b \<Longrightarrow> ok (handleBytes m b s)"
  by (cases "m_bytesReceivedCallback s") (simp_all add: handleBytes_no_callback handleBytes_eq)

lemma handleBytes_callback:
  assumes "handleBytes m b s = Inr (s', es)"
  shows "m_bytesReceivedCallback s' = m_bytesReceivedCallback s"
  using assms
  by (auto simp: handleBytes_def Let_def rbind_eq_Inr split: option.splits if_splits)


subsection \<open>Sequences of packets\<close>

text \<open>
  A sequence of packets handed to the handler one by one, with the events of each packet under its
  packet id; and the same for the packets of one transfer by its specification.
\<close>

fun receive_all ::
  "MessageDTO \<Rightarrow> BytesDTO list \<Rightarrow> HiveMindHostApiRequestHandler \<Rightarrow>
    (HiveMindHostApiRequestHandler \<times> (u32 \<times> event list) list) result" where
  "receive_all m [] s = Inr (s, [])"
| "receive_all m (b # bs) s =
     rbind (handleBytes m b s) (\<lambda>(s, es).
       rbind (receive_all m bs s) (\<lambda>(s, tr). Inr (s, (getPacketId b, es) # tr)))"

fun transfer_run ::
  "hook \<Rightarrow> BytesDTO list \<Rightarrow> BytesAccumulator option \<Rightarrow> BytesAccumulator option \<times> event list list" where
  "transfer_run h [] t = (t, [])"
| "transfer_run h (b # bs) t =
     (let (t', ess) = transfer_run h bs (fst (transfer_step b t)) in (t', packet_events h b t # ess))"

lemma transfer_run_append:
  "transfer_run h (bs @ bs') t =
     (fst (transfer_run h bs' (fst (transfer_run h bs t))),
      snd (transfer_run h bs t) @ snd (transfer_run h bs' (fst (transfer_run h bs t))))"
  by (induction bs arbitrary: t) (auto simp: Let_def case_prod_unfold)

definition events_of :: "u32 \<Rightarrow> (u32 \<times> event list) list \<Rightarrow> event list list" where
  "events_of k tr = map snd (filter (\<lambda>e. fst e = k) tr)"

definition packets_of :: "u32 \<Rightarrow> BytesDTO list \<Rightarrow> BytesDTO list" where
  "packets_of k bs = filter (\<lambda>b. getPacketId b = k) bs"

lemma receive_all_refines:
  assumes "m_bytesReceivedCallback s = Some h" "\<forall>b \<in> set bs. wf_bytes b"
  shows "\<exists>s' tr. receive_all m bs s = Inr (s', tr) \<and> m_bytesReceivedCallback s' = Some h \<and>
    (\<forall>k. m_bytesAccumulatorMap s' k =
           fst (transfer_run h (packets_of k bs) (m_bytesAccumulatorMap s k)) \<and>
         events_of k tr = snd (transfer_run h (packets_of k bs) (m_bytesAccumulatorMap s k)))"
  using assms
proof (induction bs arbitrary: s)
  case Nil
  then show ?case by (simp add: packets_of_def events_of_def)
next
  case (Cons b bs)
  let ?k = "getPacketId b"
  let ?t = "m_bytesAccumulatorMap s ?k"
  let ?s = "s\<lparr>m_bytesAccumulatorMap := (m_bytesAccumulatorMap s)(?k := fst (transfer_step b ?t))\<rparr>"
  have step: "handleBytes m b s = Inr (?s, packet_events h b ?t)"
    using Cons.prems by (simp add: handleBytes_eq)
  obtain s' tr where run: "receive_all m bs ?s = Inr (s', tr)" "m_bytesReceivedCallback s' = Some h"
    and acc: "\<And>k. m_bytesAccumulatorMap s' k =
           fst (transfer_run h (packets_of k bs) (m_bytesAccumulatorMap ?s k))"
    and evs: "\<And>k. events_of k tr = snd (transfer_run h (packets_of k bs) (m_bytesAccumulatorMap ?s k))"
    using Cons.IH [of ?s] Cons.prems by auto
  have "receive_all m (b # bs) s = Inr (s', (?k, packet_events h b ?t) # tr)"
    using step run by simp
  moreover have "m_bytesAccumulatorMap s' k =
           fst (transfer_run h (packets_of k (b # bs)) (m_bytesAccumulatorMap s k)) \<and>
         events_of k ((?k, packet_events h b ?t) # tr) =
           snd (transfer_run h (packets_of k (b # bs)) (m_bytesAccumulatorMap s k))" for k
    using acc [of k] evs [of k]
    by (cases "k = ?k") (auto simp: packets_of_def events_of_def Let_def case_prod_unfold)
  ultimately show ?case using run(2) by blast
qed


subsection \<open>Complete, truncated and repeated streams\<close>

text \<open>The packets of one payload from number \<open>i\<close> on: consecutive numbers, the last one marked.\<close>

fun stream_from :: "nat \<Rightarrow> BytesDTO list \<Rightarrow> bool" where
  "stream_from i [] = False"
| "stream_from i (b # bs) =
     (getPacketNumber b = word_of_nat i \<and>
      (if bs = [] then isLastPacket b else \<not> isLastPacket b \<and> stream_from (Suc i) bs))"

fun deliveries :: "event list \<Rightarrow> u8 list list" where
  "deliveries [] = []"
| "deliveries (BytesReceived h bs n # es) = bs # deliveries es"
| "deliveries (_ # es) = deliveries es"

lemma deliveries_append [simp]: "deliveries (es @ es') = deliveries es @ deliveries es'"
  by (induction es rule: deliveries.induct) auto

definition stream_payload :: "BytesDTO list \<Rightarrow> u8 list" where
  "stream_payload bs = concat (map payload_of bs)"

text \<open>\<open>t\<close> has accepted the packets before number \<open>i\<close>, which carried \<open>bytes\<close>.\<close>

definition at_packet :: "BytesAccumulator option \<Rightarrow> nat \<Rightarrow> u8 list \<Rightarrow> bool" where
  "at_packet t i bytes \<longleftrightarrow>
     (case t of Some a \<Rightarrow> a | None \<Rightarrow> new_accumulator) =
       \<lparr>m_bytes = bytes, m_lastPacketNumber = word_of_nat i - 1\<rparr>"

lemma at_packet_None [simp]: "at_packet None 0 []"
  by (simp add: at_packet_def new_accumulator_def)

lemma at_packet_step:
  assumes "at_packet t i bytes" "getPacketNumber b = word_of_nat i"
  shows "transfer_step b t =
      (if isLastPacket b then (None, Some (bytes @ payload_of b))
       else (Some \<lparr>m_bytes = bytes @ payload_of b, m_lastPacketNumber = word_of_nat i\<rparr>, None))"
    and "accepted b t"
  using assms by (auto simp: at_packet_def transfer_step_def accepted_def Let_def)

lemma at_packet_reject:
  assumes "at_packet t i bytes" "getPacketNumber b \<noteq> word_of_nat i"
  shows "at_packet (fst (transfer_step b t)) i bytes"
    and "packet_events h b t = [Log Error ''A packet was skipped.'' []]"
  using assms by (auto simp: at_packet_def transfer_step_def packet_events_def accepted_def Let_def)

lemma at_packet_reject_all:
  assumes "at_packet t i bytes" "\<forall>b \<in> set bs. getPacketNumber b \<noteq> word_of_nat i"
  shows "at_packet (fst (transfer_run h bs t)) i bytes \<and>
    deliveries (concat (snd (transfer_run h bs t))) = []"
  using assms
proof (induction bs arbitrary: t)
  case Nil
  then show ?case by simp
next
  case (Cons b bs)
  then have "at_packet (fst (transfer_step b t)) i bytes"
    and ev: "packet_events h b t = [Log Error ''A packet was skipped.'' []]"
    by (auto simp: at_packet_reject)
  then have "at_packet (fst (transfer_run h bs (fst (transfer_step b t)))) i bytes \<and>
    deliveries (concat (snd (transfer_run h bs (fst (transfer_step b t))))) = []"
    using Cons by simp
  then show ?case using ev by (simp add: Let_def case_prod_unfold)
qed

lemma stream_run:
  assumes "stream_from i bs" "at_packet t i bytes"
  shows "transfer_run h bs t =
    (None, replicate (length bs - 1) [] @
      [[BytesReceived h (bytes @ stream_payload bs)
          (word_of_nat (length (bytes @ stream_payload bs)))]])"
  using assms
proof (induction bs arbitrary: i t bytes)
  case Nil
  then show ?case by simp
next
  case (Cons b bs)
  have n: "getPacketNumber b = word_of_nat i" using Cons.prems by simp
  note step = at_packet_step [OF Cons.prems(2) n]
  show ?case
  proof (cases "bs = []")
    case True
    then show ?thesis
      using Cons.prems step by (simp add: packet_events_def stream_payload_def)
  next
    case False
    let ?t = "Some \<lparr>m_bytes = bytes @ payload_of b, m_lastPacketNumber = word_of_nat i\<rparr>"
    have "at_packet ?t (Suc i) (bytes @ payload_of b)" by (simp add: at_packet_def)
    then have "transfer_run h bs ?t = (None, replicate (length bs - 1) [] @
      [[BytesReceived h ((bytes @ payload_of b) @ stream_payload bs)
          (word_of_nat (length ((bytes @ payload_of b) @ stream_payload bs)))]])"
      using Cons.IH Cons.prems(1) False by auto
    then show ?thesis
      using False Cons.prems(1) step
      by (cases bs) (simp_all add: packet_events_def stream_payload_def)
  qed
qed


lemma stream_number: "stream_from i bs \<Longrightarrow> p < length bs \<Longrightarrow> getPacketNumber (bs ! p) = word_of_nat (i + p)"
proof (induction bs arbitrary: i p)
  case Nil
  then show ?case by simp
next
  case (Cons b bs)
  show ?case
  proof (cases p)
    case 0
    then show ?thesis using Cons.prems by simp
  next
    case (Suc q)
    then have "stream_from (Suc i) bs" "q < length bs"
      using Cons.prems by (auto split: if_splits)
    from Cons.IH [OF this] show ?thesis
      unfolding Suc by (simp del: of_nat_add)
  qed
qed

lemma stream_drop: "stream_from i bs \<Longrightarrow> p < length bs \<Longrightarrow> stream_from (i + p) (drop p bs)"
proof (induction bs arbitrary: i p)
  case Nil
  then show ?case by simp
next
  case (Cons b bs)
  show ?case
  proof (cases p)
    case 0
    then show ?thesis using Cons.prems by simp
  next
    case (Suc q)
    then have "stream_from (Suc i) bs" "q < length bs"
      using Cons.prems by (auto split: if_splits)
    from Cons.IH [OF this] show ?thesis
      unfolding Suc by simp
  qed
qed

lemma u32_of_nat_inject:
  "i < 4294967296 \<Longrightarrow> j < 4294967296 \<Longrightarrow> (word_of_nat i :: u32) = word_of_nat j \<longleftrightarrow> i = j"
  by (metis u32_of_nat)

text \<open>A packet of the stream at another position has another number, below \<open>2 ^ 32\<close> packets.\<close>

lemma stream_number_neq:
  assumes "stream_from i bs" "i + length bs \<le> 4294967296" "p < length bs"
    "j < i + length bs" "j \<noteq> i + p"
  shows "getPacketNumber (bs ! p) \<noteq> word_of_nat j"
  using assms by (simp add: stream_number u32_of_nat_inject del: of_nat_add)

lemma stream_resume:
  assumes st: "stream_from i bs" and ij: "i \<le> j" "j < i + length bs"
    and bound: "i + length bs \<le> 4294967296" and at: "at_packet t j bytes"
  shows "fst (transfer_run h bs t) = None \<and>
    deliveries (concat (snd (transfer_run h bs t))) = [bytes @ stream_payload (drop (j - i) bs)]"
proof -
  let ?old = "take (j - i) bs" and ?new = "drop (j - i) bs"
  have "\<forall>b \<in> set ?old. getPacketNumber b \<noteq> word_of_nat j"
    using stream_number_neq [OF st bound] ij by (fastforce simp: in_set_conv_nth)
  from at_packet_reject_all [OF at this]
  have old: "at_packet (fst (transfer_run h ?old t)) j bytes"
    "deliveries (concat (snd (transfer_run h ?old t))) = []"
    by blast+
  have "stream_from j ?new"
    using stream_drop [OF st, of "j - i"] ij by simp
  note new = stream_run [OF this old(1), of h]
  have "transfer_run h bs t = transfer_run h (?old @ ?new) t" by simp
  then show ?thesis
    unfolding transfer_run_append using old(2) new by (auto simp: concat_replicate_trivial)
qed

lemma subseq_set: "subseq xs ys \<Longrightarrow> x \<in> set xs \<Longrightarrow> x \<in> set ys"
  by (auto elim: list_emb_set)

text \<open>Losing packets: what is left of a stream either is the stream or delivers nothing.\<close>

lemma stream_lossy:
  assumes "stream_from i bs" "subseq bs' bs" "bs' \<noteq> bs" "i + length bs \<le> 4294967296"
    "at_packet t i bytes"
  shows "deliveries (concat (snd (transfer_run h bs' t))) = [] \<and>
    (\<exists>j. i \<le> j \<and> j < i + length bs \<and>
       at_packet (fst (transfer_run h bs' t)) j (bytes @ stream_payload (take (j - i) bs)))"
  using assms
proof (induction bs arbitrary: i bs' t bytes)
  case Nil
  then show ?case by simp
next
  case (Cons b bs)
  have nums: "getPacketNumber c \<noteq> word_of_nat i" if "c \<in> set bs" for c
  proof -
    from that obtain p where p: "p < length bs" "bs ! p = c"
      by (auto simp: in_set_conv_nth)
    then show ?thesis
      using stream_number_neq [OF Cons.prems(1,4), of "Suc p" i] by simp
  qed
  show ?case
  proof (cases "subseq bs' bs")
    case True
    then have "\<forall>c \<in> set bs'. getPacketNumber c \<noteq> word_of_nat i"
      using nums by (meson subseq_set)
    from at_packet_reject_all [OF Cons.prems(5) this] show ?thesis
      by (auto intro!: exI [of _ i] simp: stream_payload_def)
  next
    case False
    with Cons.prems(2) obtain r where bs': "bs' = b # r" and r: "subseq r bs"
      by (auto elim: list_emb.cases)
    with Cons.prems(3) have "r \<noteq> bs" and nonempty: "bs \<noteq> []" by auto
    have b: "getPacketNumber b = word_of_nat i" "\<not> isLastPacket b" "stream_from (Suc i) bs"
      using Cons.prems(1) nonempty by auto
    note step = at_packet_step [OF Cons.prems(5) b(1)]
    let ?t = "Some \<lparr>m_bytes = bytes @ payload_of b, m_lastPacketNumber = word_of_nat i\<rparr>"
    have "at_packet ?t (Suc i) (bytes @ payload_of b)" by (simp add: at_packet_def)
    from Cons.IH [OF b(3) r \<open>r \<noteq> bs\<close> _ this] Cons.prems(4)
    obtain j where ih: "deliveries (concat (snd (transfer_run h r ?t))) = []"
      "Suc i \<le> j" "j < Suc i + length bs"
      "at_packet (fst (transfer_run h r ?t)) j ((bytes @ payload_of b) @ stream_payload (take (j - Suc i) bs))"
      by auto
    moreover have "payload_of b @ stream_payload (take (j - Suc i) bs) =
        stream_payload (take (j - i) (b # bs))"
      using ih(2) by (simp add: stream_payload_def take_Cons' Suc_diff_le)
    ultimately show ?thesis
      using step b(2) bs' by (auto simp: Let_def case_prod_unfold packet_events_def intro!: exI [of _ j])
  qed
qed


subsection \<open>Properties of the receiver\<close>

lemma stream_delivered:
  assumes "m_bytesReceivedCallback s = Some h" "\<forall>b \<in> set bs. wf_bytes b"
    and "stream_from 0 (packets_of k bs)" "m_bytesAccumulatorMap s k = None"
  shows "\<exists>s' tr. receive_all m bs s = Inr (s', tr) \<and> m_bytesAccumulatorMap s' k = None \<and>
    events_of k tr = replicate (length (packets_of k bs) - 1) [] @
      [[BytesReceived h (stream_payload (packets_of k bs))
          (word_of_nat (length (stream_payload (packets_of k bs))))]]"
proof -
  obtain s' tr where "receive_all m bs s = Inr (s', tr)"
    and "\<forall>k. m_bytesAccumulatorMap s' k =
           fst (transfer_run h (packets_of k bs) (m_bytesAccumulatorMap s k)) \<and>
         events_of k tr = snd (transfer_run h (packets_of k bs) (m_bytesAccumulatorMap s k))"
    using receive_all_refines [OF assms(1,2), of m] by blast
  moreover have "transfer_run h (packets_of k bs) None =
      (None, replicate (length (packets_of k bs) - 1) [] @
        [[BytesReceived h (stream_payload (packets_of k bs))
            (word_of_nat (length (stream_payload (packets_of k bs))))]])"
    using stream_run [OF assms(3) at_packet_None] by simp
  ultimately show ?thesis using assms(4) by auto
qed

text \<open>
  C15. Whatever packets of other payloads arrive in between, the complete and ordered packets of one
  payload make the handler call the callback exactly once, after the last of them, with the
  concatenation of the packets' bytes, and leave no accumulator behind.
\<close>

theorem interleaved_stream_delivered:
  assumes "m_bytesReceivedCallback s = Some h" "\<forall>b \<in> set bs. wf_bytes b"
    and "stream_from 0 (packets_of k bs)" "m_bytesAccumulatorMap s k = None"
  shows "\<exists>s' tr. receive_all m bs s = Inr (s', tr) \<and> m_bytesAccumulatorMap s' k = None \<and>
    events_of k tr = replicate (length (packets_of k bs) - 1) [] @
      [[BytesReceived h (stream_payload (packets_of k bs))
          (word_of_nat (length (stream_payload (packets_of k bs))))]]"
  by (rule stream_delivered [OF assms])

text \<open>
  C24. A payload some of whose packets are lost is never delivered, in part or whole: the callback
  is called, once and with the whole payload, exactly when all packets arrive.
\<close>

theorem lossy_stream_all_or_nothing:
  assumes "m_bytesReceivedCallback s = Some h" "\<forall>b \<in> set bs. wf_bytes b \<and> getPacketId b = k"
    and "stream_from 0 bs" "length bs \<le> 4294967296" "subseq received bs"
    and "m_bytesAccumulatorMap s k = None"
  shows "\<exists>s' tr. receive_all m received s = Inr (s', tr) \<and>
    deliveries (concat (events_of k tr)) = (if received = bs then [stream_payload bs] else [])"
proof -
  have "\<forall>b \<in> set received. wf_bytes b \<and> getPacketId b = k"
    using assms(2,5) by (meson subseq_set)
  then have wf: "\<forall>b \<in> set received. wf_bytes b" and own: "packets_of k received = received"
    by (simp_all add: packets_of_def filter_id_conv)
  from receive_all_refines [OF assms(1) wf, of m] obtain s' tr
    where run: "receive_all m received s = Inr (s', tr)"
      and ev: "events_of k tr = snd (transfer_run h received None)"
    using own assms(6) by metis
  have "deliveries (concat (snd (transfer_run h received None))) =
      (if received = bs then [stream_payload bs] else [])"
  proof (cases "received = bs")
    case True
    then show ?thesis
      using stream_run [OF assms(3) at_packet_None] by (simp add: concat_replicate_trivial)
  next
    case False
    then show ?thesis
      using stream_lossy [OF assms(3,5) False _ at_packet_None, of h] assms(4) by simp
  qed
  then show ?thesis using run ev by auto
qed

text \<open>
  Packets lost on a first attempt do not block the payload: when the sender repeats all packets
  under the same packet id, the payload is delivered once by the repetition, the accumulator of
  the first attempt being continued at the first missing packet.
\<close>

theorem retransmission_delivers:
  assumes "m_bytesReceivedCallback s = Some h" "\<forall>b \<in> set bs. wf_bytes b \<and> getPacketId b = k"
    and "stream_from 0 bs" "length bs \<le> 4294967296" "subseq received bs" "received \<noteq> bs"
    and "m_bytesAccumulatorMap s k = None"
  shows "\<exists>s' tr. receive_all m (received @ bs) s = Inr (s', tr) \<and>
    m_bytesAccumulatorMap s' k = None \<and>
    deliveries (concat (events_of k tr)) = [stream_payload bs]"
proof -
  let ?all = "received @ bs"
  have "\<forall>b \<in> set ?all. wf_bytes b \<and> getPacketId b = k"
    using assms(2,5) by (auto dest: subseq_set)
  then have wf: "\<forall>b \<in> set ?all. wf_bytes b" and own: "packets_of k ?all = ?all"
    by (simp_all only: packets_of_def filter_id_conv) blast+
  from receive_all_refines [OF assms(1) wf, of m] obtain s' tr
    where run: "receive_all m ?all s = Inr (s', tr)"
      and acc: "m_bytesAccumulatorMap s' k = fst (transfer_run h ?all None)"
      and ev: "events_of k tr = snd (transfer_run h ?all None)"
    using own assms(7) by metis
  obtain j where j: "deliveries (concat (snd (transfer_run h received None))) = []"
    "j < length bs" "at_packet (fst (transfer_run h received None)) j (stream_payload (take j bs))"
    using stream_lossy [OF assms(3,5,6) _ at_packet_None, of h] assms(4) by auto
  have "fst (transfer_run h bs (fst (transfer_run h received None))) = None \<and>
    deliveries (concat (snd (transfer_run h bs (fst (transfer_run h received None))))) =
      [stream_payload (take j bs) @ stream_payload (drop j bs)]"
    using stream_resume [OF assms(3) _ _ _ j(3), of h] j(2) assms(4) by simp
  moreover have "stream_payload (take j bs) @ stream_payload (drop j bs) = stream_payload bs"
    by (metis append_take_drop_id concat_append map_append stream_payload_def)
  ultimately show ?thesis
    using run acc ev j(1) by (auto simp: transfer_run_append)
qed


subsection \<open>A concrete transfer\<close>

text \<open>Two packets of the payload 7, and one of the payload 8 between them.\<close>

definition sample_stream :: "BytesDTO list" where
  "sample_stream =
     [\<lparr>getPacketId = 7, getPacketNumber = 0, isLastPacket = False, getPayload = [1, 2], getPayloadLength = 2\<rparr>,
      \<lparr>getPacketId = 7, getPacketNumber = 1, isLastPacket = True, getPayload = [3, 0], getPayloadLength = 1\<rparr>]"

definition sample_stranger :: BytesDTO where
  "sample_stranger =
     \<lparr>getPacketId = 8, getPacketNumber = 0, isLastPacket = False, getPayload = [9], getPayloadLength = 1\<rparr>"

definition sample_receiver :: HiveMindHostApiRequestHandler where
  "sample_receiver = snd (onBytesReceived (Some 5) new_request_handler)"

definition sample_message :: MessageDTO where
  "sample_message = \<lparr>getSourceId = 1, getDestinationId = 2, getMessage = OtherMessage 0\<rparr>"

lemma sample_receiver_simps [simp]:
  "m_bytesReceivedCallback sample_receiver = Some 5" "m_bytesAccumulatorMap sample_receiver k = None"
  by (simp_all add: sample_receiver_def onBytesReceived_def new_request_handler_def)

lemma sample_stream_simps:
  "\<forall>b \<in> set sample_stream. wf_bytes b \<and> getPacketId b = 7" "stream_from 0 sample_stream"
  "stream_payload sample_stream = [1, 2, 3]" "length sample_stream = 2"
  "wf_bytes sample_stranger" "getPacketId sample_stranger = 8"
  by (simp_all add: sample_stream_def sample_stranger_def wf_bytes_def stream_payload_def payload_of_def)

theorem interleaved_stream_delivered_witness:
  "\<exists>s' tr. receive_all sample_message [sample_stream ! 0, sample_stranger, sample_stream ! 1] sample_receiver
      = Inr (s', tr) \<and>
    m_bytesAccumulatorMap s' 7 = None \<and> events_of 7 tr = [[], [BytesReceived 5 [1, 2, 3] 3]]"
proof -
  let ?bs = "[sample_stream ! 0, sample_stranger, sample_stream ! 1]"
  have own: "packets_of 7 ?bs = sample_stream"
    by (simp add: packets_of_def sample_stream_def sample_stranger_def)
  have "\<forall>b \<in> set ?bs. wf_bytes b"
    by (simp add: sample_stream_def sample_stranger_def wf_bytes_def)
  moreover have "stream_from 0 sample_stream" by (rule sample_stream_simps)
  ultimately have "\<exists>s' tr. receive_all sample_message ?bs sample_receiver = Inr (s', tr) \<and>
      m_bytesAccumulatorMap s' 7 = None \<and>
      events_of 7 tr = replicate (length sample_stream - 1) [] @
        [[BytesReceived 5 (stream_payload sample_stream) (word_of_nat (length (stream_payload sample_stream)))]]"
    using interleaved_stream_delivered [of sample_receiver 5 ?bs 7 sample_message, unfolded own]
    by (simp del: receive_all.simps)
  then show ?thesis by (simp add: sample_stream_simps del: receive_all.simps)
qed

theorem lossy_stream_all_or_nothing_witness:
  "\<exists>s' tr. receive_all sample_message [sample_stream ! 1] sample_receiver = Inr (s', tr) \<and>
    deliveries (concat (events_of 7 tr)) = []"
proof -
  have "subseq [sample_stream ! 1] sample_stream" "[sample_stream ! 1] \<noteq> sample_stream"
    by (simp_all add: sample_stream_def)
  then show ?thesis
    using lossy_stream_all_or_nothing [OF sample_receiver_simps(1) sample_stream_simps(1,2) _ _
        sample_receiver_simps(2), of "[sample_stream ! 1]" sample_message]
    by (simp add: sample_stream_simps(4))
qed

theorem retransmission_delivers_witness:
  "\<exists>s' tr. receive_all sample_message ([sample_stream ! 0] @ sample_stream) sample_receiver = Inr (s', tr) \<and>
    m_bytesAccumulatorMap s' 7 = None \<and> deliveries (concat (events_of 7 tr)) = [[1, 2, 3]]"
proof -
  have "subseq [sample_stream ! 0] sample_stream" "[sample_stream ! 0] \<noteq> sample_stream"
    by (simp_all add: sample_stream_def)
  then show ?thesis
    using retransmission_delivers [OF sample_receiver_simps(1) sample_stream_simps(1,2) _ _ _
        sample_receiver_simps(2), of "[sample_stream ! 0]" sample_message]
    by (simp add: sample_stream_simps(3,4))
qed

end
