(* ===== verification/HostApiResponseHandler.thy ===== *)
theory HostApiResponseHandler imports Prelude Pheromones begin

section \<open>HiveMindHostApiResponseHandler\<close>

text \<open>
  The handler of the HiveMind's answers to the host's own requests: neighbor lists and neighbor
  positions, forwarded to one user callback each.
\<close>

record HiveMindHostApiResponseHandler =
  m_neighborListUpdateCallback :: "hook option"
  m_neighborUpdateCallback :: "hook option"

definition new_response_handler :: HiveMindHostApiResponseHandler where
  "new_response_handler =
     \<lparr>m_neighborListUpdateCallback = None, m_neighborUpdateCallback = None\<rparr>"

definition onNeighborListUpdated ::
  "hook option \<Rightarrow> HiveMindHostApiResponseHandler \<Rightarrow> bool \<times> HiveMindHostApiResponseHandler" where
  "onNeighborListUpdated callback s =
     (let retVal = m_neighborListUpdateCallback s \<noteq> None
      in (retVal, s\<lparr>m_neighborListUpdateCallback := callback\<rparr>))"

definition onNeighborUpdated ::
  "hook option \<Rightarrow> HiveMindHostApiResponseHandler \<Rightarrow> bool \<times> HiveMindHostApiResponseHandler" where
  "onNeighborUpdated callback s =
     (let retVal = m_neighborUpdateCallback s \<noteq> None
      in (retVal, s\<lparr>m_neighborUpdateCallback := callback\<rparr>))"

definition handleNeighborList ::
  "MessageDTO \<Rightarrow> GetNeighborsListResponseDTO \<Rightarrow> HiveMindHostApiResponseHandler \<Rightarrow> event list" where
  "handleNeighborList message nlist s =
     (case m_neighborListUpdateCallback s of
        None \<Rightarrow> [Log Warn ''No callback was defined to handle incoming GetNeighborsListResponse.'' []]
      | Some callback \<Rightarrow>
          [NeighborListUpdated callback (getNeighbors nlist) (getNeighborsLength nlist)])"

definition handleNeighbor ::
  "MessageDTO \<Rightarrow> GetNeighborResponseDTO \<Rightarrow> HiveMindHostApiResponseHandler \<Rightarrow> event list" where
  "handleNeighbor message neighbor s =
     (case m_neighborUpdateCallback s of
        None \<Rightarrow> [Log Warn ''No callback was defined to handle incoming GetNeighborResponse.'' []]
      | Some callback \<Rightarrow>
          (case getNeighborPosition neighbor of
             Some p \<Rightarrow>
               (let pos = \<lparr>distance = getDistance p, azimuth = getAzimuth p, inLOS = inLOSDTO p\<rparr>
                in [NeighborUpdated callback (getNeighborId neighbor) (Some pos)])
           | None \<Rightarrow> [NeighborUpdated callback (getNeighborId neighbor) None]))"

definition HostApiResponseHandler_handleMessage ::
  "MessageDTO \<Rightarrow> host_api_response \<Rightarrow> HiveMindHostApiResponseHandler \<Rightarrow> event list" where
  "HostApiResponseHandler_handleMessage message hmResponse s =
     (case hmResponse of
        NeighborsListResponse neighborList \<Rightarrow> handleNeighborList message neighborList s
      | NeighborResponse neighbor \<Rightarrow> handleNeighbor message neighbor s
      | OtherHostApiResponse \<Rightarrow> [Log Warn ''Unsupported HiveMindHostApi response.'' []])"

interpretation neighbor_list_slot: callback_slot onNeighborListUpdated m_neighborListUpdateCallback
  by unfold_locales (auto simp: onNeighborListUpdated_def Let_def)

interpretation neighbor_slot: callback_slot onNeighborUpdated m_neighborUpdateCallback
  by unfold_locales (auto simp: onNeighborUpdated_def Let_def)

lemma HostApiResponseHandler_not_serialized [simp]:
  "serialized (HostApiResponseHandler_handleMessage msg r s) = []"
  by (simp add: HostApiResponseHandler_handleMessage_def handleNeighborList_def handleNeighbor_def
      Let_def split: host_api_response.split option.split)

text \<open>
  A neighbor update reaches the callback registered last with the neighbor's id and its
  position unchanged, or with no position when the HiveMind sent none, whatever callbacks were
  registered before and whatever is registered for neighbor lists.
\<close>

theorem neighbor_update_forwarded:
  "HostApiResponseHandler_handleMessage msg (NeighborResponse \<lparr>getNeighborId = n, getNeighborPosition = p\<rparr>)
     (snd (onNeighborListUpdated g (snd (onNeighborUpdated (Some h) s)))) =
   [NeighborUpdated h n
      (map_option (\<lambda>p. \<lparr>distance = getDistance p, azimuth = getAzimuth p, inLOS = inLOSDTO p\<rparr>) p)]"
  by (simp add: HostApiResponseHandler_handleMessage_def handleNeighbor_def onNeighborListUpdated_def
      onNeighborUpdated_def Let_def split: option.split)

end
