(* ===== verification/Handles.thy ===== *)
theory Handles imports Prelude Pheromones begin

section \<open>Request and response handles\<close>

text \<open>
  \<open>InboundRequestHandle\<close>, \<open>InboundResponseHandle\<close> and \<open>OutboundRequestHandle\<close>: what the bridge
  keeps about a request it serves, a response it received and a message it has to send. Members
  without an initialiser are \<open>None\<close> until their setter runs, and reading them before is a fault.
  A \<open>shared_future\<close> is the number of the asynchronous call it belongs to, \<open>None\<close> when invalid.
\<close>

subsection \<open>Inbound requests\<close>

record InboundRequestHandle =
  m_callbackName :: string
  m_responseMessage :: MessageDTO
  m_callbackReturnContext :: "nat option"
  m_msgSourceId :: "u32 option"
  m_msgDestinationId :: "u32 option"
  m_sourceModule :: "UserCallTargetDTO option"

definition new_InboundRequestHandle :: "pheromones \<Rightarrow> InboundRequestHandle" where
  "new_InboundRequestHandle ph = \<lparr>m_callbackName = [], m_responseMessage = default_MessageDTO ph,
     m_callbackReturnContext = None, m_msgSourceId = None, m_msgDestinationId = None,
     m_sourceModule = None\<rparr>"

definition setRequestResponse :: "MessageDTO \<Rightarrow> InboundRequestHandle \<Rightarrow> InboundRequestHandle" where
  "setRequestResponse message h = h\<lparr>m_responseMessage := message\<rparr>"

definition setCallbackReturnContext :: "nat \<Rightarrow> InboundRequestHandle \<Rightarrow> InboundRequestHandle" where
  "setCallbackReturnContext fut h = h\<lparr>m_callbackReturnContext := Some fut\<rparr>"

definition getRequestResponse :: "InboundRequestHandle \<Rightarrow> MessageDTO" where
  "getRequestResponse h = m_responseMessage h"

definition getCallbackReturnContext :: "InboundRequestHandle \<Rightarrow> nat option" where
  "getCallbackReturnContext h = m_callbackReturnContext h"

definition setCallbackName :: "string \<Rightarrow> InboundRequestHandle \<Rightarrow> InboundRequestHandle" where
  "setCallbackName name h = h\<lparr>m_callbackName := name\<rparr>"

definition setMessageSourceId :: "u32 \<Rightarrow> InboundRequestHandle \<Rightarrow> InboundRequestHandle" where
  "setMessageSourceId i h = h\<lparr>m_msgSourceId := Some i\<rparr>"

definition setMessageDestinationId :: "u32 \<Rightarrow> InboundRequestHandle \<Rightarrow> InboundRequestHandle" where
  "setMessageDestinationId i h = h\<lparr>m_msgDestinationId := Some i\<rparr>"

definition setSourceModule :: "UserCallTargetDTO \<Rightarrow> InboundRequestHandle \<Rightarrow> InboundRequestHandle" where
  "setSourceModule t h = h\<lparr>m_sourceModule := Some t\<rparr>"

definition getMessageSourceId :: "InboundRequestHandle \<Rightarrow> u32 result" where
  "getMessageSourceId h = read_member (m_msgSourceId h)"

definition getMessageDestinationId :: "InboundRequestHandle \<Rightarrow> u32 result" where
  "getMessageDestinationId h = read_member (m_msgDestinationId h)"

definition getSourceModule :: "InboundRequestHandle \<Rightarrow> UserCallTargetDTO result" where
  "getSourceModule h = read_member (m_sourceModule h)"

lemmas [bridge_defs] = new_InboundRequestHandle_def setRequestResponse_def
  setCallbackReturnContext_def getRequestResponse_def getCallbackReturnContext_def
  setCallbackName_def setMessageSourceId_def setMessageDestinationId_def setSourceModule_def
  getMessageSourceId_def getMessageDestinationId_def getSourceModule_def


subsection \<open>Inbound responses\<close>

record InboundResponseHandle =
  m_responseId :: u32
  m_responseStatus :: GenericResponseStatusDTO
  m_statusDetails :: string

definition mk_InboundResponseHandle ::
  "u32 \<Rightarrow> GenericResponseStatusDTO \<Rightarrow> string \<Rightarrow> InboundResponseHandle" where
  "mk_InboundResponseHandle i status details =
     \<lparr>m_responseId = i, m_responseStatus = status, m_statusDetails = details\<rparr>"

definition getResponseId :: "InboundResponseHandle \<Rightarrow> u32" where
  "getResponseId h = m_responseId h"

definition setResponseId :: "u32 \<Rightarrow> InboundResponseHandle \<Rightarrow> InboundResponseHandle" where
  "setResponseId i h = h\<lparr>m_responseId := i\<rparr>"

definition getResponseStatus :: "InboundResponseHandle \<Rightarrow> GenericResponseStatusDTO" where
  "getResponseStatus h = m_responseStatus h"

definition setResponseStatus ::
  "GenericResponseStatusDTO \<Rightarrow> InboundResponseHandle \<Rightarrow> InboundResponseHandle" where
  "setResponseStatus s h = h\<lparr>m_responseStatus := s\<rparr>"

definition getStatusDetails :: "InboundResponseHandle \<Rightarrow> string" where
  "getStatusDetails h = m_statusDetails h"

definition setStatusDetails :: "string \<Rightarrow> InboundResponseHandle \<Rightarrow> InboundResponseHandle" where
  "setStatusDetails d h = h\<lparr>m_statusDetails := d\<rparr>"

lemmas [bridge_defs] = mk_InboundResponseHandle_def getResponseId_def setResponseId_def
  getResponseStatus_def setResponseStatus_def getStatusDetails_def setStatusDetails_def


subsection \<open>Outbound messages\<close>

datatype OutboundRequestState = READY | SENT

text \<open>The enumerators of \<open>enum class OutboundRequestState\<close> compare in the order of declaration.\<close>

instantiation OutboundRequestState :: linorder
begin

definition less_eq_OutboundRequestState :: "OutboundRequestState \<Rightarrow> OutboundRequestState \<Rightarrow> bool" where
  "less_eq_OutboundRequestState a b \<longleftrightarrow> a = READY \<or> b = SENT"

definition less_OutboundRequestState :: "OutboundRequestState \<Rightarrow> OutboundRequestState \<Rightarrow> bool" where
  "less_OutboundRequestState a b \<longleftrightarrow> a = READY \<and> b = SENT"

instance
proof
  fix x y z :: OutboundRequestState
  show "x < y \<longleftrightarrow> x \<le> y \<and> \<not> y \<le> x"
    by (cases x; cases y) (simp_all add: less_eq_OutboundRequestState_def less_OutboundRequestState_def)
  show "x \<le> x" "x \<le> y \<Longrightarrow> y \<le> z \<Longrightarrow> x \<le> z" "x \<le> y \<Longrightarrow> y \<le> x \<Longrightarrow> x = y" "x \<le> y \<or> y \<le> x"
    by (cases x; cases y; cases z; simp add: less_eq_OutboundRequestState_def)+
qed

end

record OutboundRequestHandle =
  m_state :: OutboundRequestState
  m_message :: MessageDTO
  m_delaySinceSent :: int

definition mk_OutboundRequestHandle :: "MessageDTO \<Rightarrow> OutboundRequestHandle" where
  "mk_OutboundRequestHandle message =
     \<lparr>m_state = READY, m_message = message, m_delaySinceSent = 0\<rparr>"

definition getState :: "OutboundRequestHandle \<Rightarrow> OutboundRequestState" where
  "getState h = m_state h"

definition setState :: "OutboundRequestState \<Rightarrow> OutboundRequestHandle \<Rightarrow> OutboundRequestHandle" where
  "setState s h = h\<lparr>m_state := s\<rparr>"

definition getOutboundMessage :: "OutboundRequestHandle \<Rightarrow> MessageDTO" where
  "getOutboundMessage h = m_message h"

definition setOutboundMessage :: "MessageDTO \<Rightarrow> OutboundRequestHandle \<Rightarrow> OutboundRequestHandle" where
  "setOutboundMessage m h = h\<lparr>m_message := m\<rparr>"

definition bumpDelaySinceSent :: "int \<Rightarrow> OutboundRequestHandle \<Rightarrow> int \<times> OutboundRequestHandle" where
  "bumpDelaySinceSent bumpValue h =
     (let h = h\<lparr>m_delaySinceSent := m_delaySinceSent h + bumpValue\<rparr> in (m_delaySinceSent h, h))"

lemmas [bridge_defs] = mk_OutboundRequestHandle_def getState_def setState_def getOutboundMessage_def
  setOutboundMessage_def bumpDelaySinceSent_def


subsection \<open>The result of handling a message\<close>

text \<open>\<open>std::variant<std::monostate, InboundRequestHandle, InboundResponseHandle>\<close>.\<close>

datatype handled =
    NoHandle
  | HandledRequest InboundRequestHandle
  | HandledResponse InboundResponseHandle

end
