(* ===== verification/MessageUtils.thy ===== *)
theory MessageUtils imports Prelude Pheromones UserCallbackMap begin

section \<open>MessageUtils\<close>

text \<open>
  The functions that build complete messages. A wrapper DTO (\<open>MessageDTO\<close>, \<open>RequestDTO\<close>,
  \<open>ResponseDTO\<close>, \<open>UserCallRequestDTO\<close>, \<open>UserCallResponseDTO\<close>) is a record or constructor; the leaf
  DTOs whose constructors may clip are built by the functions of \<open>pheromones\<close>. \<open>rand()\<close> belongs to
  the C library: \<open>generateRandomId\<close> takes the number it returned.
\<close>

definition createResponseMessage ::
  "pheromones \<Rightarrow> u32 \<Rightarrow> u32 \<Rightarrow> u32 \<Rightarrow> UserCallTargetDTO \<Rightarrow> GenericResponseStatusDTO \<Rightarrow> string \<Rightarrow> MessageDTO"
where
  "createResponseMessage ph responseId msgSourceId msgDestinationId moduleDestination status ackMessage =
     (let functionCallResponse = mk_FunctionCallResponseDTO ph status (c_str ackMessage);
          userCallResponse = \<lparr>getResponseSource = HOST, getResponseDestination = moduleDestination,
            getUserCallResponse = FunctionCallResponse functionCallResponse\<rparr>;
          response = \<lparr>getResponseRequestId = responseId, getResponse = UserCallResponse userCallResponse\<rparr>
      in \<lparr>getSourceId = msgSourceId, getDestinationId = msgDestinationId,
          getMessage = Response response\<rparr>)"

definition createFunctionListLengthResponseMessage ::
  "u32 \<Rightarrow> u32 \<Rightarrow> u32 \<Rightarrow> UserCallTargetDTO \<Rightarrow> u32 \<Rightarrow> MessageDTO" where
  "createFunctionListLengthResponseMessage responseId msgSourceId msgDestinationId moduleDestination n =
     (let userCallResponse = \<lparr>getResponseSource = HOST, getResponseDestination = moduleDestination,
            getUserCallResponse = FunctionListLengthResponse n\<rparr>;
          response = \<lparr>getResponseRequestId = responseId, getResponse = UserCallResponse userCallResponse\<rparr>
      in \<lparr>getSourceId = msgSourceId, getDestinationId = msgDestinationId,
          getMessage = Response response\<rparr>)"

definition createFunctionDescriptionResponseMessage ::
  "u32 \<Rightarrow> u32 \<Rightarrow> u32 \<Rightarrow> UserCallTargetDTO \<Rightarrow> FunctionDescriptionDTO \<Rightarrow> MessageDTO" where
  "createFunctionDescriptionResponseMessage responseId msgSourceId msgDestinationId
       moduleDestination functionDescription =
     (let userCallResponse = \<lparr>getResponseSource = HOST, getResponseDestination = moduleDestination,
            getUserCallResponse = FunctionDescriptionResponse (Description functionDescription)\<rparr>;
          response = \<lparr>getResponseRequestId = responseId, getResponse = UserCallResponse userCallResponse\<rparr>
      in \<lparr>getSourceId = msgSourceId, getDestinationId = msgDestinationId,
          getMessage = Response response\<rparr>)"

definition createFunctionCallRequest ::
  "pheromones \<Rightarrow> u32 \<Rightarrow> u32 \<Rightarrow> u32 \<Rightarrow> UserCallTargetDTO \<Rightarrow> string \<Rightarrow> CallbackArgs \<Rightarrow> MessageDTO" where
  "createFunctionCallRequest ph msgSourceId msgDestinationId requestId moduleDestination callbackName args =
     (let functionCallRequest = mk_FunctionCallRequestDTO ph (c_str callbackName) args (length args);
          userCallRequest = \<lparr>getSource = HOST, getDestination = moduleDestination,
            getUserCallRequest = FunctionCallRequest functionCallRequest\<rparr>;
          requestDTO = \<lparr>getRequestId = requestId, getRequest = UserCallRequest userCallRequest\<rparr>
      in \<lparr>getSourceId = msgSourceId, getDestinationId = msgDestinationId,
          getMessage = Request requestDTO\<rparr>)"

text \<open>The overload without arguments passes \<open>nullptr\<close> and 0.\<close>

definition createFunctionCallRequest_noArgs ::
  "pheromones \<Rightarrow> u32 \<Rightarrow> u32 \<Rightarrow> u32 \<Rightarrow> UserCallTargetDTO \<Rightarrow> string \<Rightarrow> MessageDTO" where
  "createFunctionCallRequest_noArgs ph msgSourceId msgDestinationId requestId moduleDestination callbackName =
     (let functionCallRequest = mk_FunctionCallRequestDTO ph (c_str callbackName) [] 0;
          userCallRequest = \<lparr>getSource = HOST, getDestination = moduleDestination,
            getUserCallRequest = FunctionCallRequest functionCallRequest\<rparr>;
          requestDTO = \<lparr>getRequestId = requestId, getRequest = UserCallRequest userCallRequest\<rparr>
      in \<lparr>getSourceId = msgSourceId, getDestinationId = msgDestinationId,
          getMessage = Request requestDTO\<rparr>)"

text \<open>\<open>payload\<close> is the memory the pointer reaches.\<close>

definition createBytesMessage ::
  "pheromones \<Rightarrow> u32 \<Rightarrow> u32 \<Rightarrow> u32 \<Rightarrow> u32 \<Rightarrow> u32 \<Rightarrow> bool \<Rightarrow> u8 list \<Rightarrow> u16 \<Rightarrow> MessageDTO option" where
  "createBytesMessage ph msgSourceId msgDestinationId requestId byteReqId packetNumber lastPacket
       payload payloadLength =
     (if PAYLOAD_MAX_SIZE ph < unat payloadLength then None
      else
        let bytes = mk_BytesDTO ph byteReqId packetNumber lastPacket payload payloadLength;
            hmReq = BytesRequest bytes;
            req = \<lparr>getRequestId = requestId, getRequest = HostApiRequest hmReq\<rparr>
        in Some \<lparr>getSourceId = msgSourceId, getDestinationId = msgDestinationId,
                 getMessage = Request req\<rparr>)"

definition createGreetMessage :: MessageDTO where
  "createGreetMessage = \<lparr>getSourceId = 0, getDestinationId = 0, getMessage = Greeting 0\<rparr>"

definition generateRandomId :: "int \<Rightarrow> u32" where
  "generateRandomId rand = word_of_int rand mod 4294967295"

lemma generateRandomId_rand:
  assumes "0 \<le> rand" "rand \<le> 2147483647"
  shows "uint (generateRandomId rand) = rand"
  using assms by (simp add: generateRandomId_def uint_mod uint_word_of_int)

lemma createFunctionCallRequest_no_args:
  "createFunctionCallRequest ph s d r t n [] = createFunctionCallRequest_noArgs ph s d r t n"
  by (simp add: createFunctionCallRequest_def createFunctionCallRequest_noArgs_def)

end
