(* ===== verification/UserCallRequestHandler.thy ===== *)
theory UserCallRequestHandler imports Prelude Pheromones UserCallbackMap Handles MessageUtils begin

section \<open>UserCallRequestHandler\<close>

text \<open>
  The handler of calls addressed to user-defined actions: how many there are, how one is described,
  and the asynchronous execution of one. \<open>std::async\<close> starts a call on another thread; the calls
  started so far are the list \<open>m_calls\<close>, a call's future is its position, and \<open>run_call\<close> is the
  other thread's work. The launch itself is taken to succeed.
\<close>

datatype call_state =
    Running string CallbackArgs           \<comment> \<open>the function name and its arguments\<close>
  | Ready "CallbackReturn option"

record UserCallRequestHandler =
  m_callbackMap :: UserCallbackMap
  m_calls :: "call_state list"

definition handleFunctionListLengthRequest ::
  "MessageDTO \<Rightarrow> UserCallRequestHandler \<Rightarrow> u32" where
  "handleFunctionListLengthRequest message s = getLength (m_callbackMap s)"

fun describe_args :: "pheromones \<Rightarrow> CallbackArgsManifest \<Rightarrow> FunctionDescriptionArgumentDTO list" where
  "describe_args ph [] = []"
| "describe_args ph (arg # manifest) =
     mk_FunctionDescriptionArgumentDTO ph (c_str (getName arg)) (getType arg)
       # describe_args ph manifest"

definition handleFunctionDescriptionRequest ::
  "pheromones \<Rightarrow> MessageDTO \<Rightarrow> u32 \<Rightarrow> UserCallRequestHandler \<Rightarrow>
    (description_response \<times> UserCallRequestHandler) result" where
  "handleFunctionDescriptionRequest ph message index s =
     rbind (getManifestAt index (m_callbackMap s)) (\<lambda>(manifest, m).
       let s = s\<lparr>m_callbackMap := m\<rparr> in
       case manifest of
         Some manifest \<Rightarrow>
           rbind (getNameAt index (m_callbackMap s)) (\<lambda>name.
           rbind (optional_value name) (\<lambda>name.
             let args = describe_args ph manifest;
                 functionDescription = mk_FunctionDescriptionDTO ph (c_str name) args (length args)
             in Inr (Description functionDescription, s)))
       | None \<Rightarrow>
           Inr (DescriptionError (mk_GenericResponseDTO ph BadRequest ''Index out of bounds.''), s))"

text \<open>The handle \<open>result\<close> is an output parameter of the C++ method.\<close>

definition handleFunctionCallRequest ::
  "pheromones \<Rightarrow> MessageDTO \<Rightarrow> FunctionCallRequestDTO \<Rightarrow> InboundRequestHandle \<Rightarrow> UserCallRequestHandler \<Rightarrow>
    FunctionCallResponseDTO \<times> InboundRequestHandle \<times> UserCallRequestHandler \<times> event list" where
  \<open>handleFunctionCallRequest ph message fcRequest result s =
     (let functionName = getFunctionName fcRequest;
          functionArgs = getArguments fcRequest
      in case getCallback functionName (m_callbackMap s) of
           Some _ \<Rightarrow>
             let ret = length (m_calls s);
                 s = s\<lparr>m_calls := m_calls s @ [Running functionName functionArgs]\<rparr>;
                 result = setCallbackReturnContext ret result;
                 result = setCallbackName functionName result
             in (mk_FunctionCallResponseDTO ph Ok [], result, s, [])
         | None \<Rightarrow>
             (mk_FunctionCallResponseDTO ph BadRequest ''Unknown function.'', result, s,
              [Log Warn ''Function name "%s" was not registered as a callback'' [LogStr functionName]]))\<close>

definition UserCallRequestHandler_handleMessage ::
  "pheromones \<Rightarrow> MessageDTO \<Rightarrow> UserCallRequestDTO \<Rightarrow> UserCallRequestHandler \<Rightarrow>
    (handled \<times> UserCallRequestHandler \<times> event list) result" where
  "UserCallRequestHandler_handleMessage ph message ucRequest s =
     (let result = new_InboundRequestHandle ph;
          msgSourceId = getSourceId message;
          msgDestinationId = getDestinationId message;
          sourceModule = getSource ucRequest;
          ucResponse = (\<lambda>r. \<lparr>getResponseSource = HOST, getResponseDestination = sourceModule,
                             getUserCallResponse = r\<rparr>)
      in case getMessage message of
           Request request \<Rightarrow>
             (let requestId = getRequestId request;
                  finish = (\<lambda>r result s es.
                    let responseMessage = \<lparr>getSourceId = msgDestinationId,
                          getDestinationId = msgSourceId,
                          getMessage = Response \<lparr>getResponseRequestId = requestId,
                                                 getResponse = UserCallResponse (ucResponse r)\<rparr>\<rparr>
                    in Inr (HandledRequest (setRequestResponse responseMessage result), s, es))
              in case getUserCallRequest ucRequest of
                   FunctionListLengthRequest \<Rightarrow>
                     finish (FunctionListLengthResponse (handleFunctionListLengthRequest message s))
                       result s []
                 | FunctionDescriptionRequest index \<Rightarrow>
                     rbind (handleFunctionDescriptionRequest ph message index s) (\<lambda>(r, s).
                       finish (FunctionDescriptionResponse r) result s [])
                 | FunctionCallRequest fcRequest \<Rightarrow>
                     (let (r, result, s, es) = handleFunctionCallRequest ph message fcRequest result s;
                          result = setMessageSourceId msgSourceId result;
                          result = setMessageDestinationId msgDestinationId result;
                          result = setSourceModule sourceModule result
                      in finish (FunctionCallResponse r) result s es)
                 | OtherUserCallRequest \<Rightarrow>
                     finish (GenericUserCallResponse
                               (mk_GenericResponseDTO ph Unknown ''Unknown UserCallRequest''))
                       result s [])
         | _ \<Rightarrow> Inl BadVariantAccess)"

definition callbackWrapper ::
  "CallbackArgs \<Rightarrow> string \<Rightarrow> UserCallRequestHandler \<Rightarrow> CallbackReturn option \<times> event list" where
  \<open>callbackWrapper args functionName s =
     (case getCallback functionName (m_callbackMap s) of
        Some callback \<Rightarrow>
          (case call_function callback args of
             Returns r \<Rightarrow> (r, [])
           | ThrowsException what \<Rightarrow>
               (None, [Log Warn ''Callback %s has thrown an exception: %s''
                         [LogStr functionName, LogStr what]])
           | ThrowsOther \<Rightarrow>
               (None, [Log Warn ''Callback %s has thrown an unknown exception''
                         [LogStr functionName]]))
      | None \<Rightarrow>
          (None, [Log Warn ''Function name "%s" was not registered as a callback''
                    [LogStr functionName]]))\<close>

text \<open>The thread of call number \<open>i\<close> runs the wrapper and makes its future ready.\<close>

definition run_call :: "nat \<Rightarrow> UserCallRequestHandler \<Rightarrow> UserCallRequestHandler \<times> event list" where
  "run_call i s =
     (if i < length (m_calls s) then
        case m_calls s ! i of
          Running name args \<Rightarrow>
            (let (r, es) = callbackWrapper args name s
             in (s\<lparr>m_calls := (m_calls s)[i := Ready r]\<rparr>, es))
        | Ready _ \<Rightarrow> (s, [])
      else (s, []))"

text \<open>\<open>wait_for(0) == ready\<close> and \<open>get\<close> on the future of call \<open>i\<close>.\<close>

definition is_ready :: "UserCallRequestHandler \<Rightarrow> nat \<Rightarrow> bool" where
  "is_ready s i = (i < length (m_calls s) \<and> (case m_calls s ! i of Ready _ \<Rightarrow> True | _ \<Rightarrow> False))"

definition future_get :: "UserCallRequestHandler \<Rightarrow> nat option \<Rightarrow> CallbackReturn option result" where
  "future_get s f =
     (case f of
        None \<Rightarrow> Inl InvalidFuture
      | Some i \<Rightarrow>
          if i < length (m_calls s)
          then (case m_calls s ! i of Ready r \<Rightarrow> Inr r | Running _ _ \<Rightarrow> Inl InvalidFuture)
          else Inl InvalidFuture)"

lemma describe_args_map:
  "describe_args ph man =
     map (\<lambda>a. mk_FunctionDescriptionArgumentDTO ph (c_str (m_name a)) (m_type a)) man"
  by (induction man) (simp_all add: bridge_defs)

lemma future_get_ready: "is_ready s i \<Longrightarrow> \<exists>r. future_get s (Some i) = Inr r"
  by (auto simp: is_ready_def future_get_def split: call_state.splits)


subsection \<open>Function descriptions\<close>

lemma handleFunctionDescriptionRequest_inside:
  assumes "callback_map_inv (m_callbackMap s)" "unat i < length (m_callbackNames (m_callbackMap s))"
  shows "handleFunctionDescriptionRequest ph msg i s =
    (let name = m_callbackNames (m_callbackMap s) ! unat i;
         man = the (manifest_of_name (m_callbackMap s) name)
     in Inr (Description (mk_FunctionDescriptionDTO ph (c_str name) (describe_args ph man)
               (length man)), s))"
proof -
  let ?name = "m_callbackNames (m_callbackMap s) ! unat i"
  have "?name \<in> dom (m_callbacks (m_callbackMap s))"
    using assms by (metis callback_map_inv_def nth_mem)
  then obtain w where "m_callbacks (m_callbackMap s) ?name = Some w" by auto
  then show ?thesis
    using assms getManifestAt_inside [OF assms] getNameAt_inside [OF assms(2)]
    by (simp add: handleFunctionDescriptionRequest_def manifest_of_name_def describe_args_map Let_def)
qed

lemma handleFunctionDescriptionRequest_beyond:
  assumes "length (m_callbackNames (m_callbackMap s)) < unat i"
  shows "handleFunctionDescriptionRequest ph msg i s =
    Inr (DescriptionError (mk_GenericResponseDTO ph BadRequest ''Index out of bounds.''), s)"
  using assms by (simp add: handleFunctionDescriptionRequest_def getManifestAt_beyond)

lemma description_request_index_fault:
  "unat i = length (m_callbackNames (m_callbackMap s)) \<Longrightarrow>
   handleFunctionDescriptionRequest ph msg i s = Inl OutOfBounds"
  using getManifestAt_fault_iff [of i "m_callbackMap s" OutOfBounds]
  by (simp add: handleFunctionDescriptionRequest_def)

lemma handleFunctionDescriptionRequest_inside_ok:
  assumes "unat i < length (m_callbackNames (m_callbackMap s))"
  shows "\<exists>d s'. handleFunctionDescriptionRequest ph msg i s = Inr (Description d, s')"
  using assms
  by (auto simp: handleFunctionDescriptionRequest_def getManifestAt_def getNameAt_def Let_def
      split: option.splits)

text \<open>A manifest the library's description objects can hold without clipping.\<close>

definition describable :: "(string \<Rightarrow> bool) \<Rightarrow> nat \<Rightarrow> string \<Rightarrow> CallbackArgsManifest \<Rightarrow> bool" where
  "describable fits m name man \<longleftrightarrow>
     fits name \<and> CHR 0x00 \<notin> set name \<and> length man \<le> m \<and>
     (\<forall>a \<in> set man. fits (m_name a) \<and> CHR 0x00 \<notin> set (m_name a))"

lemma describe_args_laws:
  assumes "description_laws ph fits m" "\<forall>a \<in> set man. fits (m_name a) \<and> CHR 0x00 \<notin> set (m_name a)"
  shows "describe_args ph man =
    map (\<lambda>a. \<lparr>getArgumentName = m_name a, getArgumentType = m_type a\<rparr>) man"
  using assms by (auto simp: describe_args_map description_laws_def c_str_id)

text \<open>
  A remote agent that asks for the description of every index below the advertised length
  learns exactly the registered actions: the answer for index \<open>i\<close> carries the name registered
  \<open>i\<close>-th and that action's argument names and types, and asking changes nothing, provided the
  names fit the description objects.
\<close>

theorem function_discovery:
  assumes "callback_map_inv (m_callbackMap s)"
    and "length (m_callbackNames (m_callbackMap s)) < 2 ^ 32"
    and "i < unat (handleFunctionListLengthRequest msg s)"
    and "description_laws ph fits m"
    and "describable fits m (m_callbackNames (m_callbackMap s) ! i)
           (the (manifest_of_name (m_callbackMap s) (m_callbackNames (m_callbackMap s) ! i)))"
  shows "handleFunctionDescriptionRequest ph msg (word_of_nat i) s =
    Inr (Description
      \<lparr>getDescribedName = m_callbackNames (m_callbackMap s) ! i,
       getDescribedArguments =
         map (\<lambda>a. \<lparr>getArgumentName = m_name a, getArgumentType = m_type a\<rparr>)
           (the (manifest_of_name (m_callbackMap s) (m_callbackNames (m_callbackMap s) ! i)))\<rparr>, s)"
proof -
  let ?name = "m_callbackNames (m_callbackMap s) ! i"
  let ?man = "the (manifest_of_name (m_callbackMap s) ?name)"
  have i: "i < length (m_callbackNames (m_callbackMap s))"
    using assms(2,3) by (simp add: handleFunctionListLengthRequest_def getLength_def)
  then have u: "unat (word_of_nat i :: u32) = i"
    using assms(2) by simp
  have args: "describe_args ph ?man =
      map (\<lambda>a. \<lparr>getArgumentName = m_name a, getArgumentType = m_type a\<rparr>) ?man"
    using assms(4,5) by (intro describe_args_laws) (auto simp: describable_def)
  have "mk_FunctionDescriptionDTO ph ?name (describe_args ph ?man) (length (describe_args ph ?man)) =
      \<lparr>getDescribedName = ?name, getDescribedArguments = describe_args ph ?man\<rparr>"
    using assms(5) by (intro description_laws_fun [OF assms(4)])
      (auto simp: describable_def describe_args_map)
  then show ?thesis
    using handleFunctionDescriptionRequest_inside [OF assms(1), of "word_of_nat i" ph msg] i u assms(5)
    by (simp add: args Let_def c_str_id describable_def)
qed

text \<open>
  C31. A description request leaves the defined behaviour of C++ exactly when its index equals the
  number of registered actions: the guards \<open>index > size()\<close> let that index through to an unchecked
  vector access. Larger indexes are answered with \<open>BadRequest\<close>, smaller ones with a description.
\<close>

theorem description_request_out_of_bounds:
  "(handleFunctionDescriptionRequest ph msg i s = Inl OutOfBounds \<longleftrightarrow>
      unat i = length (m_callbackNames (m_callbackMap s))) \<and>
   (handleFunctionDescriptionRequest ph msg i s =
        Inr (DescriptionError (mk_GenericResponseDTO ph BadRequest ''Index out of bounds.''), s) \<longleftrightarrow>
      length (m_callbackNames (m_callbackMap s)) < unat i) \<and>
   ((\<exists>d s'. handleFunctionDescriptionRequest ph msg i s = Inr (Description d, s')) \<longleftrightarrow>
      unat i < length (m_callbackNames (m_callbackMap s)))"
proof (cases "unat i" "length (m_callbackNames (m_callbackMap s))" rule: linorder_cases)
  case less
  then have "\<exists>d s'. handleFunctionDescriptionRequest ph msg i s = Inr (Description d, s')"
    by (rule handleFunctionDescriptionRequest_inside_ok)
  then show ?thesis using less by auto
next
  case equal
  then show ?thesis by (simp add: description_request_index_fault)
next
  case greater
  then show ?thesis by (simp add: handleFunctionDescriptionRequest_beyond)
qed


subsection \<open>Function calls\<close>

text \<open>
  A function call is answered to the sender: source and destination swapped, the request's id,
  addressed to the module that asked, with \<open>Ok\<close> exactly when the name is registered. In that case
  one call of that function with the request's arguments is started and the handle holds its future
  and the addresses the return payload needs; otherwise nothing is started and a warning is logged.
\<close>

theorem function_call_answered:
  \<open>UserCallRequestHandler_handleMessage ph
     \<lparr>getSourceId = src, getDestinationId = dst, getMessage = Request \<lparr>getRequestId = rid, getRequest = body\<rparr>\<rparr>
     \<lparr>getSource = smod, getDestination = dmod, getUserCallRequest = FunctionCallRequest fc\<rparr> s =
   (let registered = getCallback (getFunctionName fc) (m_callbackMap s) \<noteq> None;
        answer = (if registered then mk_FunctionCallResponseDTO ph Ok []
                  else mk_FunctionCallResponseDTO ph BadRequest ''Unknown function.'')
    in Inr (HandledRequest
         \<lparr>m_callbackName = (if registered then getFunctionName fc else []),
          m_responseMessage = \<lparr>getSourceId = dst, getDestinationId = src,
            getMessage = Response \<lparr>getResponseRequestId = rid, getResponse = UserCallResponse
              \<lparr>getResponseSource = HOST, getResponseDestination = smod,
               getUserCallResponse = FunctionCallResponse answer\<rparr>\<rparr>\<rparr>,
          m_callbackReturnContext = (if registered then Some (length (m_calls s)) else None),
          m_msgSourceId = Some src, m_msgDestinationId = Some dst, m_sourceModule = Some smod\<rparr>,
         (if registered
          then s\<lparr>m_calls := m_calls s @ [Running (getFunctionName fc) (getArguments fc)]\<rparr> else s),
         (if registered then []
          else [Log Warn ''Function name "%s" was not registered as a callback''
                  [LogStr (getFunctionName fc)]])))\<close>
  by (cases "getCallback (getFunctionName fc) (m_callbackMap s)")
     (simp_all add: UserCallRequestHandler_handleMessage_def handleFunctionCallRequest_def Let_def
       bridge_defs)


subsection \<open>What handling a message leaves unchanged\<close>

lemma handleFunctionDescriptionRequest_state:
  assumes "callback_map_inv (m_callbackMap s)"
    "handleFunctionDescriptionRequest ph msg i s = Inr (r, s')"
  shows "s' = s"
proof (cases "unat i" "length (m_callbackNames (m_callbackMap s))" rule: linorder_cases)
  case less
  then show ?thesis
    using assms by (simp add: handleFunctionDescriptionRequest_inside Let_def)
next
  case equal
  then show ?thesis
    using assms(2) description_request_index_fault [of i s ph msg] by simp
next
  case greater
  then show ?thesis
    using assms(2) by (simp add: handleFunctionDescriptionRequest_beyond)
qed


text \<open>
  What the bridge relies on later: a handle with a valid future also has the addresses for the
  return payload, futures are calls that were started, and every running call is of a registered
  action.
\<close>

definition handle_wf :: "nat \<Rightarrow> InboundRequestHandle \<Rightarrow> bool" where
  "handle_wf n h \<longleftrightarrow>
     (case m_callbackReturnContext h of
        None \<Rightarrow> True
      | Some i \<Rightarrow> i < n \<and> m_msgSourceId h \<noteq> None \<and> m_msgDestinationId h \<noteq> None \<and>
                  m_sourceModule h \<noteq> None)"

fun call_registered :: "UserCallbackMap \<Rightarrow> call_state \<Rightarrow> bool" where
  "call_registered m (Running name args) = (getCallback name m \<noteq> None)"
| "call_registered m (Ready r) = True"

definition user_calls_inv :: "UserCallRequestHandler \<Rightarrow> bool" where
  "user_calls_inv s \<longleftrightarrow>
     callback_map_inv (m_callbackMap s) \<and> (\<forall>c \<in> set (m_calls s). call_registered (m_callbackMap s) c)"

lemma handle_wf_mono: "handle_wf n h \<Longrightarrow> n \<le> n' \<Longrightarrow> handle_wf n' h"
  by (auto simp: handle_wf_def split: option.splits)

lemma UserCallRequestHandler_handleMessage_inv:
  assumes inv: "user_calls_inv s"
    and step: "UserCallRequestHandler_handleMessage ph msg uc s = Inr (r, s', es)"
  shows "user_calls_inv s' \<and> m_callbackMap s' = m_callbackMap s \<and>
    (\<exists>new. m_calls s' = m_calls s @ new) \<and>
    (\<exists>h. r = HandledRequest h \<and> handle_wf (length (m_calls s')) h) \<and> serialized es = []"
proof -
  obtain req where msg: "getMessage msg = Request req"
    using step by (auto simp: UserCallRequestHandler_handleMessage_def Let_def
        split: message_body.splits)
  have map: "callback_map_inv (m_callbackMap s)"
    using inv by (simp add: user_calls_inv_def)
  show ?thesis
  proof (cases "getUserCallRequest uc")
    case (FunctionDescriptionRequest i)
    then obtain d s1 where "handleFunctionDescriptionRequest ph msg i s = Inr (d, s1)"
      using step msg by (auto simp: UserCallRequestHandler_handleMessage_def Let_def rbind_eq_Inr)
    moreover from this have "s1 = s" by (rule handleFunctionDescriptionRequest_state [OF map])
    ultimately show ?thesis
      using FunctionDescriptionRequest step msg inv
      by (auto simp: UserCallRequestHandler_handleMessage_def Let_def handle_wf_def bridge_defs)
  next
    case (FunctionCallRequest fc)
    then show ?thesis
      using step msg inv
      by (cases "getCallback (getFunctionName fc) (m_callbackMap s)")
         (auto simp: UserCallRequestHandler_handleMessage_def handleFunctionCallRequest_def Let_def
           user_calls_inv_def handle_wf_def bridge_defs)
  qed (use step msg inv in \<open>auto simp: UserCallRequestHandler_handleMessage_def Let_def
         handle_wf_def bridge_defs\<close>)
qed

text \<open>
  C27. A started call never loses its action: while a call of a registered action runs, the user
  may register or overwrite any actions, and the call's thread still finds a callback under the
  name, so its outcome is that of the callback registered last before the thread looked it up, with
  an exception turned into an empty return and a warning.
\<close>

theorem started_call_runs_registered_callback:
  assumes "user_calls_inv s" "i < length (m_calls s)" "m_calls s ! i = Running name args"
  shows "\<exists>f. getCallback name (registerCallbacks rs (m_callbackMap s)) = Some f \<and>
    run_call i (s\<lparr>m_callbackMap := registerCallbacks rs (m_callbackMap s)\<rparr>) =
      (case call_function f args of
         Returns r \<Rightarrow>
           (s\<lparr>m_callbackMap := registerCallbacks rs (m_callbackMap s),
              m_calls := (m_calls s)[i := Ready r]\<rparr>, [])
       | ThrowsException what \<Rightarrow>
           (s\<lparr>m_callbackMap := registerCallbacks rs (m_callbackMap s),
              m_calls := (m_calls s)[i := Ready None]\<rparr>,
            [Log Warn ''Callback %s has thrown an exception: %s'' [LogStr name, LogStr what]])
       | ThrowsOther \<Rightarrow>
           (s\<lparr>m_callbackMap := registerCallbacks rs (m_callbackMap s),
              m_calls := (m_calls s)[i := Ready None]\<rparr>,
            [Log Warn ''Callback %s has thrown an unknown exception'' [LogStr name]]))"
proof -
  have "Running name args \<in> set (m_calls s)"
    using assms(2,3) by (metis nth_mem)
  then have "getCallback name (m_callbackMap s) \<noteq> None"
    using assms(1) by (fastforce simp: user_calls_inv_def)
  then have "\<exists>f. getCallback name (registerCallbacks rs (m_callbackMap s)) = Some f"
    by (auto simp: registerCallbacks_eq cbm.callback_register_all split: option.split)
  then obtain f where f: "getCallback name (registerCallbacks rs (m_callbackMap s)) = Some f" ..
  then show ?thesis
    using assms(2,3)
    by (auto simp: run_call_def callbackWrapper_def f split: callback_outcome.split)
qed

lemma run_call_frame:
  "m_callbackMap (fst (run_call i s)) = m_callbackMap s"
  "length (m_calls (fst (run_call i s))) = length (m_calls s)"
  by (auto simp: run_call_def Let_def split: call_state.split prod.split)

lemma run_call_calls: "set (m_calls (fst (run_call i s))) \<subseteq> set (m_calls s) \<union> range Ready"
  by (auto simp: run_call_def Let_def split: call_state.split prod.split
      dest!: set_update_subset_insert [THEN subsetD])

lemma run_call_inv: "user_calls_inv s \<Longrightarrow> user_calls_inv (fst (run_call i s))"
  using run_call_calls [of i s] by (fastforce simp: user_calls_inv_def run_call_frame)

lemma call_registered_mono:
  "call_registered m c \<Longrightarrow> call_registered (snd (registerCallback n f a m)) c"
  by (cases c) (auto simp: cbm.callback_register)

lemma register_user_calls_inv:
  "user_calls_inv s \<Longrightarrow>
   user_calls_inv (s\<lparr>m_callbackMap := snd (registerCallback n f a (m_callbackMap s))\<rparr>)"
  by (auto simp: user_calls_inv_def call_registered_mono)


subsection \<open>A concrete handler\<close>

text \<open>One registered action with one argument, and one running call of it.\<close>

definition sample_action :: CallbackFunction where
  "sample_action = Some (\<lambda>args. ThrowsException ''no'')"

definition sample_handler :: UserCallRequestHandler where
  "sample_handler =
     \<lparr>m_callbackMap = snd (registerCallback ''turn'' sample_action [\<lparr>m_name = ''angle'', m_type = ArgFloat\<rparr>]
        empty_callback_map),
      m_calls = [Running ''turn'' [4]]\<rparr>"

lemma sample_handler_simps:
  "m_callbackNames (m_callbackMap sample_handler) = [''turn'']"
  "getCallback ''turn'' (m_callbackMap sample_handler) = Some sample_action"
  "manifest_of_name (m_callbackMap sample_handler) ''turn'' = Some [\<lparr>m_name = ''angle'', m_type = ArgFloat\<rparr>]"
  "m_calls sample_handler = [Running ''turn'' [4]]" "user_calls_inv sample_handler"
  by (auto simp: sample_handler_def registerCallback_names empty_callback_map_def getCallback_eq
      manifest_of_name_def user_calls_inv_def callback_map_inv_def)

theorem function_discovery_witness:
  "handleFunctionDescriptionRequest sample_pheromones (default_MessageDTO sample_pheromones) (word_of_nat 0) sample_handler =
    Inr (Description \<lparr>getDescribedName = ''turn'',
      getDescribedArguments = [\<lparr>getArgumentName = ''angle'', getArgumentType = ArgFloat\<rparr>]\<rparr>, sample_handler)"
proof -
  have "callback_map_inv (m_callbackMap sample_handler)"
    using sample_handler_simps(5) by (simp add: user_calls_inv_def)
  moreover have "length (m_callbackNames (m_callbackMap sample_handler)) < 2 ^ 32"
    and "0 < unat (handleFunctionListLengthRequest (default_MessageDTO sample_pheromones) sample_handler)"
    by (simp_all add: sample_handler_simps handleFunctionListLengthRequest_def getLength_def)
  moreover have "describable (\<lambda>s. length s \<le> 16) 2 (m_callbackNames (m_callbackMap sample_handler) ! 0)
      (the (manifest_of_name (m_callbackMap sample_handler)
        (m_callbackNames (m_callbackMap sample_handler) ! 0)))"
    by (simp add: sample_handler_simps describable_def)
  ultimately show ?thesis
    using function_discovery [OF _ _ _ sample_description_laws, of sample_handler 0
        "default_MessageDTO sample_pheromones"]
    by (simp add: sample_handler_simps)
qed

theorem started_call_runs_registered_callback_witness:
  "run_call 0 (sample_handler\<lparr>m_callbackMap :=
      registerCallbacks [(''other'', None, [])] (m_callbackMap sample_handler)\<rparr>) =
    (sample_handler\<lparr>m_callbackMap := registerCallbacks [(''other'', None, [])] (m_callbackMap sample_handler),
       m_calls := [Ready None]\<rparr>,
     [Log Warn ''Callback %s has thrown an exception: %s'' [LogStr ''turn'', LogStr ''no'']])"
proof -
  let ?rs = "[(''other'', None, [])] :: (string \<times> CallbackFunction \<times> CallbackArgsManifest) list"
  have i: "0 < length (m_calls sample_handler)" "m_calls sample_handler ! 0 = Running ''turn'' [4]"
    by (simp_all add: sample_handler_simps)
  have "getCallback ''turn'' (registerCallbacks ?rs (m_callbackMap sample_handler)) = Some sample_action"
    using sample_handler_simps(2) by (simp add: getCallback_eq registerCallbacks_def)
  with started_call_runs_registered_callback [OF sample_handler_simps(5) i, of ?rs] show ?thesis
    by (auto simp: call_function_def sample_action_def sample_handler_simps(4))
qed

end
