(* ===== verification/MessageHandler.thy ===== *)
theory MessageHandler
  imports Prelude Pheromones Handles UserCallRequestHandler HostApiRequestHandler HostApiResponseHandler
begin

section \<open>MessageHandler\<close>

text \<open>
  The dispatcher: it gives every inbound message to the handler for its alternative and returns
  what the bridge has to keep. The three handlers it refers to are the fields of its record.
\<close>

record MessageHandler =
  m_userCallRequestHandler :: UserCallRequestHandler
  m_hmRequestHandler :: HiveMindHostApiRequestHandler
  m_hmResponseHandler :: HiveMindHostApiResponseHandler

definition unknown_message :: "pheromones \<Rightarrow> message_body \<Rightarrow> event" where
  "unknown_message ph request =
     Log Warn ''Cannot handle message : unknown message type %d'' [LogSize (word_of_nat (message_index ph request))]"

definition response_handle :: "ResponseDTO \<Rightarrow> GenericResponseDTO \<Rightarrow> handled" where
  "response_handle response g =
     HandledResponse (mk_InboundResponseHandle (getResponseRequestId response) (getStatus g) (getDetails g))"

definition MessageHandler_handleMessage ::
  "pheromones \<Rightarrow> MessageDTO \<Rightarrow> MessageHandler \<Rightarrow> (handled \<times> MessageHandler \<times> event list) result" where
  "MessageHandler_handleMessage ph message s =
     (let request = getMessage message;
          unknown = Inr (NoHandle, s, [unknown_message ph request])
      in case request of
           Request req \<Rightarrow>
             (case getRequest req of
                UserCallRequest ucRequest \<Rightarrow>
                  rbind (UserCallRequestHandler_handleMessage ph message ucRequest
                           (m_userCallRequestHandler s)) (\<lambda>(r, u, es).
                    Inr (r, s\<lparr>m_userCallRequestHandler := u\<rparr>, es))
              | HostApiRequest hmRequest \<Rightarrow>
                  rbind (HostApiRequestHandler_handleMessage message hmRequest
                           (m_hmRequestHandler s)) (\<lambda>(q, es).
                    Inr (NoHandle, s\<lparr>m_hmRequestHandler := q\<rparr>, es))
              | OtherRequest \<Rightarrow> unknown)
         | Response response \<Rightarrow>
             (case getResponse response of
                GenericResponse genericResponse \<Rightarrow>
                  Inr (response_handle response genericResponse, s, [])
              | UserCallResponse userCallResponse \<Rightarrow>
                  (case getUserCallResponse userCallResponse of
                     GenericUserCallResponse genericResponse \<Rightarrow>
                       Inr (response_handle response genericResponse, s, [])
                   | FunctionCallResponse functionCallResponse \<Rightarrow>
                       Inr (response_handle response (getFunctionCallResponse functionCallResponse), s, [])
                   | _ \<Rightarrow>
                       Inr (NoHandle, s,
                         [Log Warn ''Cannot handle user call response : unknown user call response type'' []]))
              | HostApiResponse hmResponse \<Rightarrow>
                  Inr (NoHandle, s,
                    HostApiResponseHandler_handleMessage message hmResponse (m_hmResponseHandler s))
              | OtherResponse \<Rightarrow> unknown)
         | Greeting i \<Rightarrow>
             Inr (NoHandle, s, [Log Info ''Received greeting from %d'' [LogUnsigned i]])
         | OtherMessage _ \<Rightarrow> unknown)"

definition handleGreet :: "MessageDTO \<Rightarrow> u32 option" where
  "handleGreet greetMessage =
     (case getMessage greetMessage of Greeting i \<Rightarrow> Some i | _ \<Rightarrow> None)"


subsection \<open>Well-formed messages and what handling them preserves\<close>

text \<open>
  Two kinds of inbound message make the handlers read out of bounds: a packet that announces more
  bytes than its array holds, which the library's \<open>BytesDTO\<close> excludes, and a description request
  whose index equals the number of registered actions, which a remote agent can send.
\<close>

definition message_wf :: "MessageDTO \<Rightarrow> bool" where
  "message_wf msg \<longleftrightarrow>
     (case getMessage msg of
        Request req \<Rightarrow>
          (case getRequest req of
             HostApiRequest (BytesRequest b) \<Rightarrow> wf_bytes b
           | _ \<Rightarrow> True)
      | _ \<Rightarrow> True)"

definition asks_index_at_size :: "MessageDTO \<Rightarrow> UserCallbackMap \<Rightarrow> bool" where
  "asks_index_at_size msg m \<longleftrightarrow>
     (case getMessage msg of
        Request req \<Rightarrow>
          (case getRequest req of
             UserCallRequest uc \<Rightarrow>
               (case getUserCallRequest uc of
                  FunctionDescriptionRequest i \<Rightarrow> unat i = length (m_callbackNames m)
                | _ \<Rightarrow> False)
           | _ \<Rightarrow> False)
      | _ \<Rightarrow> False)"

definition message_handler_inv :: "MessageHandler \<Rightarrow> bool" where
  "message_handler_inv s \<longleftrightarrow> user_calls_inv (m_userCallRequestHandler s)"

lemma UserCallRequestHandler_ok:
  assumes "getMessage msg = Request req"
  shows "ok (UserCallRequestHandler_handleMessage ph msg uc s) \<longleftrightarrow>
    (case getUserCallRequest uc of
       FunctionDescriptionRequest i \<Rightarrow> unat i \<noteq> length (m_callbackNames (m_callbackMap s))
     | _ \<Rightarrow> True)"
proof (cases "getUserCallRequest uc")
  case (FunctionDescriptionRequest i)
  have "ok (handleFunctionDescriptionRequest ph msg i s) \<longleftrightarrow>
      unat i \<noteq> length (m_callbackNames (m_callbackMap s))"
    using description_request_index_fault [of i s ph msg] handleFunctionDescriptionRequest_beyond [of s i ph msg]
      handleFunctionDescriptionRequest_inside_ok [of i s ph msg]
    by (cases "unat i" "length (m_callbackNames (m_callbackMap s))" rule: linorder_cases)
       (auto simp: ok_iff)
  then show ?thesis
    unfolding ok_iff [of "handleFunctionDescriptionRequest ph msg i s"]
    using FunctionDescriptionRequest assms
    by (simp add: UserCallRequestHandler_handleMessage_def Let_def ok_rbind case_prod_unfold)
qed (use assms in \<open>simp_all add: UserCallRequestHandler_handleMessage_def Let_def case_prod_unfold\<close>)


lemma MessageHandler_ok:
  assumes "message_wf msg"
    "\<not> asks_index_at_size msg (m_callbackMap (m_userCallRequestHandler s))"
  shows "ok (MessageHandler_handleMessage ph msg s)"
proof (cases "getMessage msg")
  case (Request req)
  show ?thesis
  proof (cases "getRequest req")
    case (UserCallRequest uc)
    have "ok (UserCallRequestHandler_handleMessage ph msg uc (m_userCallRequestHandler s))"
      using assms(2) Request UserCallRequest
      by (auto simp: UserCallRequestHandler_ok [OF Request] asks_index_at_size_def
          split: user_call_request.splits)
    then show ?thesis
      using Request UserCallRequest by (auto simp: MessageHandler_handleMessage_def ok_iff)
  next
    case (HostApiRequest r)
    have "ok (HostApiRequestHandler_handleMessage msg r (m_hmRequestHandler s))"
      using assms(1) Request HostApiRequest
      by (auto simp: HostApiRequestHandler_handleMessage_def message_wf_def handleBytes_ok
          split: host_api_request.split)
    then show ?thesis
      using Request HostApiRequest by (auto simp: MessageHandler_handleMessage_def ok_iff)
  next
    case OtherRequest
    then show ?thesis using Request by (simp add: MessageHandler_handleMessage_def)
  qed
qed (auto simp: MessageHandler_handleMessage_def split: response_body.split user_call_response.split)

lemma MessageHandler_index_fault:
  assumes "asks_index_at_size msg (m_callbackMap (m_userCallRequestHandler s))"
  shows "MessageHandler_handleMessage ph msg s = Inl OutOfBounds"
  using assms
  by (auto simp: asks_index_at_size_def MessageHandler_handleMessage_def
      UserCallRequestHandler_handleMessage_def Let_def description_request_index_fault
      split: message_body.splits request_body.splits user_call_request.splits)

lemma handleBytes_not_serialized: "handleBytes msg b s = Inr (s', es) \<Longrightarrow> serialized es = []"
  by (auto simp: handleBytes_def Let_def rbind_eq_Inr split: option.splits if_splits)

lemma HostApiRequestHandler_not_serialized:
  "HostApiRequestHandler_handleMessage msg r s = Inr (s', es) \<Longrightarrow> serialized es = []"
  by (auto simp: HostApiRequestHandler_handleMessage_def handleBytes_not_serialized
      split: host_api_request.splits)

text \<open>Only the arrival of a user call changes the calls, and only by starting new ones.\<close>

definition handled_wf :: "nat \<Rightarrow> handled \<Rightarrow> bool" where
  "handled_wf n r = (case r of HandledRequest h \<Rightarrow> handle_wf n h | _ \<Rightarrow> True)"

lemma MessageHandler_preserves:
  assumes inv: "message_handler_inv s"
    and step: "MessageHandler_handleMessage ph msg s = Inr (r, s', es)"
  shows "message_handler_inv s'"
    and "m_callbackMap (m_userCallRequestHandler s') = m_callbackMap (m_userCallRequestHandler s)"
    and "\<exists>new. m_calls (m_userCallRequestHandler s') = m_calls (m_userCallRequestHandler s) @ new"
    and "handled_wf (length (m_calls (m_userCallRequestHandler s'))) r"
    and "serialized es = []"
proof -
  have "message_handler_inv s' \<and>
    m_callbackMap (m_userCallRequestHandler s') = m_callbackMap (m_userCallRequestHandler s) \<and>
    (\<exists>new. m_calls (m_userCallRequestHandler s') = m_calls (m_userCallRequestHandler s) @ new) \<and>
    handled_wf (length (m_calls (m_userCallRequestHandler s'))) r \<and> serialized es = []"
  proof (cases "\<exists>req uc. getMessage msg = Request req \<and> getRequest req = UserCallRequest uc")
    case True
    then obtain req uc u where s': "s' = s\<lparr>m_userCallRequestHandler := u\<rparr>"
      and u: "UserCallRequestHandler_handleMessage ph msg uc (m_userCallRequestHandler s) = Inr (r, u, es)"
      using step by (auto simp: MessageHandler_handleMessage_def rbind_eq_Inr)
    from UserCallRequestHandler_handleMessage_inv [OF inv [unfolded message_handler_inv_def] u]
    show ?thesis by (auto simp: s' message_handler_inv_def handled_wf_def)
  next
    case False
    then show ?thesis
      using step inv
      by (auto simp: MessageHandler_handleMessage_def Let_def rbind_eq_Inr message_handler_inv_def
          handled_wf_def response_handle_def unknown_message_def HostApiRequestHandler_not_serialized
          split: message_body.splits request_body.splits response_body.splits user_call_response.splits)
  qed
  then show "message_handler_inv s'"
    "m_callbackMap (m_userCallRequestHandler s') = m_callbackMap (m_userCallRequestHandler s)"
    "\<exists>new. m_calls (m_userCallRequestHandler s') = m_calls (m_userCallRequestHandler s) @ new"
    "handled_wf (length (m_calls (m_userCallRequestHandler s'))) r" "serialized es = []"
    by blast+
qed


subsection \<open>Properties of the dispatcher\<close>

text \<open>
  Handling an inbound message stays within the defined behaviour of C++ for every well-formed
  message, except a description request whose index equals the number of registered actions, which
  reads past the vector of names.
\<close>

theorem handleMessage_fault_iff:
  assumes "message_wf msg"
  shows "MessageHandler_handleMessage ph msg s =
      Inl e \<longleftrightarrow> asks_index_at_size msg (m_callbackMap (m_userCallRequestHandler s)) \<and> e = OutOfBounds"
  using MessageHandler_ok [OF assms, of s ph] MessageHandler_index_fault [of msg s ph]
  by (cases "asks_index_at_size msg (m_callbackMap (m_userCallRequestHandler s))") (auto simp: ok_iff)

text \<open>
  Of all inbound messages exactly three kinds of response leave a response handle, generic
  responses, generic user call responses and function call responses; the handle carries the id of
  the request they answer, and their status and details. The handlers' state is not touched.
\<close>

theorem response_handles:
  "(\<exists>es s'. MessageHandler_handleMessage ph msg s = Inr (HandledResponse h, s', es)) \<longleftrightarrow>
   (\<exists>resp g. getMessage msg = Response resp \<and>
      (getResponse resp = GenericResponse g \<or>
       (\<exists>uc. getResponse resp = UserCallResponse uc \<and>
          (getUserCallResponse uc = GenericUserCallResponse g \<or>
           (\<exists>fc. getUserCallResponse uc = FunctionCallResponse fc \<and> getFunctionCallResponse fc = g)))) \<and>
      h = \<lparr>m_responseId = getResponseRequestId resp, m_responseStatus = getStatus g,
           m_statusDetails = getDetails g\<rparr> \<and>
      MessageHandler_handleMessage ph msg s = Inr (HandledResponse h, s, []))"
  (is "?lhs \<longleftrightarrow> ?rhs")
proof
  assume ?lhs
  then obtain es s' where step: "MessageHandler_handleMessage ph msg s = Inr (HandledResponse h, s', es)"
    by blast
  show ?rhs
  proof (cases "getMessage msg")
    case (Request req)
    have "r \<noteq> HandledResponse h'"
      if "UserCallRequestHandler_handleMessage ph msg uc u = Inr (r, u', es')" for uc u r u' es' h'
      using that
      by (auto simp: UserCallRequestHandler_handleMessage_def Let_def case_prod_unfold rbind_eq_Inr
          split: message_body.splits user_call_request.splits)
    then show ?thesis
      using step Request
      by (fastforce simp: MessageHandler_handleMessage_def rbind_eq_Inr split: request_body.splits)
  next
    case (Response resp)
    then show ?thesis
      using step
      by (cases "getResponse resp")
         (auto simp: MessageHandler_handleMessage_def response_handle_def bridge_defs
           split: user_call_response.splits)
  qed (use step in \<open>auto simp: MessageHandler_handleMessage_def\<close>)
qed blast

lemma handleGreet_iff: "handleGreet msg = Some i \<longleftrightarrow> getMessage msg = Greeting i"
  by (auto simp: handleGreet_def split: message_body.splits)

theorem handleMessage_fault_iff_witness:
  "MessageHandler_handleMessage sample_pheromones
     \<lparr>getSourceId = 1, getDestinationId = 2, getMessage = Request \<lparr>getRequestId = 3,
        getRequest = UserCallRequest \<lparr>getSource = BUZZ, getDestination = HOST,
          getUserCallRequest = FunctionDescriptionRequest 0\<rparr>\<rparr>\<rparr>
     \<lparr>m_userCallRequestHandler = \<lparr>m_callbackMap = empty_callback_map, m_calls = []\<rparr>,
      m_hmRequestHandler = new_request_handler, m_hmResponseHandler = new_response_handler\<rparr> =
   Inl OutOfBounds"
  (is "MessageHandler_handleMessage _ ?msg ?s = _")
proof -
  have "message_wf ?msg" by (simp add: message_wf_def)
  moreover have "asks_index_at_size ?msg (m_callbackMap (m_userCallRequestHandler ?s))"
    by (simp add: asks_index_at_size_def empty_callback_map_def)
  ultimately show ?thesis using handleMessage_fault_iff [of ?msg sample_pheromones ?s OutOfBounds] by blast
qed

end
