(* ===== verification/TCPServer.thy ===== *)
theory TCPServer imports Prelude Pheromones begin

section \<open>TCPServer\<close>

text \<open>
  The server socket and its single client. The results of the socket calls are arguments of the
  operations that make them, as the operating system is free to choose them; what the calls do to
  descriptors is an event. \<open>m_clientFd\<close> has no initialiser: it is \<open>None\<close> until the first
  \<open>accept\<close>.
\<close>

record TCPServer =
  m_serverFd :: int
  m_clientFd :: "int option"
  m_port :: int
  m_isClientConnected :: bool
  m_onConnect :: "hook option"
  m_onDisonnect :: "hook option"

text \<open>\<open>init\<close>: the results of \<open>socket\<close>, \<open>setsockopt\<close> and \<open>bind\<close>.\<close>

definition tcp_init :: "int \<Rightarrow> int \<Rightarrow> int \<Rightarrow> TCPServer \<Rightarrow> TCPServer \<times> event list" where
  "tcp_init socket_ret setsockopt_ret bind_ret s =
     (s\<lparr>m_serverFd := socket_ret\<rparr>,
      (if socket_ret = 0 then [Log Error ''TCP server socket creation failed'' []] else []) @
      (if setsockopt_ret = -1 then [Log Error ''TCP server setting option failed.'' []] else []) @
      (if bind_ret < 0 then [Log Error ''TCP server binding failed'' []] else []))"

definition new_TCPServer :: "int \<Rightarrow> int \<Rightarrow> int \<Rightarrow> int \<Rightarrow> TCPServer \<times> event list" where
  "new_TCPServer port socket_ret setsockopt_ret bind_ret =
     tcp_init socket_ret setsockopt_ret bind_ret
       \<lparr>m_serverFd = 0, m_clientFd = None, m_port = port, m_isClientConnected = False,
        m_onConnect = None, m_onDisonnect = None\<rparr>"

definition call_hook :: "(hook \<Rightarrow> event) \<Rightarrow> hook option \<Rightarrow> event list" where
  "call_hook ev h = (case h of Some f \<Rightarrow> [ev f] | None \<Rightarrow> [])"

text \<open>\<open>listen\<close>: the results of \<open>::listen\<close> and \<open>::accept\<close>. It returns when \<open>accept\<close> does.\<close>

definition tcp_listen :: "int \<Rightarrow> int \<Rightarrow> TCPServer \<Rightarrow> TCPServer \<times> event list" where
  "tcp_listen listen_ret accept_ret s =
     (let es = [Log Info ''Listening for incoming clients on port %d...'' [LogInt (m_port s)]] @
               (if listen_ret < 0 then [Log Error ''TCP server listen failed'' []] else []);
          s = s\<lparr>m_clientFd := Some accept_ret\<rparr>
      in if accept_ret < 0
         then (s\<lparr>m_isClientConnected := False\<rparr>, es @ [Log Error ''TCP server accept failed'' []])
         else (s\<lparr>m_isClientConnected := True\<rparr>, es @ call_hook ConnectHook (m_onConnect s)))"

definition tcp_close :: "TCPServer \<Rightarrow> (TCPServer \<times> event list) result" where
  "tcp_close s =
     rbind (read_member (m_clientFd s)) (\<lambda>fd.
       Inr (s\<lparr>m_isClientConnected := False\<rparr>,
            [ShutdownFd fd, CloseFd fd, Log Warn ''TCP server: client disconnected'' []]))"

text \<open>\<open>receive\<close>: the result of \<open>::recv\<close> on the client descriptor.\<close>

definition tcp_receive :: "int \<Rightarrow> u16 \<Rightarrow> TCPServer \<Rightarrow> (bool \<times> TCPServer \<times> event list) result" where
  "tcp_receive nbBytesReceived len s =
     rbind (read_member (m_clientFd s)) (\<lambda>_.
       if nbBytesReceived = 0 then
         let es = [Log Warn ''TCP client disconnected'' []] @ call_hook DisconnectHook (m_onDisonnect s);
             s = s\<lparr>m_isClientConnected := False\<rparr>
         in rbind (tcp_close s) (\<lambda>(s, es').
              Inr (nbBytesReceived = uint len, s, es @ es'))
       else Inr (nbBytesReceived = uint len, s, []))"

definition tcp_send :: "int \<Rightarrow> bool" where
  "tcp_send send_ret = (send_ret > -1)"

definition tcp_isClientConnected :: "TCPServer \<Rightarrow> bool" where
  "tcp_isClientConnected s = m_isClientConnected s"

definition tcp_onConnect :: "hook option \<Rightarrow> TCPServer \<Rightarrow> TCPServer" where
  "tcp_onConnect h s = s\<lparr>m_onConnect := h\<rparr>"

definition tcp_onDisconnect :: "hook option \<Rightarrow> TCPServer \<Rightarrow> TCPServer" where
  "tcp_onDisconnect h s = s\<lparr>m_onDisonnect := h\<rparr>"

text \<open>The destructor closes the client and then the server descriptor.\<close>

definition tcp_destroy :: "TCPServer \<Rightarrow> event list result" where
  "tcp_destroy s = rbind (tcp_close s) (\<lambda>(s, es). Inr (es @ [CloseFd (m_serverFd s)]))"

lemmas tcp_defs = tcp_listen_def tcp_close_def tcp_receive_def tcp_send_def
  tcp_isClientConnected_def tcp_onConnect_def tcp_onDisconnect_def


subsection \<open>The connection as a state machine\<close>

datatype tcp_call =
    Listen int int        \<comment> \<open>the results of \<open>::listen\<close> and \<open>::accept\<close>\<close>
  | Receive int u16       \<comment> \<open>the result of \<open>::recv\<close> and the buffer length\<close>
  | Send int              \<comment> \<open>the result of \<open>::send\<close>\<close>
  | Close
  | OnConnect "hook option"
  | OnDisconnect "hook option"

fun tcp_call_step :: "tcp_call \<Rightarrow> TCPServer \<Rightarrow> (TCPServer \<times> event list) result" where
  "tcp_call_step (Listen l a) s = Inr (tcp_listen l a s)"
| "tcp_call_step (Receive r n) s = rbind (tcp_receive r n s) (\<lambda>(_, s, es). Inr (s, es))"
| "tcp_call_step (Send r) s = Inr (s, [])"
| "tcp_call_step Close s = tcp_close s"
| "tcp_call_step (OnConnect h) s = Inr (tcp_onConnect h s, [])"
| "tcp_call_step (OnDisconnect h) s = Inr (tcp_onDisconnect h s, [])"

fun tcp_calls :: "tcp_call list \<Rightarrow> TCPServer \<Rightarrow> (TCPServer \<times> event list) result" where
  "tcp_calls [] s = Inr (s, [])"
| "tcp_calls (c # cs) s =
     rbind (tcp_call_step c s) (\<lambda>(s, es). rbind (tcp_calls cs s) (\<lambda>(s, es'). Inr (s, es @ es')))"

text \<open>Whether the calls so far leave a client connected, by the calls alone.\<close>

fun connected_after :: "tcp_call list \<Rightarrow> bool \<Rightarrow> bool" where
  "connected_after [] b = b"
| "connected_after (Listen l a # cs) b = connected_after cs (0 \<le> a)"
| "connected_after (Receive r n # cs) b = connected_after cs (b \<and> r \<noteq> 0)"
| "connected_after (Close # cs) b = connected_after cs False"
| "connected_after (_ # cs) b = connected_after cs b"

definition tcp_inv :: "TCPServer \<Rightarrow> bool" where
  "tcp_inv s \<longleftrightarrow> (m_isClientConnected s \<longrightarrow> (\<exists>fd \<ge> 0. m_clientFd s = Some fd))"

lemma tcp_inv_new [simp]: "tcp_inv (fst (new_TCPServer port a b c))"
  by (simp add: tcp_inv_def new_TCPServer_def tcp_init_def)

lemma tcp_call_step_inv: "tcp_call_step c s = Inr (s', es) \<Longrightarrow> tcp_inv s \<Longrightarrow> tcp_inv s'"
  by (cases c) (auto simp: tcp_inv_def tcp_defs Let_def rbind_eq_Inr split: if_splits)

lemma tcp_call_step_connected:
  "tcp_call_step c s = Inr (s', es) \<Longrightarrow>
   m_isClientConnected s' = connected_after [c] (m_isClientConnected s)"
  by (cases c) (auto simp: tcp_defs Let_def rbind_eq_Inr split: if_splits)

lemma connected_after_Cons: "connected_after (c # cs) b = connected_after cs (connected_after [c] b)"
  by (cases c) auto

lemma tcp_client_kept:
  "tcp_call_step c s = Inr (s', es) \<Longrightarrow> m_clientFd s \<noteq> None \<Longrightarrow> m_clientFd s' \<noteq> None"
  by (cases c) (auto simp: tcp_defs Let_def rbind_eq_Inr split: if_splits)

text \<open>
  \<open>isClientConnected\<close> reports exactly what the history of calls says: a client is connected
  when the last \<open>accept\<close> succeeded and since then no \<open>recv\<close> returned 0 and no \<open>close\<close> ran; and
  then there is a valid client descriptor.
\<close>

theorem connection_state:
  assumes "tcp_calls cs (fst (new_TCPServer port a b c)) = Inr (s, es)"
  shows "tcp_isClientConnected s = connected_after cs False \<and>
    (tcp_isClientConnected s \<longrightarrow> (\<exists>fd \<ge> 0. m_clientFd s = Some fd))"
proof -
  have "m_isClientConnected s = connected_after cs (m_isClientConnected s0) \<and> tcp_inv s"
    if "tcp_calls cs s0 = Inr (s, es)" "tcp_inv s0" for s0
    using that
  proof (induction cs arbitrary: s0 es)
    case Nil
    then show ?case by simp
  next
    case (Cons d ds)
    from Cons.prems(1) obtain s1 es1 es2
      where d: "tcp_call_step d s0 = Inr (s1, es1)" and ds: "tcp_calls ds s1 = Inr (s, es2)"
      by (auto simp: rbind_eq_Inr)
    have "tcp_inv s1"
      using d Cons.prems(2) by (rule tcp_call_step_inv)
    from Cons.IH [OF ds this] show ?case
      unfolding connected_after_Cons [of d ds] tcp_call_step_connected [OF d] .
  qed
  from this [OF assms tcp_inv_new] show ?thesis
    by (simp add: tcp_isClientConnected_def tcp_inv_def new_TCPServer_def tcp_init_def)
qed

text \<open>
  A lost connection runs the disconnect hook exactly once, before the client descriptor is shut
  down and closed, and leaves no client connected; no other result of \<open>recv\<close>, its error \<open>-1\<close>
  included, changes the connection.
\<close>

theorem receive_disconnect:
  assumes "m_clientFd s = Some fd"
  shows "tcp_receive r n s =
    (if r = 0
     then Inr (n = 0, s\<lparr>m_isClientConnected := False\<rparr>,
            [Log Warn ''TCP client disconnected'' []] @ call_hook DisconnectHook (m_onDisonnect s) @
            [ShutdownFd fd, CloseFd fd, Log Warn ''TCP server: client disconnected'' []])
     else Inr (r = uint n, s, []))"
proof -
  have "(0 = uint n) = (n = 0)" by (metis uint_0_iff)
  then show ?thesis using assms by (simp add: tcp_receive_def tcp_close_def Let_def)
qed


subsection \<open>A concrete connection\<close>

theorem connection_state_witness:
  "\<exists>s es. tcp_calls [Listen 0 4, Receive 8 8, Receive 0 8] (fst (new_TCPServer 5000 3 0 0)) = Inr (s, es) \<and>
    \<not> tcp_isClientConnected s"
proof -
  let ?cs = "[Listen 0 4, Receive 8 8, Receive 0 8]"
  have "ok (tcp_calls ?cs (fst (new_TCPServer 5000 3 0 0)))"
    by (simp add: new_TCPServer_def tcp_init_def tcp_defs Let_def call_hook_def)
  then obtain s es where "tcp_calls ?cs (fst (new_TCPServer 5000 3 0 0)) = Inr (s, es)"
    by (auto simp: ok_iff)
  from connection_state [OF this] this show ?thesis by simp
qed

theorem receive_disconnect_witness:
  "\<exists>s. tcp_receive 0 8 (fst (tcp_listen 0 4 (fst (new_TCPServer 5000 3 0 0)))) =
    Inr (False, s, [Log Warn ''TCP client disconnected'' [], ShutdownFd 4, CloseFd 4,
      Log Warn ''TCP server: client disconnected'' []])"
proof -
  let ?s = "fst (tcp_listen 0 4 (fst (new_TCPServer 5000 3 0 0)))"
  have "m_clientFd ?s = Some 4" "m_onDisonnect ?s = None"
    by (simp_all add: tcp_listen_def new_TCPServer_def tcp_init_def Let_def)
  with receive_disconnect [OF this(1), of 0 8] show ?thesis by (simp add: call_hook_def)
qed

end
