(* ===== verification/HiveMindBridgeImpl.thy ===== *)
theory HiveMindBridgeImpl
  imports Prelude Pheromones ThreadSafeQueue Handles MessageUtils MessageHandler TCPServer
begin

section \<open>HiveMindBridgeImpl\<close>

text \<open>
  The bridge itself: its state, the application loop \<open>spin\<close>, the two threads that move messages
  between the connection and the queues, and the operations of the user's interface. Every
  definition is the translation of one method; the parameters \<open>ph\<close> and \<open>rnd\<close> are the Pheromones
  library and the successive results of \<open>rand()\<close>.
\<close>

subsection \<open>State\<close>

definition THREAD_SLEEP_MS :: int where "THREAD_SLEEP_MS = 1"

definition DELAY_BRFORE_DROP_S :: int where "DELAY_BRFORE_DROP_S = 10"

text \<open>A \<open>std::thread\<close>: not joinable, or joinable and its function running or returned.\<close>

datatype thread = NoThread | RunningThread | FinishedThread

definition joinable :: "thread \<Rightarrow> bool" where
  "joinable t = (t \<noteq> NoThread)"

definition join :: "thread \<Rightarrow> thread" where
  "join t = NoThread"

definition start_thread :: "thread \<Rightarrow> thread result" where
  "start_thread t = (if joinable t then Inl JoinableThread else Inr RunningThread)"

record HiveMindBridgeImpl =
  m_tcpServer :: TCPServer
  m_messageHandler :: MessageHandler
  m_inboundQueue :: "MessageDTO ThreadSafeQueue"
  m_inboundThread :: thread
  m_outboundQueue :: "OutboundRequestHandle ThreadSafeQueue"
  m_outboundThread :: thread
  m_inboundRequestsQueue :: "InboundRequestHandle list"
  m_inboundResponsesMap :: "u32 \<rightharpoonup> InboundResponseHandle"
  m_swarmAgentID :: u32
  m_keepAliveNbSpin :: u32
  m_keepAliveCounter :: u32
  rand_calls :: nat                 \<comment> \<open>how often \<open>rand()\<close> was called\<close>

text \<open>The constructor: it is given its components and starts with no thread and nothing to do.\<close>

definition new_HiveMindBridgeImpl ::
  "TCPServer \<Rightarrow> MessageHandler \<Rightarrow> MessageDTO ThreadSafeQueue \<Rightarrow>
    OutboundRequestHandle ThreadSafeQueue \<Rightarrow> u32 \<Rightarrow> HiveMindBridgeImpl" where
  "new_HiveMindBridgeImpl tcpServer messageHandler inboundQueue outboundQueue keepAliveNbSpin =
     \<lparr>m_tcpServer = tcpServer, m_messageHandler = messageHandler,
      m_inboundQueue = inboundQueue, m_inboundThread = NoThread,
      m_outboundQueue = outboundQueue, m_outboundThread = NoThread,
      m_inboundRequestsQueue = [], m_inboundResponsesMap = Map.empty,
      m_swarmAgentID = 0, m_keepAliveNbSpin = keepAliveNbSpin, m_keepAliveCounter = 0,
      rand_calls = 0\<rparr>"

abbreviation user_calls :: "HiveMindBridgeImpl \<Rightarrow> UserCallRequestHandler" where
  "user_calls b \<equiv> m_userCallRequestHandler (m_messageHandler b)"

abbreviation callback_map :: "HiveMindBridgeImpl \<Rightarrow> UserCallbackMap" where
  "callback_map b \<equiv> m_callbackMap (user_calls b)"

abbreviation outbound :: "HiveMindBridgeImpl \<Rightarrow> OutboundRequestHandle list" where
  "outbound b \<equiv> m_queue (m_outboundQueue b)"

abbreviation inbound :: "HiveMindBridgeImpl \<Rightarrow> MessageDTO list" where
  "inbound b \<equiv> m_queue (m_inboundQueue b)"

definition isTCPClientConnected :: "HiveMindBridgeImpl \<Rightarrow> bool" where
  "isTCPClientConnected b = tcp_isClientConnected (m_tcpServer b)"

definition getSwarmAgentId :: "HiveMindBridgeImpl \<Rightarrow> u32" where
  "getSwarmAgentId b = m_swarmAgentID b"

definition nextRandomId :: "(nat \<Rightarrow> int) \<Rightarrow> HiveMindBridgeImpl \<Rightarrow> u32 \<times> HiveMindBridgeImpl" where
  "nextRandomId rnd b =
     (generateRandomId (rnd (rand_calls b)), b\<lparr>rand_calls := Suc (rand_calls b)\<rparr>)"


subsection \<open>Sending\<close>

definition queueAndSend :: "MessageDTO \<Rightarrow> HiveMindBridgeImpl \<Rightarrow> bool \<times> HiveMindBridgeImpl" where
  "queueAndSend message b =
     (if isTCPClientConnected b
      then (let handle = mk_OutboundRequestHandle message
            in (True, b\<lparr>m_outboundQueue := push handle (m_outboundQueue b)\<rparr>))
      else (False, b))"

definition sendNeighborUpdateRequest ::
  "(nat \<Rightarrow> int) \<Rightarrow> u16 \<Rightarrow> HiveMindBridgeImpl \<Rightarrow> bool \<times> HiveMindBridgeImpl" where
  "sendNeighborUpdateRequest rnd neighborId b =
     (let hmReq = GetNeighborRequest neighborId;
          (i, b) = nextRandomId rnd b;
          req = \<lparr>getRequestId = i, getRequest = HostApiRequest hmReq\<rparr>;
          msg = \<lparr>getSourceId = getSwarmAgentId b, getDestinationId = getSwarmAgentId b,
                 getMessage = Request req\<rparr>
      in queueAndSend msg b)"

definition sendNeighborListUpdateRequest ::
  "(nat \<Rightarrow> int) \<Rightarrow> HiveMindBridgeImpl \<Rightarrow> bool \<times> HiveMindBridgeImpl" where
  "sendNeighborListUpdateRequest rnd b =
     (let hmReq = GetNeighborsListRequest;
          (i, b) = nextRandomId rnd b;
          req = \<lparr>getRequestId = i, getRequest = HostApiRequest hmReq\<rparr>;
          msg = \<lparr>getSourceId = getSwarmAgentId b, getDestinationId = getSwarmAgentId b,
                 getMessage = Request req\<rparr>
      in queueAndSend msg b)"

text \<open>
  \<open>std::ceil((float)a / b)\<close> for \<open>0 < b\<close>: \<open>a\<close> below \<open>2 ^ 24\<close> is exact as a \<open>float\<close>; the quotient
  is rounded to a 24-bit significand \<open>m / 2 ^ e\<close>, to nearest with ties to even, and then to the
  next integer.
\<close>

function f32_scale :: "nat \<Rightarrow> nat \<Rightarrow> nat \<Rightarrow> nat" where
  "f32_scale a b e = (if 0 < a \<and> a * 2 ^ e < 2 ^ 23 * b then f32_scale a b (Suc e) else e)"
  by pat_completeness auto
termination
  by (relation "measure (\<lambda>(a, b, e). 2 ^ 23 * b - a * 2 ^ e)") (auto simp: diff_less_mono2)

declare f32_scale.simps [simp del]

definition f32_mantissa :: "nat \<Rightarrow> nat \<Rightarrow> nat \<Rightarrow> nat" where
  "f32_mantissa a b e =
     (let q = a * 2 ^ e div b; r = a * 2 ^ e mod b
      in if b < 2 * r \<or> (2 * r = b \<and> odd q) then q + 1 else q)"

definition f32_ceil_div :: "nat \<Rightarrow> nat \<Rightarrow> nat" where
  "f32_ceil_div a b =
     (let e = f32_scale a b 0 in (f32_mantissa a b e + 2 ^ e - 1) div 2 ^ e)"

text \<open>
  The loop of \<open>sendBytes\<close> from \<open>packetNumber\<close> on. \<open>payload\<close> is the memory the pointer reaches;
  \<open>packetSize\<close> is a \<open>uint8_t\<close> and \<open>packetStartIndex\<close> a \<open>uint16_t\<close>, the rest is \<open>int\<close>.
\<close>

function sendBytes_loop ::
  "pheromones \<Rightarrow> (nat \<Rightarrow> int) \<Rightarrow> u32 \<Rightarrow> u8 list \<Rightarrow> u16 \<Rightarrow> nat \<Rightarrow> u32 \<Rightarrow> nat \<Rightarrow> HiveMindBridgeImpl \<Rightarrow>
    bool \<times> HiveMindBridgeImpl \<times> event list" where
  "sendBytes_loop ph rnd destinationId payload payloadSize nPackets bytesReqId packetNumber b =
     (if packetNumber < nPackets then
        let isLastPacket = (int packetNumber = int nPackets - 1);
            packetSize = (word_of_nat (PAYLOAD_MAX_SIZE ph) :: u8);
            packetStartIndex = (word_of_nat (packetNumber * PAYLOAD_MAX_SIZE ph) :: u16);
            packetSize =
              (if isLastPacket
               then (word_of_int ((uint payloadSize - int packetNumber * int (PAYLOAD_MAX_SIZE ph))
                       mod int (PAYLOAD_MAX_SIZE ph)) :: u8)
               else packetSize);
            packetStart = drop (unat packetStartIndex) payload;
            (requestId, b) = nextRandomId rnd b
        in case createBytesMessage ph (m_swarmAgentID b) destinationId requestId bytesReqId
                  (word_of_nat packetNumber) isLastPacket packetStart (ucast packetSize) of
             Some msg \<Rightarrow>
               (let (sent, b) = queueAndSend msg b
                in if \<not> sent then (False, b, [Log Error ''Sending bytes failed'' []])
                   else sendBytes_loop ph rnd destinationId payload payloadSize nPackets bytesReqId
                          (Suc packetNumber) b)
           | None \<Rightarrow> (False, b, [Log Error ''Bytes message creation failed'' []])
      else (True, b, []))"
  by pat_completeness auto
termination
  by (relation "measure (\<lambda>(ph, rnd, d, p, s, n, r, i, b). n - i)") auto

declare sendBytes_loop.simps [simp del]

definition sendBytes ::
  "pheromones \<Rightarrow> (nat \<Rightarrow> int) \<Rightarrow> u32 \<Rightarrow> u8 list \<Rightarrow> u16 \<Rightarrow> HiveMindBridgeImpl \<Rightarrow>
    bool \<times> HiveMindBridgeImpl \<times> event list" where
  "sendBytes ph rnd destinationId payload payloadSize b =
     (let nPackets = f32_ceil_div (unat payloadSize) (PAYLOAD_MAX_SIZE ph);
          (bytesReqId, b) = nextRandomId rnd b
      in sendBytes_loop ph rnd destinationId payload payloadSize nPackets bytesReqId 0 b)"


subsection \<open>The application loop\<close>

definition sendReturn ::
  "pheromones \<Rightarrow> (nat \<Rightarrow> int) \<Rightarrow> InboundRequestHandle \<Rightarrow> HiveMindBridgeImpl \<Rightarrow>
    (HiveMindBridgeImpl \<times> event list) result" where
  "sendReturn ph rnd result b =
     rbind (future_get (user_calls b) (getCallbackReturnContext result)) (\<lambda>callbackReturnOpt.
       case callbackReturnOpt of
         None \<Rightarrow> Inr (b, [])
       | Some callbackReturn \<Rightarrow>
           let args = getReturnArgs callbackReturn in
           if FUNCTION_CALL_ARGUMENTS_MAX_LENGTH ph < length args then
             Inr (b, [Log Error
               ''Return function contains too many arguments.The limit is currently set to %d arguments''
               [max_arguments_arg ph]])
           else
             rbind (getMessageDestinationId result) (\<lambda>src.
             rbind (getMessageSourceId result) (\<lambda>dst.
             rbind (getSourceModule result) (\<lambda>target.
               let (requestId, b) = nextRandomId rnd b;
                   returnMessage = createFunctionCallRequest ph src dst requestId target
                     (getReturnFunctionName callbackReturn) args
               in Inr (b, [SerializeToStream returnMessage])))))"

text \<open>The loop over \<open>m_inboundRequestsQueue\<close>: the handles it keeps, in order.\<close>

fun sweep_requests ::
  "pheromones \<Rightarrow> (nat \<Rightarrow> int) \<Rightarrow> InboundRequestHandle list \<Rightarrow> HiveMindBridgeImpl \<Rightarrow>
    (InboundRequestHandle list \<times> HiveMindBridgeImpl \<times> event list) result" where
  "sweep_requests ph rnd [] b = Inr ([], b, [])"
| "sweep_requests ph rnd (h # hs) b =
     (case getCallbackReturnContext h of
        Some i \<Rightarrow>
          if is_ready (user_calls b) i then
            rbind (sendReturn ph rnd h b) (\<lambda>(b, es).
              rbind (sweep_requests ph rnd hs b) (\<lambda>(kept, b, es'). Inr (kept, b, es @ es')))
          else
            rbind (sweep_requests ph rnd hs b) (\<lambda>(kept, b, es'). Inr (h # kept, b, es'))
      | None \<Rightarrow> sweep_requests ph rnd hs b)"

definition spin_receive ::
  "pheromones \<Rightarrow> HiveMindBridgeImpl \<Rightarrow> (HiveMindBridgeImpl \<times> event list) result" where
  "spin_receive ph b =
     (if \<not> empty (m_inboundQueue b) then
        rbind (front (m_inboundQueue b)) (\<lambda>message.
        rbind (MessageHandler_handleMessage ph message (m_messageHandler b)) (\<lambda>(vHandle, mh, es).
        rbind (pop (m_inboundQueue b)) (\<lambda>q.
          let b = b\<lparr>m_messageHandler := mh, m_inboundQueue := q\<rparr> in
          case vHandle of
            HandledRequest handle \<Rightarrow>
              Inr (b\<lparr>m_inboundRequestsQueue := m_inboundRequestsQueue b @ [handle]\<rparr>,
                   es @ [SerializeToStream (getRequestResponse handle)])
          | HandledResponse handle \<Rightarrow>
              Inr (b\<lparr>m_inboundResponsesMap :=
                       (m_inboundResponsesMap b)(getResponseId handle \<mapsto> handle)\<rparr>, es)
          | NoHandle \<Rightarrow> Inr (b, es))))
      else Inr (b, []))"

definition spin_connected ::
  "pheromones \<Rightarrow> (nat \<Rightarrow> int) \<Rightarrow> HiveMindBridgeImpl \<Rightarrow> (HiveMindBridgeImpl \<times> event list) result" where
  "spin_connected ph rnd b =
     rbind (spin_receive ph b) (\<lambda>(b, es).
     rbind (sweep_requests ph rnd (m_inboundRequestsQueue b) b) (\<lambda>(kept, b, es').
       Inr (b\<lparr>m_inboundRequestsQueue := kept\<rparr>, es @ es')))"

text \<open>
  A call of the library's \<open>deserializeFromStream\<close> reads the connection with calls of \<open>receive\<close>
  and yields a flag and the message it filled in. All three are the environment's choice.
\<close>

record stream_read =
  recv_results :: "(int \<times> u16) list"
  read_ok :: bool
  read_message :: MessageDTO

fun receive_calls :: "(int \<times> u16) list \<Rightarrow> TCPServer \<Rightarrow> (TCPServer \<times> event list) result" where
  "receive_calls [] s = Inr (s, [])"
| "receive_calls ((r, n) # rs) s =
     rbind (tcp_receive r n s) (\<lambda>(_, s, es).
       rbind (receive_calls rs s) (\<lambda>(s, es'). Inr (s, es @ es')))"

definition deserializeFromStream ::
  "stream_read \<Rightarrow> HiveMindBridgeImpl \<Rightarrow> (bool \<times> MessageDTO \<times> HiveMindBridgeImpl \<times> event list) result"
where
  "deserializeFromStream d b =
     rbind (receive_calls (recv_results d) (m_tcpServer b)) (\<lambda>(s, es).
       Inr (read_ok d, read_message d, b\<lparr>m_tcpServer := s\<rparr>, es))"

definition greet ::
  "stream_read \<Rightarrow> HiveMindBridgeImpl \<Rightarrow> (bool \<times> HiveMindBridgeImpl \<times> event list) result" where
  "greet d b =
     (if isTCPClientConnected b then
        let message = createGreetMessage in
        rbind (deserializeFromStream d b) (\<lambda>(_, greetResponse, b, es).
          case handleGreet greetResponse of
            Some swarmAgentId \<Rightarrow>
              Inr (True, b\<lparr>m_swarmAgentID := swarmAgentId\<rparr>, SerializeToStream message # es)
          | None \<Rightarrow> Inr (False, b, SerializeToStream message # es))
      else Inr (False, b, []))"

record accept_env =
  listen_result :: int
  accept_result :: int
  greet_read :: stream_read

definition spin_reconnect ::
  "accept_env \<Rightarrow> HiveMindBridgeImpl \<Rightarrow> (HiveMindBridgeImpl \<times> event list) result" where
  "spin_reconnect env b =
     (let b = (if joinable (m_inboundThread b)
               then b\<lparr>m_inboundThread := join (m_inboundThread b)\<rparr> else b);
          b = (if joinable (m_outboundThread b)
               then b\<lparr>m_outboundThread := join (m_outboundThread b)\<rparr> else b);
          (s, es) = tcp_listen (listen_result env) (accept_result env) (m_tcpServer b);
          b = b\<lparr>m_tcpServer := s\<rparr>
      in rbind (greet (greet_read env) b) (\<lambda>(greeted, b, es').
           if greeted then
             rbind (start_thread (m_inboundThread b)) (\<lambda>t.
             let b = b\<lparr>m_inboundThread := t\<rparr> in
             rbind (start_thread (m_outboundThread b)) (\<lambda>t.
               Inr (b\<lparr>m_outboundThread := t\<rparr>, es @ es')))
           else
             rbind (tcp_close (m_tcpServer b)) (\<lambda>(s, es'').
               Inr (b\<lparr>m_tcpServer := s\<rparr>, es @ es' @ es''))))"

definition spin_keepAlive :: "HiveMindBridgeImpl \<Rightarrow> HiveMindBridgeImpl" where
  "spin_keepAlive b =
     (if 0 < m_keepAliveNbSpin b then
        let b = (if m_keepAliveNbSpin b \<le> m_keepAliveCounter b
                 then (let b = b\<lparr>m_keepAliveCounter := 0\<rparr>;
                           message = createGreetMessage
                       in snd (queueAndSend message b))
                 else b)
        in b\<lparr>m_keepAliveCounter := m_keepAliveCounter b + 1\<rparr>
      else b)"

definition spin ::
  "pheromones \<Rightarrow> (nat \<Rightarrow> int) \<Rightarrow> accept_env \<Rightarrow> HiveMindBridgeImpl \<Rightarrow>
    (HiveMindBridgeImpl \<times> event list) result" where
  "spin ph rnd env b =
     rbind (if isTCPClientConnected b then spin_connected ph rnd b else spin_reconnect env b)
       (\<lambda>(b, es). Inr (spin_keepAlive b, es))"


subsection \<open>The two threads\<close>

text \<open>One turn of the loop of \<open>outboundThread\<close>, and of that of \<open>inboundThread\<close>.\<close>

definition outbound_turn :: "HiveMindBridgeImpl \<Rightarrow> (HiveMindBridgeImpl \<times> event list) result" where
  "outbound_turn b =
     (if \<not> empty (m_outboundQueue b) then
        rbind (front (m_outboundQueue b)) (\<lambda>handle.
        rbind (pop (m_outboundQueue b)) (\<lambda>q.
          let b = b\<lparr>m_outboundQueue := q\<rparr>;
              outboundMessage = getOutboundMessage handle
          in case getMessage outboundMessage of
               Request request \<Rightarrow>
                 (case m_inboundResponsesMap b (getRequestId request) of
                    Some _ \<Rightarrow>
                      Inr (b\<lparr>m_inboundResponsesMap :=
                               (m_inboundResponsesMap b)(getRequestId request := None)\<rparr>,
                           [Log Debug ''RECEIVED VALID RESPONSE'' []])
                  | None \<Rightarrow>
                      if getState handle = READY then
                        let handle = setState SENT handle in
                        Inr (b\<lparr>m_outboundQueue := push handle (m_outboundQueue b)\<rparr>,
                             [SerializeToStream outboundMessage])
                      else
                        let (delay, handle) = bumpDelaySinceSent THREAD_SLEEP_MS handle in
                        if DELAY_BRFORE_DROP_S \<le> delay then Inr (b, [])
                        else Inr (b\<lparr>m_outboundQueue := push handle (m_outboundQueue b)\<rparr>, []))
             | Greeting _ \<Rightarrow> Inr (b, [SerializeToStream outboundMessage])
             | _ \<Rightarrow> Inr (b, [Log Warn ''Outbound queue contains an unsupported message'' []])))
      else Inr (b, []))"

definition outboundThread_step :: "HiveMindBridgeImpl \<Rightarrow> (HiveMindBridgeImpl \<times> event list) result" where
  "outboundThread_step b =
     (if isTCPClientConnected b then outbound_turn b
      else Inr (b\<lparr>m_outboundThread := FinishedThread\<rparr>, []))"

definition inbound_turn ::
  "stream_read \<Rightarrow> HiveMindBridgeImpl \<Rightarrow> (HiveMindBridgeImpl \<times> event list) result" where
  "inbound_turn d b =
     rbind (deserializeFromStream d b) (\<lambda>(success, message, b, es).
       if success then Inr (b\<lparr>m_inboundQueue := push message (m_inboundQueue b)\<rparr>, es)
       else Inr (b, es))"

definition inboundThread_step ::
  "stream_read \<Rightarrow> HiveMindBridgeImpl \<Rightarrow> (HiveMindBridgeImpl \<times> event list) result" where
  "inboundThread_step d b =
     (if isTCPClientConnected b then inbound_turn d b
      else Inr (b\<lparr>m_inboundThread := FinishedThread\<rparr>, []))"


subsection \<open>Registration and destruction\<close>

definition bridge_onConnect :: "hook option \<Rightarrow> HiveMindBridgeImpl \<Rightarrow> HiveMindBridgeImpl" where
  "bridge_onConnect h b = b\<lparr>m_tcpServer := tcp_onConnect h (m_tcpServer b)\<rparr>"

definition bridge_onDisconnect :: "hook option \<Rightarrow> HiveMindBridgeImpl \<Rightarrow> HiveMindBridgeImpl" where
  "bridge_onDisconnect h b = b\<lparr>m_tcpServer := tcp_onDisconnect h (m_tcpServer b)\<rparr>"

definition bridge_onBytesReceived ::
  "hook option \<Rightarrow> HiveMindBridgeImpl \<Rightarrow> bool \<times> HiveMindBridgeImpl" where
  "bridge_onBytesReceived callback b =
     (let (r, q) = onBytesReceived callback (m_hmRequestHandler (m_messageHandler b))
      in (r, b\<lparr>m_messageHandler := (m_messageHandler b)\<lparr>m_hmRequestHandler := q\<rparr>\<rparr>))"

definition set_callback_map :: "UserCallbackMap \<Rightarrow> HiveMindBridgeImpl \<Rightarrow> HiveMindBridgeImpl" where
  "set_callback_map m b = b\<lparr>m_messageHandler := (m_messageHandler b)
     \<lparr>m_userCallRequestHandler := (user_calls b)\<lparr>m_callbackMap := m\<rparr>\<rparr>\<rparr>"

definition registerCustomAction ::
  "string \<Rightarrow> CallbackFunction \<Rightarrow> CallbackArgsManifest \<Rightarrow> HiveMindBridgeImpl \<Rightarrow> bool \<times> HiveMindBridgeImpl"
where
  "registerCustomAction name callback manifest b =
     (let (r, m) = registerCallback name callback manifest (callback_map b)
      in (r, set_callback_map m b))"

definition registerCustomAction_noManifest ::
  "string \<Rightarrow> CallbackFunction \<Rightarrow> HiveMindBridgeImpl \<Rightarrow> bool \<times> HiveMindBridgeImpl" where
  "registerCustomAction_noManifest name callback b =
     (let (r, m) = registerCallback_noManifest name callback (callback_map b)
      in (r, set_callback_map m b))"


subsection \<open>A concrete bridge\<close>

text \<open>A bridge with a client on descriptor 4, for the witnesses.\<close>

definition sample_message_handler :: MessageHandler where
  "sample_message_handler =
     \<lparr>m_userCallRequestHandler = \<lparr>m_callbackMap = empty_callback_map, m_calls = []\<rparr>,
      m_hmRequestHandler = \<lparr>m_bytesAccumulatorMap = Map.empty, m_bytesReceivedCallback = Some 7\<rparr>,
      m_hmResponseHandler = new_response_handler\<rparr>"

definition sample_bridge :: HiveMindBridgeImpl where
  "sample_bridge = new_HiveMindBridgeImpl
     (fst (tcp_listen 0 4 (fst (new_TCPServer 5000 3 0 0)))) sample_message_handler
     new_queue new_queue 2"

lemma sample_bridge_simps [simp]:
  "isTCPClientConnected sample_bridge"
  "outbound sample_bridge = []" "inbound sample_bridge = []"
  "m_inboundRequestsQueue sample_bridge = []" "m_inboundResponsesMap sample_bridge = Map.empty"
  "rand_calls sample_bridge = 0" "m_keepAliveNbSpin sample_bridge = 2"
  "m_keepAliveCounter sample_bridge = 0" "m_messageHandler sample_bridge = sample_message_handler"
  by (simp_all add: sample_bridge_def new_HiveMindBridgeImpl_def isTCPClientConnected_def
      tcp_isClientConnected_def tcp_listen_def new_TCPServer_def tcp_init_def Let_def)

end
