(* ===== verification/SendBytes.thy ===== *)
theory SendBytes imports Prelude Pheromones HostApiRequestHandler HiveMindBridgeImpl begin

section \<open>Sending a payload in packets\<close>

text \<open>
  What \<open>sendBytes\<close> puts on the outbound queue, and what a receiver that runs the same code makes of
  it: the number of packets computed with floating point is the exact one, the packets form a
  stream in the sense of the receiver, and the payload that is rebuilt is the payload sent, except
  that a payload whose size is a multiple of the packet size loses its last packet's bytes.
\<close>

subsection \<open>The number of packets\<close>

lemma f32_scale_ge: "0 < a \<Longrightarrow> 2 ^ 23 * b \<le> a * 2 ^ f32_scale a b e"
proof (induction a b e rule: f32_scale.induct)
  case (1 a b e)
  show ?case
  proof (cases "a * 2 ^ e < 2 ^ 23 * b")
    case True
    then have "f32_scale a b e = f32_scale a b (Suc e)"
      using "1.prems" by (simp add: f32_scale.simps [of a b e])
    then show ?thesis using "1.IH" "1.prems" True by simp
  next
    case False
    then show ?thesis using "1.prems" by (simp add: f32_scale.simps [of a b e])
  qed
qed

lemma nat_ceil_eqI:
  fixes k m E :: nat
  assumes "0 < E" "(k - 1) * E < m" "m \<le> k * E" "0 < k"
  shows "(m + E - 1) div E = k"
proof -
  obtain j where k: "k = Suc j" using assms(4) by (cases k) auto
  have "k * E \<le> m + E - 1" "m + E - 1 < (k + 1) * E"
    using assms by (auto simp: k algebra_simps)
  then show ?thesis
    by (intro div_nat_eqI) (auto simp: algebra_simps)
qed

lemma f32_mantissa_bounds:
  assumes b: "0 < b" "b \<le> 2 ^ e" and a: "(k - 1) * b < a" "a \<le> k * b" and k: "0 < k"
  shows "(k - 1) * 2 ^ e < f32_mantissa a b e" "f32_mantissa a b e \<le> k * 2 ^ e"
proof -
  let ?E = "2 ^ e :: nat" and ?N = "a * 2 ^ e" and ?q = "a * 2 ^ e div b"
  have "((k - 1) * b + 1) * ?E \<le> ?N"
    using a(1) by (intro mult_right_mono) simp_all
  then have "(k - 1) * ?E * b + b \<le> ?N"
    using b(2) by (simp add: algebra_simps)
  then have "((k - 1) * ?E + 1) * b \<le> ?N" by (simp add: algebra_simps)
  then have "(k - 1) * ?E + 1 \<le> ?q"
    using b(1) by (simp add: less_eq_div_iff_mult_less_eq)
  then show "(k - 1) * ?E < f32_mantissa a b e"
    by (auto simp: f32_mantissa_def Let_def)
  have N: "?N \<le> (k * ?E) * b"
    using a(2) mult_right_mono [of a "k * b" ?E] by (simp add: algebra_simps)
  then have q: "?q \<le> k * ?E"
    using div_le_mono [of ?N "(k * ?E) * b" b] b(1) by simp
  show "f32_mantissa a b e \<le> k * ?E"
  proof (cases "?q = k * ?E")
    case True
    then have "?N mod b = 0"
      using N by (metis div_mult_mod_eq le_add1 add_diff_cancel_left' diff_is_0_eq)
    then show ?thesis using True b(1) by (simp add: f32_mantissa_def Let_def)
  next
    case False
    then show ?thesis using q by (auto simp: f32_mantissa_def Let_def)
  qed
qed

lemma f32_ceil_div_exact:
  assumes "a < 65536" "0 < b"
  shows "f32_ceil_div a b = (a + b - 1) div b"
proof (cases "a = 0")
  case True
  then show ?thesis
    using assms by (simp add: f32_ceil_div_def f32_scale.simps [of 0 b 0] f32_mantissa_def)
next
  case False
  let ?e = "f32_scale a b 0" and ?k = "(a + b - 1) div b"
  have "2 ^ 23 * b \<le> a * 2 ^ ?e" using f32_scale_ge False by simp
  also have "\<dots> \<le> 65536 * 2 ^ ?e" using assms(1) by simp
  finally have E: "b \<le> 2 ^ ?e" by simp
  have k: "0 < ?k" using False assms(2) by (simp add: div_greater_zero_iff)
  then obtain j where j: "?k = Suc j" by (cases ?k) auto
  have le: "a \<le> ?k * b"
    using div_mult_mod_eq [of "a + b - 1" b] mod_less_divisor [OF assms(2), of "a + b - 1"] by linarith
  have "Suc j * b \<le> a + b - 1"
    unfolding j [symmetric] by (rule div_times_less_eq_dividend)
  then have "j * b < a" using False assms(2) by simp
  then have less: "(?k - 1) * b < a" unfolding j by simp
  show ?thesis
    unfolding f32_ceil_div_def Let_def
    using f32_mantissa_bounds [OF assms(2) E less le k] k by (intro nat_ceil_eqI) auto
qed


lemma packet_count:
  assumes "bytes_laws ph"
  shows "f32_ceil_div (unat (n :: u16)) (PAYLOAD_MAX_SIZE ph) =
    (unat n + PAYLOAD_MAX_SIZE ph - 1) div PAYLOAD_MAX_SIZE ph"
  using f32_ceil_div_exact [OF u16_bound [of n] bytes_lawsD(1) [OF assms]] .


subsection \<open>The packets on the queue\<close>

definition packet_size :: "nat \<Rightarrow> nat \<Rightarrow> nat \<Rightarrow> nat \<Rightarrow> nat" where
  "packet_size p nbytes n i = (if Suc i = n then (nbytes - i * p) mod p else p)"

definition packet :: "pheromones \<Rightarrow> u8 list \<Rightarrow> nat \<Rightarrow> nat \<Rightarrow> u32 \<Rightarrow> nat \<Rightarrow> BytesDTO" where
  "packet ph payload nbytes n k i =
     mk_BytesDTO ph k (word_of_nat i) (Suc i = n) (drop (i * PAYLOAD_MAX_SIZE ph) payload)
       (word_of_nat (packet_size (PAYLOAD_MAX_SIZE ph) nbytes n i))"

definition packet_handle :: "u32 \<Rightarrow> u32 \<Rightarrow> u32 \<Rightarrow> BytesDTO \<Rightarrow> OutboundRequestHandle" where
  "packet_handle src dst rid b = mk_OutboundRequestHandle
     \<lparr>getSourceId = src, getDestinationId = dst,
      getMessage = Request \<lparr>getRequestId = rid, getRequest = HostApiRequest (BytesRequest b)\<rparr>\<rparr>"

text \<open>The payload packets among queued messages, as the receiver's dispatcher reads them.\<close>

fun bytes_packets :: "OutboundRequestHandle list \<Rightarrow> BytesDTO list" where
  "bytes_packets [] = []"
| "bytes_packets (h # hs) =
     (case getMessage (m_message h) of
        Request r \<Rightarrow>
          (case getRequest r of
             HostApiRequest (BytesRequest b) \<Rightarrow> b # bytes_packets hs
           | _ \<Rightarrow> bytes_packets hs)
      | _ \<Rightarrow> bytes_packets hs)"

lemma bytes_packets_handles: "bytes_packets (map (\<lambda>i. packet_handle s d (f i) (g i)) xs) = map g xs"
  by (induction xs) (simp_all add: packet_handle_def mk_OutboundRequestHandle_def)

lemma packet_size_le:
  assumes "0 < p"
  shows "packet_size p nbytes n i \<le> p"
  using assms by (simp add: packet_size_def less_imp_le)

lemma queueAndSend_connected:
  "isTCPClientConnected b \<Longrightarrow>
   queueAndSend m b = (True, b\<lparr>m_outboundQueue := push (mk_OutboundRequestHandle m) (m_outboundQueue b)\<rparr>)"
  by (simp add: queueAndSend_def)

lemma isTCPClientConnected_cong [simp]:
  "isTCPClientConnected (b\<lparr>m_outboundQueue := q\<rparr>) = isTCPClientConnected b"
  "isTCPClientConnected (b\<lparr>rand_calls := r\<rparr>) = isTCPClientConnected b"
  by (simp_all add: isTCPClientConnected_def)

lemma ucast_u8_u16: "k < 256 \<Longrightarrow> (ucast (word_of_nat k :: u8) :: u16) = word_of_nat k"
  by (rule word_unat_eq_iff [THEN iffD2]) (simp add: unsigned_ucast_eq take_bit_nat_eq_self)

text \<open>One turn of the loop, with the machine integers read as numbers.\<close>

lemma sendBytes_loop_unfold:
  fixes ph :: pheromones and nbytes :: u16
  defines "p \<equiv> PAYLOAD_MAX_SIZE ph"
  assumes laws: "bytes_laws ph" and i: "i < n" and fit: "i * p < unat nbytes"
  shows "sendBytes_loop ph rnd dst payload nbytes n k i b =
    (let (sent, b') = queueAndSend (m_message (packet_handle (m_swarmAgentID b) dst
           (generateRandomId (rnd (rand_calls b))) (packet ph payload (unat nbytes) n k i)))
           (b\<lparr>rand_calls := Suc (rand_calls b)\<rparr>)
     in if \<not> sent then (False, b', [Log Error ''Sending bytes failed'' []])
        else sendBytes_loop ph rnd dst payload nbytes n k (Suc i) b')"
proof -
  have p: "0 < p" "p < 256" using bytes_lawsD [OF laws] by (simp_all add: p_def)
  let ?l = "packet_size p (unat nbytes) n i"
  have start: "unat (word_of_nat (i * p) :: u16) = i * p"
    using fit u16_bound [of nbytes] by (simp del: of_nat_mult)
  have len: "?l \<le> p" using packet_size_le [OF p(1)] .
  have "uint nbytes - int i * int p = int (unat nbytes - i * p)"
    using fit by (simp add: of_nat_diff less_imp_le)
  then have "(uint nbytes - int i * int p) mod int p = int ((unat nbytes - i * p) mod p)"
    by (simp only: zmod_int)
  then have psz: "(if Suc i = n
       then (word_of_int ((uint nbytes - int i * int p) mod int p) :: u8) else word_of_nat p) = word_of_nat ?l"
    using i by (auto simp: packet_size_def)
  have ucast: "(ucast (word_of_nat ?l :: u8) :: u16) = word_of_nat ?l"
    using len p(2) by (simp add: ucast_u8_u16)
  have last: "(int i = int n - 1) = (Suc i = n)" using i by auto
  have fits: "\<not> p < unat (word_of_nat ?l :: u16)"
    using len p(2) by simp
  show ?thesis
    unfolding sendBytes_loop.simps [of ph rnd dst payload nbytes n k i b]
    using i
    by (simp add: Let_def nextRandomId_def createBytesMessage_def psz [unfolded p_def]
        ucast [unfolded p_def] start [unfolded p_def] fits [unfolded p_def] last
        packet_handle_def packet_def mk_OutboundRequestHandle_def p_def
        del: of_nat_mult)
qed

lemma sendBytes_loop_step:
  assumes "bytes_laws ph" "isTCPClientConnected b" "i < n" "i * PAYLOAD_MAX_SIZE ph < unat nbytes"
  shows "sendBytes_loop ph rnd dst payload nbytes n k i b =
    sendBytes_loop ph rnd dst payload nbytes n k (Suc i)
      (b\<lparr>rand_calls := Suc (rand_calls b), m_outboundQueue :=
          push (packet_handle (m_swarmAgentID b) dst
            (generateRandomId (rnd (rand_calls b))) (packet ph payload (unat nbytes) n k i))
          (m_outboundQueue b)\<rparr>)"
  using sendBytes_loop_unfold [OF assms(1,3,4), of rnd dst payload k b] assms(2)
  by (simp add: queueAndSend_connected packet_handle_def mk_OutboundRequestHandle_def)


lemma packet_index_fits:
  fixes p :: nat
  assumes "0 < p" "i < (nbytes + p - 1) div p"
  shows "i * p < nbytes"
proof -
  have "Suc i * p \<le> (nbytes + p - 1) div p * p"
    using assms(2) by (intro mult_right_mono) auto
  also have "\<dots> \<le> nbytes + p - 1" by (rule div_times_less_eq_dividend)
  finally show ?thesis using assms(1) by simp
qed

text \<open>The handles the loop adds from packet \<open>i\<close> on, with the request ids drawn on the way.\<close>

definition packet_handles ::
  "pheromones \<Rightarrow> (nat \<Rightarrow> int) \<Rightarrow> u32 \<Rightarrow> u8 list \<Rightarrow> nat \<Rightarrow> nat \<Rightarrow> u32 \<Rightarrow> nat \<Rightarrow> HiveMindBridgeImpl \<Rightarrow>
    OutboundRequestHandle list" where
  "packet_handles ph rnd dst payload nbytes n k i b =
     map (\<lambda>j. packet_handle (m_swarmAgentID b) dst (generateRandomId (rnd (rand_calls b + (j - i))))
                (packet ph payload nbytes n k j)) [i ..< n]"

lemma packet_handles_step:
  assumes "i < n"
  shows "packet_handles ph rnd dst payload nbytes n k i b =
    packet_handle (m_swarmAgentID b) dst (generateRandomId (rnd (rand_calls b)))
        (packet ph payload nbytes n k i) #
    packet_handles ph rnd dst payload nbytes n k (Suc i)
      (b\<lparr>rand_calls := Suc (rand_calls b), m_outboundQueue := q\<rparr>)"
  using assms by (auto simp: packet_handles_def upt_conv_Cons Suc_diff_Suc)

lemma sendBytes_loop_run:
  assumes laws: "bytes_laws ph" and con: "isTCPClientConnected b"
    and n: "n = (unat nbytes + PAYLOAD_MAX_SIZE ph - 1) div PAYLOAD_MAX_SIZE ph" and i: "i \<le> n"
  shows "sendBytes_loop ph rnd dst payload nbytes n k i b =
    (True, b\<lparr>rand_calls := rand_calls b + (n - i),
             m_outboundQueue := fold push (packet_handles ph rnd dst payload (unat nbytes) n k i b)
               (m_outboundQueue b)\<rparr>, [])"
  using i con
proof (induction "n - i" arbitrary: i b)
  case 0
  then have "i = n" by simp
  then show ?case
    by (simp add: sendBytes_loop.simps [of ph rnd dst payload nbytes n k n b] packet_handles_def)
next
  case (Suc d)
  then have i: "i < n" by simp
  let ?h = "packet_handle (m_swarmAgentID b) dst (generateRandomId (rnd (rand_calls b)))
    (packet ph payload (unat nbytes) n k i)"
  let ?b = "b\<lparr>rand_calls := Suc (rand_calls b), m_outboundQueue := push ?h (m_outboundQueue b)\<rparr>"
  have fit: "i * PAYLOAD_MAX_SIZE ph < unat nbytes"
    using packet_index_fits [OF bytes_lawsD(1) [OF laws]] i n by blast
  have "sendBytes_loop ph rnd dst payload nbytes n k i b =
      sendBytes_loop ph rnd dst payload nbytes n k (Suc i) ?b"
    by (rule sendBytes_loop_step [OF laws Suc.prems(2) i fit])
  also have "\<dots> = (True, ?b\<lparr>rand_calls := rand_calls ?b + (n - Suc i),
      m_outboundQueue := fold push (packet_handles ph rnd dst payload (unat nbytes) n k (Suc i) ?b)
        (m_outboundQueue ?b)\<rparr>, [])"
    by (rule Suc.hyps(1)) (use Suc.hyps(2) Suc.prems i in auto)
  finally show ?case
    using i packet_handles_step [OF i, of ph rnd dst payload "unat nbytes" k b "push ?h (m_outboundQueue b)"]
    by simp
qed


subsection \<open>The packets form a stream\<close>

lemma packet_getters:
  fixes ph :: pheromones
  defines "p \<equiv> PAYLOAD_MAX_SIZE ph"
  assumes laws: "bytes_laws ph" and len: "nbytes \<le> length payload"
    and n: "n = (nbytes + p - 1) div p" and i: "i < n"
  shows "getPacketId (packet ph payload nbytes n k i) = k"
    and "getPacketNumber (packet ph payload nbytes n k i) = word_of_nat i"
    and "isLastPacket (packet ph payload nbytes n k i) \<longleftrightarrow> Suc i = n"
    and "wf_bytes (packet ph payload nbytes n k i)"
    and "payload_of (packet ph payload nbytes n k i) =
      take (packet_size p nbytes n i) (drop (i * p) payload)"
proof -
  have p: "0 < p" "p < 256" using bytes_lawsD [OF laws] by (simp_all add: p_def)
  let ?l = "packet_size p nbytes n i"
  have le: "?l \<le> p" by (rule packet_size_le [OF p(1)])
  then have u: "unat (word_of_nat ?l :: u16) = ?l" using p(2) by simp
  from le have le': "?l \<le> PAYLOAD_MAX_SIZE ph" by (simp add: p_def)
  have "?l \<le> nbytes - i * p"
  proof (cases "Suc i = n")
    case True
    then show ?thesis by (simp add: packet_size_def)
  next
    case False
    then have "Suc i * p < nbytes" using packet_index_fits [OF p(1), of "Suc i" nbytes] i n by simp
    then show ?thesis using False by (simp add: packet_size_def)
  qed
  then have l: "?l \<le> length (drop (i * p) payload)" using len by simp
  note mk = bytes_laws_mk [OF laws, of "word_of_nat ?l" "drop (i * p) payload", unfolded u,
      OF le' l]
  show "getPacketId (packet ph payload nbytes n k i) = k"
    "getPacketNumber (packet ph payload nbytes n k i) = word_of_nat i"
    "isLastPacket (packet ph payload nbytes n k i) \<longleftrightarrow> Suc i = n"
    "wf_bytes (packet ph payload nbytes n k i)"
    "payload_of (packet ph payload nbytes n k i) = take ?l (drop (i * p) payload)"
    using mk u by (simp_all add: packet_def wf_bytes_def payload_of_def p_def [symmetric])
qed

lemma stream_from_map:
  assumes "i < n" "\<And>j. j < n \<Longrightarrow> getPacketNumber (f j) = word_of_nat j"
    "\<And>j. j < n \<Longrightarrow> isLastPacket (f j) \<longleftrightarrow> Suc j = n"
  shows "stream_from i (map f [i ..< n])"
  using assms(1)
proof (induction "n - i" arbitrary: i)
  case 0
  then show ?case by simp
next
  case (Suc d)
  show ?case
  proof (cases "Suc i = n")
    case True
    then show ?thesis using assms(2,3) [of i] by (simp add: upt_conv_Cons)
  next
    case False
    then have "stream_from (Suc i) (map f [Suc i ..< n])"
      using Suc by (intro Suc.hyps(1)) auto
    then show ?thesis
      using assms(2,3) [of i] Suc.prems False by (simp add: upt_conv_Cons [of i n])
  qed
qed

text \<open>The chunks of \<open>p\<close> bytes before the last packet, then what the last packet carries.\<close>

lemma concat_chunks: "concat (map (\<lambda>i. take p (drop (i * p) xs)) [0 ..< k]) = take (k * p) xs"
  by (induction k) (simp_all add: take_add [symmetric] add.commute)


lemma stream_payload_packets:
  fixes ph :: pheromones
  defines "p \<equiv> PAYLOAD_MAX_SIZE ph"
  assumes laws: "bytes_laws ph" and len: "nbytes \<le> length payload" and pos: "0 < nbytes"
    and n: "n = (nbytes + p - 1) div p"
  shows "stream_payload (map (packet ph payload nbytes n k) [0 ..< n]) =
    take (if nbytes mod p = 0 then nbytes - p else nbytes) payload"
proof -
  have p: "0 < p" using bytes_lawsD [OF laws] by (simp add: p_def)
  have "0 < n" using n pos p by (simp add: div_greater_zero_iff)
  then obtain m where m: "n = Suc m" by (cases n) auto
  note getters = packet_getters [OF laws len n [unfolded p_def], folded p_def]
  have fit: "m * p < nbytes" using packet_index_fits [OF p, of m nbytes] n m by simp
  have upper: "nbytes \<le> n * p"
    using div_mult_mod_eq [of "nbytes + p - 1" p] mod_less_divisor [OF p, of "nbytes + p - 1"]
    unfolding n by linarith
  have "map payload_of (map (packet ph payload nbytes n k) [0 ..< m]) =
      map (\<lambda>i. take p (drop (i * p) payload)) [0 ..< m]"
    using getters(5) m by (auto simp: packet_size_def)
  then have "stream_payload (map (packet ph payload nbytes n k) [0 ..< n]) =
      take (m * p) payload @ take ((nbytes - m * p) mod p) (drop (m * p) payload)"
    using getters(5) [of m] m
    by (simp add: stream_payload_def concat_chunks packet_size_def del: map_map)
  also have "\<dots> = take (m * p + (nbytes - m * p) mod p) payload" by (simp add: take_add)
  also have "m * p + (nbytes - m * p) mod p = (if nbytes mod p = 0 then nbytes - p else nbytes)"
  proof (cases "nbytes - m * p = p")
    case True
    then have "nbytes = p + m * p" using fit by simp
    then show ?thesis using True p by simp
  next
    case False
    then have less: "nbytes - m * p < p" using upper m by simp
    then have "nbytes mod p = nbytes - m * p"
      using fit by (metis add_diff_inverse_nat mod_less mod_mult_self3 not_less_iff_gr_or_eq
          order_less_imp_not_less add.commute mult.commute)
    then show ?thesis using less fit by simp
  qed
  finally show ?thesis .
qed

text \<open>What the outbound queue holds after a successful \<open>sendBytes\<close>.\<close>

definition payload_kept :: "nat \<Rightarrow> nat \<Rightarrow> nat" where
  "payload_kept p nbytes = (if nbytes mod p = 0 then nbytes - p else nbytes)"

lemma sendBytes_run:
  assumes laws: "bytes_laws ph" and con: "isTCPClientConnected b"
    and k: "k = generateRandomId (rnd (rand_calls b))"
    and n: "n = (unat nbytes + PAYLOAD_MAX_SIZE ph - 1) div PAYLOAD_MAX_SIZE ph"
  shows "\<exists>b' hs. sendBytes ph rnd dst payload nbytes b = (True, b', []) \<and>
    outbound b' = outbound b @ hs \<and> length hs = n \<and>
    bytes_packets hs = map (packet ph payload (unat nbytes) n k) [0 ..< n]"
proof -
  let ?b = "b\<lparr>rand_calls := Suc (rand_calls b)\<rparr>"
  let ?hs = "packet_handles ph rnd dst payload (unat nbytes) n k 0 ?b"
  have "sendBytes ph rnd dst payload nbytes b = sendBytes_loop ph rnd dst payload nbytes n k 0 ?b"
    by (simp add: sendBytes_def Let_def nextRandomId_def packet_count [OF laws] n k)
  also have "\<dots> = (True, ?b\<lparr>rand_calls := rand_calls ?b + (n - 0),
      m_outboundQueue := fold push ?hs (m_outboundQueue ?b)\<rparr>, [])"
    by (rule sendBytes_loop_run [OF laws _ n]) (use con in simp_all)
  finally have run: "sendBytes ph rnd dst payload nbytes b =
    (True, ?b\<lparr>rand_calls := rand_calls ?b + (n - 0),
      m_outboundQueue := fold push ?hs (m_outboundQueue ?b)\<rparr>, [])" .
  have "length ?hs = n"
    and "bytes_packets ?hs = map (packet ph payload (unat nbytes) n k) [0 ..< n]"
    by (simp_all add: packet_handles_def bytes_packets_handles)
  then show ?thesis
    using run tsq.contents_enqs [of ?hs "m_outboundQueue b"] by auto
qed

lemma sendBytes_delivered:
  assumes laws: "bytes_laws ph" and con: "isTCPClientConnected b"
    and len: "unat nbytes \<le> length payload" and pos: "0 < unat nbytes"
    and cb: "m_bytesReceivedCallback s = Some h"
    and k: "k = generateRandomId (rnd (rand_calls b))" "m_bytesAccumulatorMap s k = None"
  shows "\<exists>b' hs. sendBytes ph rnd dst payload nbytes b = (True, b', []) \<and>
    outbound b' = outbound b @ hs \<and>
    (\<forall>bs. (\<forall>x \<in> set bs. wf_bytes x) \<longrightarrow> packets_of k bs = bytes_packets hs \<longrightarrow>
      (\<exists>s' tr. receive_all m bs s = Inr (s', tr) \<and> m_bytesAccumulatorMap s' k = None \<and>
        deliveries (concat (events_of k tr)) =
          [take (payload_kept (PAYLOAD_MAX_SIZE ph) (unat nbytes)) payload]))"
proof -
  let ?p = "PAYLOAD_MAX_SIZE ph"
  let ?n = "(unat nbytes + ?p - 1) div ?p"
  let ?f = "packet ph payload (unat nbytes) ?n k"
  obtain b' hs where run: "sendBytes ph rnd dst payload nbytes b = (True, b', [])"
    "outbound b' = outbound b @ hs" and hs: "bytes_packets hs = map ?f [0 ..< ?n]"
    using sendBytes_run [where rnd = rnd and nbytes = nbytes and n = ?n, OF laws con k(1) refl, of dst payload] by blast
  have "0 < ?n" using pos bytes_lawsD(1) [OF laws] by (simp add: div_greater_zero_iff)
  note getters = packet_getters [OF laws len refl]
  have st: "stream_from 0 (map ?f [0 ..< ?n])"
    using \<open>0 < ?n\<close> getters(2,3) by (intro stream_from_map)
  have pay: "stream_payload (map ?f [0 ..< ?n]) = take (payload_kept ?p (unat nbytes)) payload"
    unfolding payload_kept_def by (rule stream_payload_packets [OF laws len pos refl])
  have "\<exists>s' tr. receive_all m bs s = Inr (s', tr) \<and> m_bytesAccumulatorMap s' k = None \<and>
        deliveries (concat (events_of k tr)) = [take (payload_kept ?p (unat nbytes)) payload]"
    if "\<forall>x \<in> set bs. wf_bytes x" "packets_of k bs = bytes_packets hs" for bs
    using stream_delivered [OF cb that(1), of k m] st pay k(2) that(2) hs
    by (auto simp: concat_replicate_trivial)
  then show ?thesis using run by blast
qed


lemma sendBytes_disconnected:
  assumes "bytes_laws ph" "\<not> isTCPClientConnected b" "0 < unat nbytes"
  shows "sendBytes ph rnd dst payload nbytes b =
    (False, b\<lparr>rand_calls := rand_calls b + 2\<rparr>, [Log Error ''Sending bytes failed'' []])"
proof -
  let ?n = "(unat nbytes + PAYLOAD_MAX_SIZE ph - 1) div PAYLOAD_MAX_SIZE ph"
  let ?b = "b\<lparr>rand_calls := Suc (rand_calls b)\<rparr>"
  have n: "0 < ?n" using assms(3) bytes_lawsD(1) [OF assms(1)] by (simp add: div_greater_zero_iff)
  have "sendBytes_loop ph rnd dst payload nbytes ?n k 0 ?b =
      (False, ?b\<lparr>rand_calls := Suc (rand_calls ?b)\<rparr>, [Log Error ''Sending bytes failed'' []])" for k
    using sendBytes_loop_unfold [OF assms(1) n, of nbytes rnd dst payload k ?b] assms(2,3)
    by (simp add: queueAndSend_def)
  then show ?thesis
    by (simp add: sendBytes_def Let_def nextRandomId_def packet_count [OF assms(1)])
qed

lemma sendBytes_zero:
  assumes "bytes_laws ph"
  shows "sendBytes ph rnd dst payload 0 b = (True, b\<lparr>rand_calls := Suc (rand_calls b)\<rparr>, [])"
  using bytes_lawsD(1) [OF assms] f32_ceil_div_exact [of 0 "PAYLOAD_MAX_SIZE ph"]
  by (simp add: sendBytes_def Let_def nextRandomId_def sendBytes_loop.simps)


subsection \<open>Properties of sending\<close>

text \<open>
  C14. A payload whose size is not a multiple of the packet size, sent with \<open>sendBytes\<close> over a
  connected bridge, arrives whole: the call succeeds and queues packets such that a receiver running \<open>HiveMindHostApiRequestHandler\<close>, to which these
  packets come in order but possibly mixed with packets of other payloads, calls the user's
  callback exactly once for them, with exactly the bytes sent. For the other sizes see
  \<open>sendBytes_multiple_truncated\<close>.
\<close>

theorem sendBytes_roundtrip:
  assumes "bytes_laws ph" "isTCPClientConnected b" "unat nbytes \<le> length payload"
    and "unat nbytes mod PAYLOAD_MAX_SIZE ph \<noteq> 0" "m_bytesReceivedCallback s = Some h"
    and "k = generateRandomId (rnd (rand_calls b))" "m_bytesAccumulatorMap s k = None"
  shows "\<exists>b' hs. sendBytes ph rnd dst payload nbytes b = (True, b', []) \<and>
    outbound b' = outbound b @ hs \<and>
    (\<forall>bs. (\<forall>x \<in> set bs. wf_bytes x) \<longrightarrow> packets_of k bs = bytes_packets hs \<longrightarrow>
      (\<exists>s' tr. receive_all m bs s = Inr (s', tr) \<and> m_bytesAccumulatorMap s' k = None \<and>
        deliveries (concat (events_of k tr)) = [take (unat nbytes) payload]))"
proof -
  have "0 < unat nbytes" using assms(4) by (cases "unat nbytes") auto
  from sendBytes_delivered [where rnd = rnd, OF assms(1-3) this assms(5-7), of dst m] show ?thesis
    using assms(4) by (simp add: payload_kept_def)
qed

text \<open>
  C32. A payload whose size is a multiple of the packet size loses its last packet's bytes: the last
  packet is sent with \<open>size % PAYLOAD_MAX_SIZE = 0\<close> bytes, the call still succeeds, and the
  receiver delivers a payload that is one packet size short.
\<close>

theorem sendBytes_multiple_truncated:
  assumes "bytes_laws ph" "isTCPClientConnected b" "unat nbytes \<le> length payload"
    and "unat nbytes mod PAYLOAD_MAX_SIZE ph = 0" "0 < unat nbytes"
    and "m_bytesReceivedCallback s = Some h"
    and "k = generateRandomId (rnd (rand_calls b))" "m_bytesAccumulatorMap s k = None"
  shows "\<exists>b' hs. sendBytes ph rnd dst payload nbytes b = (True, b', []) \<and>
    outbound b' = outbound b @ hs \<and>
    (\<forall>bs. (\<forall>x \<in> set bs. wf_bytes x) \<longrightarrow> packets_of k bs = bytes_packets hs \<longrightarrow>
      (\<exists>s' tr. receive_all m bs s = Inr (s', tr) \<and>
        deliveries (concat (events_of k tr)) =
          [take (unat nbytes - PAYLOAD_MAX_SIZE ph) payload]))"
  using sendBytes_delivered [where rnd = rnd, OF assms(1-3,5-8), of dst m] assms(4)
  by (fastforce simp: payload_kept_def)

text \<open>
  C33. \<open>sendBytes\<close> reports success exactly when a client is connected or there is nothing to send;
  an empty payload queues no packet at all, so it is reported as sent but never delivered, and
  without a client nothing is queued.
\<close>

theorem sendBytes_result:
  assumes "bytes_laws ph"
  shows "(fst (sendBytes ph rnd dst payload nbytes b) \<longleftrightarrow> isTCPClientConnected b \<or> nbytes = 0) \<and>
    length (outbound (fst (snd (sendBytes ph rnd dst payload nbytes b)))) =
      length (outbound b) +
        (if isTCPClientConnected b
         then (unat nbytes + PAYLOAD_MAX_SIZE ph - 1) div PAYLOAD_MAX_SIZE ph else 0)"
proof (cases "isTCPClientConnected b")
  case True
  obtain b' hs where "sendBytes ph rnd dst payload nbytes b = (True, b', [])"
    "outbound b' = outbound b @ hs"
    "length hs = (unat nbytes + PAYLOAD_MAX_SIZE ph - 1) div PAYLOAD_MAX_SIZE ph"
    using sendBytes_run [OF assms True refl refl, of rnd dst payload nbytes] by blast
  then show ?thesis using True by simp
next
  case False
  then show ?thesis
    using sendBytes_disconnected [OF assms False, of nbytes rnd dst payload]
      sendBytes_zero [OF assms, of rnd dst payload b]
    by (cases "nbytes = 0") (simp_all add: unat_gt_0)
qed

text \<open>
  C34. The number of packets, computed with a \<open>float\<close> division rounded to 24 significant bits and
  \<open>std::ceil\<close>, is the exact quotient rounded up, for every size a \<open>uint16_t\<close> can hold and every
  packet size.
\<close>

theorem float_packet_count_exact:
  assumes "0 < p"
  shows "f32_ceil_div (unat (nbytes :: u16)) p = (unat nbytes + p - 1) div p"
  using f32_ceil_div_exact [OF u16_bound assms] .


subsection \<open>Concrete payloads\<close>

text \<open>With packets of 4 bytes: 6 bytes are a packet and a half, 8 bytes two full packets.\<close>

definition sample_payload :: "u8 list" where
  "sample_payload = [1, 2, 3, 4, 5, 6, 7, 8]"

abbreviation sample_bytes_handler :: HiveMindHostApiRequestHandler where
  "sample_bytes_handler \<equiv> m_hmRequestHandler sample_message_handler"

lemma sample_bytes_handler_simps [simp]:
  "m_bytesReceivedCallback sample_bytes_handler = Some 7"
  "m_bytesAccumulatorMap sample_bytes_handler k = None"
  by (simp_all add: sample_message_handler_def)

lemma sample_max_size [simp]: "PAYLOAD_MAX_SIZE sample_pheromones = 4"
  by (simp add: sample_pheromones_def)

theorem sendBytes_roundtrip_witness:
  "\<exists>b' hs. sendBytes sample_pheromones (\<lambda>n. 9) 2 sample_payload 6 sample_bridge = (True, b', []) \<and>
    outbound b' = hs \<and>
    (\<forall>bs. (\<forall>x \<in> set bs. wf_bytes x) \<longrightarrow> packets_of (generateRandomId 9) bs = bytes_packets hs \<longrightarrow>
      (\<exists>s' tr. receive_all sample_message bs sample_bytes_handler = Inr (s', tr) \<and>
        deliveries (concat (events_of (generateRandomId 9) tr)) = [[1, 2, 3, 4, 5, 6]]))"
proof -
  have "unat (6::u16) \<le> length sample_payload" "unat (6::u16) mod PAYLOAD_MAX_SIZE sample_pheromones \<noteq> 0"
    by (simp_all add: sample_payload_def)
  with sendBytes_roundtrip [OF sample_bytes_laws sample_bridge_simps(1) this
      sample_bytes_handler_simps(1) refl sample_bytes_handler_simps(2), of "\<lambda>n. 9" 2 sample_message]
  show ?thesis by (fastforce simp: sample_payload_def)
qed

theorem sendBytes_multiple_truncated_witness:
  "\<exists>b' hs. sendBytes sample_pheromones (\<lambda>n. 9) 2 sample_payload 8 sample_bridge = (True, b', []) \<and>
    outbound b' = hs \<and>
    (\<forall>bs. (\<forall>x \<in> set bs. wf_bytes x) \<longrightarrow> packets_of (generateRandomId 9) bs = bytes_packets hs \<longrightarrow>
      (\<exists>s' tr. receive_all sample_message bs sample_bytes_handler = Inr (s', tr) \<and>
        deliveries (concat (events_of (generateRandomId 9) tr)) = [[1, 2, 3, 4]]))"
proof -
  have "unat (8::u16) \<le> length sample_payload" "unat (8::u16) mod PAYLOAD_MAX_SIZE sample_pheromones = 0"
    "0 < unat (8::u16)"
    by (simp_all add: sample_payload_def)
  with sendBytes_multiple_truncated [OF sample_bytes_laws sample_bridge_simps(1) this
      sample_bytes_handler_simps(1) refl sample_bytes_handler_simps(2), of "\<lambda>n. 9" 2 sample_message]
  show ?thesis by (fastforce simp: sample_payload_def)
qed

theorem sendBytes_result_witness:
  "fst (sendBytes sample_pheromones (\<lambda>n. 9) 2 sample_payload 6 sample_bridge) \<and>
   length (outbound (fst (snd (sendBytes sample_pheromones (\<lambda>n. 9) 2 sample_payload 6 sample_bridge)))) = 2"
  using sendBytes_result [OF sample_bytes_laws, of "\<lambda>n. 9" 2 sample_payload 6 sample_bridge] by simp

theorem float_packet_count_exact_witness:
  "f32_ceil_div (unat (65535 :: u16)) 251 = 262"
  using float_packet_count_exact [of 251 65535] by simp

end
