(* ===== verification/OutboundQueue.thy ===== *)
theory OutboundQueue
  imports Prelude Pheromones ThreadSafeQueue Handles HiveMindBridgeImpl "HOL-Library.Multiset"
begin

section \<open>The life of an outbound message\<close>

text \<open>
  The outbound thread takes the front of its queue, sends it, drops it or puts it back at the end.
  The locale \<open>round_robin\<close> is the contract of such a loop: a visit of an element may put it back
  only with a smaller budget. It gives that the queue drains. The interpretation \<open>outq\<close> is the
  visit the code makes; on top of it the theory shows what is sent, how often and in which order.
\<close>

subsection \<open>Round-robin queues\<close>

locale round_robin =
  fixes visit :: "'e \<Rightarrow> 's \<Rightarrow> 'e option \<times> 's \<times> event list"
    and budget :: "'e \<Rightarrow> nat"
  assumes budget_pos: "0 < budget e"
    and budget_less: "fst (visit e s) = Some e' \<Longrightarrow> budget e' < budget e"
begin

fun turn :: "'e list \<times> 's \<Rightarrow> ('e list \<times> 's) \<times> event list" where
  "turn ([], s) = (([], s), [])"
| "turn (e # q, s) =
     (let (r, s', es) = visit e s
      in ((q @ (case r of Some e' \<Rightarrow> [e'] | None \<Rightarrow> []), s'), es))"

fun turns :: "nat \<Rightarrow> 'e list \<times> 's \<Rightarrow> ('e list \<times> 's) \<times> event list" where
  "turns 0 c = (c, [])"
| "turns (Suc n) c = (let (c', es) = turn c; (c'', es') = turns n c' in (c'', es @ es'))"

definition total_budget :: "'e list \<Rightarrow> nat" where
  "total_budget q = sum_list (map budget q)"

lemma total_budget_simps [simp]:
  "total_budget [] = 0"
  "total_budget (e # q) = budget e + total_budget q"
  "total_budget (q @ q') = total_budget q + total_budget q'"
  by (simp_all add: total_budget_def)

lemma turn_budget: "total_budget (fst (fst (turn (q, s)))) \<le> total_budget q - 1"
proof (cases q)
  case Nil
  then show ?thesis by simp
next
  case (Cons e q')
  then show ?thesis
    using budget_less [of e s] budget_pos [of e]
    by (auto simp: Let_def case_prod_unfold split: option.split)
qed

lemma turns_budget: "total_budget (fst (fst (turns n (q, s)))) \<le> total_budget q - n"
proof (induction n arbitrary: q s)
  case 0
  then show ?case by simp
next
  case (Suc n)
  obtain q' s' es where t: "turn (q, s) = ((q', s'), es)" by (metis surj_pair)
  have "total_budget q' \<le> total_budget q - 1" using turn_budget [of q s] t by simp
  with Suc.IH [of q' s'] show ?case
    by (simp add: t Let_def case_prod_unfold)
qed

lemma drained: "total_budget q \<le> n \<Longrightarrow> fst (fst (turns n (q, s))) = []"
proof -
  assume "total_budget q \<le> n"
  then have "total_budget (fst (fst (turns n (q, s)))) = 0"
    using turns_budget [of n q s] by simp
  then show ?thesis
    by (cases "fst (fst (turns n (q, s)))") (simp_all add: budget_pos [THEN less_not_refl2])
qed

lemma turns_add:
  "turns (m + n) c = (fst (turns n (fst (turns m c))), snd (turns m c) @ snd (turns n (fst (turns m c))))"
  by (induction m arbitrary: c) (auto simp: Let_def case_prod_unfold)

text \<open>A first pass over the queue visits its elements in order.\<close>

fun pass :: "'e list \<Rightarrow> 's \<Rightarrow> 'e list \<times> 's \<times> event list" where
  "pass [] s = ([], s, [])"
| "pass (e # q) s =
     (let (r, s', es) = visit e s; (q', s'', es') = pass q s'
      in ((case r of Some e' \<Rightarrow> [e'] | None \<Rightarrow> []) @ q', s'', es @ es'))"

lemma turns_pass:
  "turns (length q) (q @ q0, s) =
     ((q0 @ fst (pass q s), fst (snd (pass q s))), snd (snd (pass q s)))"
  by (induction q arbitrary: q0 s) (auto simp: Let_def case_prod_unfold)

end


subsection \<open>The visit of the outbound thread\<close>

definition outbound_visit ::
  "OutboundRequestHandle \<Rightarrow> (u32 \<rightharpoonup> InboundResponseHandle) \<Rightarrow>
    OutboundRequestHandle option \<times> (u32 \<rightharpoonup> InboundResponseHandle) \<times> event list" where
  "outbound_visit h resp =
     (case getMessage (m_message h) of
        Request r \<Rightarrow>
          if resp (getRequestId r) \<noteq> None then
            (None, resp(getRequestId r := None), [Log Debug ''RECEIVED VALID RESPONSE'' []])
          else if m_state h = READY then
            (Some (h\<lparr>m_state := SENT\<rparr>), resp, [SerializeToStream (m_message h)])
          else if 10 \<le> m_delaySinceSent h + 1 then (None, resp, [])
          else (Some (h\<lparr>m_delaySinceSent := m_delaySinceSent h + 1\<rparr>), resp, [])
      | Greeting _ \<Rightarrow> (None, resp, [SerializeToStream (m_message h)])
      | _ \<Rightarrow> (None, resp, [Log Warn ''Outbound queue contains an unsupported message'' []]))"

definition visit_budget :: "OutboundRequestHandle \<Rightarrow> nat" where
  "visit_budget h =
     (if m_state h = READY then Suc (max 1 (nat (10 - m_delaySinceSent h)))
      else max 1 (nat (10 - m_delaySinceSent h)))"

interpretation outq: round_robin outbound_visit visit_budget
proof (unfold_locales, goal_cases)
  case (1 e)
  then show ?case by (auto simp: visit_budget_def less_max_iff_disj)
next
  case (2 e s e')
  then show ?case
    by (cases "m_state e")
       (auto simp: outbound_visit_def visit_budget_def split: message_body.splits if_splits)
qed

text \<open>The turn the code makes is a turn of the round-robin queue, and never faults.\<close>

lemma outbound_turn_eq:
  "outbound_turn b =
    (let ((q, resp), es) = outq.turn (outbound b, m_inboundResponsesMap b)
     in Inr (b\<lparr>m_outboundQueue := (m_outboundQueue b)\<lparr>m_queue := q\<rparr>, m_inboundResponsesMap := resp\<rparr>, es))"
proof (cases "outbound b")
  case Nil
  then show ?thesis
    by (simp add: outbound_turn_def empty_iff)
next
  case (Cons h hs)
  then have "front (m_outboundQueue b) = Inr h"
    and "pop (m_outboundQueue b) = Inr ((m_outboundQueue b)\<lparr>m_queue := hs\<rparr>)"
    by (simp_all add: front_def pop_def)
  then show ?thesis
    using Cons
    by (auto simp: outbound_turn_def empty_iff outbound_visit_def bridge_defs push_def Let_def
        THREAD_SLEEP_MS_def DELAY_BRFORE_DROP_S_def split: message_body.split option.split
        OutboundRequestState.split)
qed


fun outbound_turns ::
  "nat \<Rightarrow> HiveMindBridgeImpl \<Rightarrow> (HiveMindBridgeImpl \<times> event list) result" where
  "outbound_turns 0 b = Inr (b, [])"
| "outbound_turns (Suc n) b =
     rbind (outbound_turn b) (\<lambda>(b, es). rbind (outbound_turns n b) (\<lambda>(b, es'). Inr (b, es @ es')))"

abbreviation outbound_state ::
  "HiveMindBridgeImpl \<Rightarrow> OutboundRequestHandle list \<Rightarrow> (u32 \<rightharpoonup> InboundResponseHandle) \<Rightarrow>
    HiveMindBridgeImpl" where
  "outbound_state b q resp \<equiv>
     b\<lparr>m_outboundQueue := (m_outboundQueue b)\<lparr>m_queue := q\<rparr>, m_inboundResponsesMap := resp\<rparr>"

lemma outbound_turns_eq:
  "outbound_turns n b =
    (let ((q, resp), es) = outq.turns n (outbound b, m_inboundResponsesMap b)
     in Inr (outbound_state b q resp, es))"
proof (induction n arbitrary: b)
  case 0
  then show ?case by simp
next
  case (Suc n)
  obtain q resp es where "outq.turn (outbound b, m_inboundResponsesMap b) = ((q, resp), es)"
    by (metis surj_pair)
  then show ?case
    by (simp add: outbound_turn_eq Suc.IH case_prod_unfold Let_def)
qed


subsection \<open>What is sent\<close>

definition is_request :: "OutboundRequestHandle \<Rightarrow> bool" where
  "is_request h = (case getMessage (m_message h) of Request _ \<Rightarrow> True | _ \<Rightarrow> False)"

definition is_greeting :: "OutboundRequestHandle \<Rightarrow> bool" where
  "is_greeting h = (case getMessage (m_message h) of Greeting _ \<Rightarrow> True | _ \<Rightarrow> False)"

definition request_ids :: "OutboundRequestHandle \<Rightarrow> u32 list" where
  "request_ids h = (case getMessage (m_message h) of Request r \<Rightarrow> [getRequestId r] | _ \<Rightarrow> [])"

definition answered :: "(u32 \<rightharpoonup> InboundResponseHandle) \<Rightarrow> OutboundRequestHandle \<Rightarrow> bool" where
  "answered resp h \<longleftrightarrow> set (request_ids h) \<inter> dom resp \<noteq> {}"

text \<open>The messages a queue may still send: unsent requests and greetings.\<close>

definition unsent :: "OutboundRequestHandle \<Rightarrow> bool" where
  "unsent h \<longleftrightarrow> is_greeting h \<or> is_request h \<and> m_state h = READY"

definition unsent_messages :: "OutboundRequestHandle list \<Rightarrow> MessageDTO multiset" where
  "unsent_messages q = mset (map m_message (filter unsent q))"

lemma unsent_messages_simps [simp]:
  "unsent_messages [] = {#}"
  "unsent_messages (q @ q') = unsent_messages q + unsent_messages q'"
  "unsent_messages (h # q) = (if unsent h then {#m_message h#} else {#}) + unsent_messages q"
  by (simp_all add: unsent_messages_def)

lemmas handle_kinds = is_request_def is_greeting_def request_ids_def answered_def unsent_def

lemma visit_unsent:
  "outbound_visit h resp = (r, resp', es) \<Longrightarrow>
   mset (serialized es) + unsent_messages (case r of Some h' \<Rightarrow> [h'] | None \<Rightarrow> []) \<subseteq>#
     unsent_messages [h]"
  by (auto simp: outbound_visit_def handle_kinds split: message_body.splits if_splits)

lemma turns_unsent:
  "outq.turns n (q, resp) = ((q', resp'), es) \<Longrightarrow>
   mset (serialized es) + unsent_messages q' \<subseteq># unsent_messages q"
proof (induction n arbitrary: q resp es)
  case 0
  then show ?case by simp
next
  case (Suc n)
  obtain q1 resp1 es1 where t: "outq.turn (q, resp) = ((q1, resp1), es1)" by (metis surj_pair)
  then obtain es2 where ts: "outq.turns n (q1, resp1) = ((q', resp'), es2)" and es: "es = es1 @ es2"
    using Suc.prems by (auto simp: Let_def split: prod.splits)
  have "mset (serialized es1) + unsent_messages q1 \<subseteq># unsent_messages q"
  proof (cases q)
    case Nil
    then show ?thesis using t by simp
  next
    case (Cons h hs)
    obtain r resp2 es3 where v: "outbound_visit h resp = (r, resp2, es3)" by (metis surj_pair)
    show ?thesis
      using visit_unsent [OF v] t Cons v
      by (auto simp: Let_def ac_simps intro: subset_mset.add_left_mono)
  qed
  then have "mset (serialized es1) + (mset (serialized es2) + unsent_messages q') \<subseteq>#
      unsent_messages q"
    using subset_mset.add_left_mono [OF Suc.IH [OF ts], of "mset (serialized es1)"]
    by (rule subset_mset.order_trans [rotated])
  then show ?case by (simp add: es add.assoc)
qed

text \<open>
  No message is ever sent more often than it was queued: over any number of turns of the
  outbound thread, from any queue and any set of known responses, the multiset of messages
  serialised is contained in that of the unsent requests and greetings on the queue; an already
  sent request is never sent again.
\<close>

theorem outbound_at_most_once:
  "\<exists>b' es. outbound_turns n b = Inr (b', es) \<and>
    mset (serialized es) + unsent_messages (outbound b') \<subseteq># unsent_messages (outbound b)"
proof -
  obtain q resp es where t: "outq.turns n (outbound b, m_inboundResponsesMap b) = ((q, resp), es)"
    by (metis surj_pair)
  then show ?thesis using turns_unsent [OF t] by (simp add: outbound_turns_eq)
qed


text \<open>
  Requests whose ids differ: a first pass sends every unanswered request and every greeting, in
  order, uses up the responses of the others, and keeps the unanswered requests that are not due.
\<close>

lemma pass_distinct:
  assumes "distinct (concat (map request_ids q))"
  shows "serialized (snd (snd (outq.pass q resp))) =
      map m_message (filter (\<lambda>h. unsent h \<and> \<not> answered resp h) q)"
    and "fst (snd (outq.pass q resp)) = resp |` (- set (concat (map request_ids q)))"
    and "map m_message (fst (outq.pass q resp)) =
      map m_message (filter (\<lambda>h. is_request h \<and> \<not> answered resp h \<and>
        (m_state h = READY \<or> m_delaySinceSent h + 1 < 10)) q)"
proof -
  have "serialized (snd (snd (outq.pass q resp))) =
      map m_message (filter (\<lambda>h. unsent h \<and> \<not> answered resp h) q) \<and>
    fst (snd (outq.pass q resp)) = resp |` (- set (concat (map request_ids q))) \<and>
    map m_message (fst (outq.pass q resp)) =
      map m_message (filter (\<lambda>h. is_request h \<and> \<not> answered resp h \<and>
        (m_state h = READY \<or> m_delaySinceSent h + 1 < 10)) q)"
    using assms
  proof (induction q arbitrary: resp)
    case Nil
    then show ?case by simp
  next
    case (Cons h hs)
    let ?resp = "fst (snd (outbound_visit h resp))"
    have ids: "set (request_ids h) \<inter> set (request_ids h') = {}" if "h' \<in> set hs" for h'
      using Cons.prems that by auto
    have resp: "?resp = resp |` (- set (request_ids h))"
      by (auto simp: outbound_visit_def handle_kinds restrict_map_def domIff fun_eq_iff
          split: message_body.splits)
    have ans: "answered ?resp h' \<longleftrightarrow> answered resp h'" if "h' \<in> set hs" for h'
      using ids [OF that] by (auto simp: answered_def resp)
    have "filter (\<lambda>h. unsent h \<and> \<not> answered ?resp h) hs =
        filter (\<lambda>h. unsent h \<and> \<not> answered resp h) hs"
      "filter (\<lambda>h. is_request h \<and> \<not> answered ?resp h \<and>
        (m_state h = READY \<or> m_delaySinceSent h + 1 < 10)) hs =
       filter (\<lambda>h. is_request h \<and> \<not> answered resp h \<and>
        (m_state h = READY \<or> m_delaySinceSent h + 1 < 10)) hs"
      by (auto simp: ans intro!: filter_cong)
    note IH = Cons.IH [of ?resp, unfolded this]
    have dist: "distinct (concat (map request_ids hs))" using Cons.prems by simp
    have sent: "serialized (snd (snd (outbound_visit h resp))) =
        (if unsent h \<and> \<not> answered resp h then [m_message h] else [])"
      by (auto simp: outbound_visit_def handle_kinds split: message_body.splits)
    have kept: "map m_message (case fst (outbound_visit h resp) of Some h' \<Rightarrow> [h'] | None \<Rightarrow> []) =
        (if is_request h \<and> \<not> answered resp h \<and> (m_state h = READY \<or> m_delaySinceSent h + 1 < 10)
         then [m_message h] else [])"
      by (cases "m_state h") (auto simp: outbound_visit_def handle_kinds split: message_body.splits)
    have restr: "resp |` (- set (request_ids h)) |` (- set (concat (map request_ids hs))) =
        resp |` (- set (concat (map request_ids (h # hs))))"
      by (simp add: Int_commute)
    show ?case
      using IH [OF dist]
      unfolding outq.pass.simps case_prod_unfold Let_def fst_conv snd_conv serialized_append
        map_append sent kept resp restr
      by (simp del: set_concat)
  qed
  then show "serialized (snd (snd (outq.pass q resp))) =
      map m_message (filter (\<lambda>h. unsent h \<and> \<not> answered resp h) q)"
    "fst (snd (outq.pass q resp)) = resp |` (- set (concat (map request_ids q)))"
    "map m_message (fst (outq.pass q resp)) =
      map m_message (filter (\<lambda>h. is_request h \<and> \<not> answered resp h \<and>
        (m_state h = READY \<or> m_delaySinceSent h + 1 < 10)) q)"
    by blast+
qed


definition sample_request :: MessageDTO where
  "sample_request = \<lparr>getSourceId = 1, getDestinationId = 1,
     getMessage = Request \<lparr>getRequestId = 9, getRequest = HostApiRequest GetNeighborsListRequest\<rparr>\<rparr>"

definition sample_queue_bridge :: HiveMindBridgeImpl where
  "sample_queue_bridge = sample_bridge\<lparr>m_outboundQueue :=
     push (mk_OutboundRequestHandle sample_request) new_queue\<rparr>"

lemma sample_queue_simps [simp]:
  "outbound sample_queue_bridge = [mk_OutboundRequestHandle sample_request]"
  "m_inboundResponsesMap sample_queue_bridge = Map.empty"
  "getMessage sample_request =
     Request \<lparr>getRequestId = 9, getRequest = HostApiRequest GetNeighborsListRequest\<rparr>"
  by (simp_all add: sample_queue_bridge_def sample_request_def)

text \<open>
  C16. When the queued requests have different ids, a round of the outbound thread over its queue
  sends, in queue order, exactly the greetings and the requests that were not sent yet and whose
  response has not arrived; it forgets exactly the responses of the requests on the queue, and
  afterwards exactly the requests without a response that are not due are still queued. In
  particular a request whose id already has a response is dropped without being sent.
\<close>

theorem outbound_round:
  assumes "distinct (concat (map request_ids (outbound b)))"
  shows "\<exists>b' es. outbound_turns (length (outbound b)) b = Inr (b', es) \<and>
    serialized es =
      map m_message (filter (\<lambda>h. unsent h \<and> \<not> answered (m_inboundResponsesMap b) h) (outbound b)) \<and>
    m_inboundResponsesMap b' =
      m_inboundResponsesMap b |` (- set (concat (map request_ids (outbound b)))) \<and>
    map m_message (outbound b') =
      map m_message (filter (\<lambda>h. is_request h \<and> \<not> answered (m_inboundResponsesMap b) h \<and>
        (m_state h = READY \<or> m_delaySinceSent h + 1 < 10)) (outbound b))"
  using pass_distinct [OF assms, of "m_inboundResponsesMap b"]
    outq.turns_pass [of "outbound b" "[]" "m_inboundResponsesMap b"]
  by (simp add: outbound_turns_eq)

theorem outbound_round_witness:
  "\<exists>b' es. outbound_turns 1 sample_queue_bridge = Inr (b', es) \<and> serialized es = [sample_request] \<and>
    map m_message (outbound b') = [sample_request]"
proof -
  have "distinct (concat (map request_ids (outbound sample_queue_bridge)))"
    by (simp add: request_ids_def bridge_defs)
  from outbound_round [OF this] show ?thesis
    by (auto simp: handle_kinds bridge_defs)
qed

lemma visit_budget_le: "0 \<le> m_delaySinceSent h \<Longrightarrow> visit_budget h \<le> 11"
  by (simp add: visit_budget_def nat_le_iff)

lemma total_budget_le:
  "\<forall>h \<in> set q. 0 \<le> m_delaySinceSent h \<Longrightarrow> outq.total_budget q \<le> 11 * length q"
proof (induction q)
  case (Cons h q)
  then show ?case using visit_budget_le [of h] by simp
qed simp

lemma turns_drained:
  assumes "\<forall>h \<in> set (outbound b). 0 \<le> m_delaySinceSent h" "11 * length (outbound b) \<le> n"
  shows "\<exists>resp es. outbound_turns n b = Inr (outbound_state b [] resp, es)"
proof -
  obtain q resp es where t: "outq.turns n (outbound b, m_inboundResponsesMap b) = ((q, resp), es)"
    by (metis surj_pair)
  have "q = []"
    using outq.drained [of "outbound b" n "m_inboundResponsesMap b"] t assms(2)
      total_budget_le [OF assms(1)] by simp
  then have "outbound_turns n b = Inr (outbound_state b [] resp, es)"
    using t by (simp add: outbound_turns_eq)
  then show ?thesis by blast
qed

text \<open>
  C17. The outbound queue always drains: whatever responses come or fail to come, after at most 11
  turns of the thread per queued message (one to send it, ten to wait for its response) the queue
  is empty, without a fault, and nothing but the queue and the responses has changed.
\<close>

theorem outbound_drains:
  assumes "\<forall>h \<in> set (outbound b). 0 \<le> m_delaySinceSent h" "11 * length (outbound b) \<le> n"
  shows "\<exists>b' es. outbound_turns n b = Inr (b', es) \<and> outbound b' = [] \<and>
    b' = b\<lparr>m_outboundQueue := m_outboundQueue b', m_inboundResponsesMap := m_inboundResponsesMap b'\<rparr>"
  using turns_drained [OF assms] by auto

theorem outbound_drains_witness:
  "\<exists>b' es. outbound_turns 11 sample_queue_bridge = Inr (b', es) \<and> outbound b' = []"
proof -
  have "\<forall>h \<in> set (outbound sample_queue_bridge). 0 \<le> m_delaySinceSent h"
    and "11 * length (outbound sample_queue_bridge) \<le> 11"
    by (simp_all add: bridge_defs)
  from outbound_drains [OF this] show ?thesis by blast
qed

lemma visit_waiting:
  assumes "getMessage (m_message h) = Request r" "resp (getRequestId r) = None" "m_state h = SENT"
  shows "outbound_visit h resp =
    (if m_delaySinceSent h + 1 < 10 then Some (h\<lparr>m_delaySinceSent := m_delaySinceSent h + 1\<rparr>)
     else None, resp, [])"
  using assms by (simp add: outbound_visit_def)

lemma visit_sending:
  assumes "getMessage (m_message h) = Request r" "resp (getRequestId r) = None" "m_state h = READY"
  shows "outbound_visit h resp = (Some (h\<lparr>m_state := SENT\<rparr>), resp, [SerializeToStream (m_message h)])"
  using assms by (simp add: outbound_visit_def)

lemma lone_request_turns:
  assumes "getMessage (m_message h) = Request r" "resp (getRequestId r) = None"
    "m_state h = SENT" "m_delaySinceSent h = d" "0 \<le> d" "d < 10"
  shows "outq.turns n ([h], resp) =
    ((if int n + d < 10 then [h\<lparr>m_delaySinceSent := int n + d\<rparr>] else [], resp), [])"
  using assms
proof (induction n arbitrary: h d)
  case 0
  then show ?case by simp
next
  case (Suc n)
  have empty: "outq.turns m ([], resp) = (([], resp), [])" for m by (induction m) simp_all
  note visit = visit_waiting [where h = h and resp = resp, OF Suc.prems(1-3)]
  show ?case
  proof (cases "d + 1 < 10")
    case True
    have "outq.turns n ([h\<lparr>m_delaySinceSent := d + 1\<rparr>], resp) =
      ((if int n + (d + 1) < 10 then [h\<lparr>m_delaySinceSent := int n + (d + 1)\<rparr>] else [], resp), [])"
      using Suc.IH [of "h\<lparr>m_delaySinceSent := d + 1\<rparr>" "d + 1"] Suc.prems True by simp
    then show ?thesis
      using Suc.prems True by (simp add: visit add.commute add.left_commute)
  next
    case False
    then show ?thesis using Suc.prems by (simp add: visit empty)
  qed
qed

text \<open>
  A request that is alone on the queue and never answered is sent in the first turn of the
  outbound thread, waits as sent through turn 10 and is dropped in turn 11. A turn sleeps
  \<open>THREAD_SLEEP_MS\<close> = 1 ms and the counter, in milliseconds, is compared with
  \<open>DELAY_BRFORE_DROP_S\<close> = 10: the request is given up after 10 ms, not after 10 s.
\<close>

theorem unanswered_request_dropped:
  assumes "outbound b = [mk_OutboundRequestHandle msg]" "getMessage msg = Request r"
    and "m_inboundResponsesMap b (getRequestId r) = None" "0 < n"
  shows "\<exists>b'. outbound_turns n b = Inr (b', [SerializeToStream msg]) \<and>
    outbound b' =
      (if n \<le> 10 then [\<lparr>m_state = SENT, m_message = msg, m_delaySinceSent = int n - 1\<rparr>] else [])"
proof -
  obtain m where n: "n = Suc m" using assms(4) by (cases n) auto
  let ?h = "\<lparr>m_state = SENT, m_message = msg, m_delaySinceSent = 0\<rparr>"
  have "outq.turns m ([?h], m_inboundResponsesMap b) =
      ((if int m + 0 < 10 then [?h\<lparr>m_delaySinceSent := int m + 0\<rparr>] else [], m_inboundResponsesMap b), [])"
    using assms(2,3) by (intro lone_request_turns) simp_all
  then show ?thesis
    using assms(2,3) visit_sending [of "mk_OutboundRequestHandle msg" r "m_inboundResponsesMap b"]
    by (simp add: outbound_turns_eq assms(1) n bridge_defs)
qed

theorem unanswered_request_dropped_witness:
  "\<exists>b'. outbound_turns 11 sample_queue_bridge = Inr (b', [SerializeToStream sample_request]) \<and>
    outbound b' = []"
proof -
  have "\<exists>b'. outbound_turns 11 sample_queue_bridge = Inr (b', [SerializeToStream sample_request]) \<and>
    outbound b' = (if (11::nat) \<le> 10
      then [\<lparr>m_state = SENT, m_message = sample_request, m_delaySinceSent = int 11 - 1\<rparr>] else [])"
    by (rule unanswered_request_dropped) simp_all
  then show ?thesis by simp
qed


text \<open>
  \<open>queueAndSend\<close> accepts messages that are never sent: with a client connected it returns true
  for every message, but the outbound thread drops a message that is neither a request nor a
  greeting with a warning, and a request whose id happens to have a response already as answered,
  without sending it.
\<close>

theorem accepted_message_lost:
  assumes "isTCPClientConnected b" "outbound b = []"
    and "(\<nexists>r. getMessage msg = Request r) \<and> (\<nexists>i. getMessage msg = Greeting i) \<or>
      (\<exists>r. getMessage msg = Request r \<and> m_inboundResponsesMap b (getRequestId r) \<noteq> None)"
  shows "\<exists>b1 b2 es. queueAndSend msg b = (True, b1) \<and> outbound_turn b1 = Inr (b2, es) \<and>
    outbound b2 = [] \<and> serialized es = []"
  using assms
  by (auto simp: queueAndSend_def outbound_turn_eq outbound_visit_def mk_OutboundRequestHandle_def
      split: message_body.split)

theorem accepted_message_lost_witness:
  "\<exists>b1 b2 es. queueAndSend \<lparr>getSourceId = 1, getDestinationId = 2,
      getMessage = Response \<lparr>getResponseRequestId = 3, getResponse = OtherResponse\<rparr>\<rparr> sample_bridge = (True, b1) \<and>
    outbound_turn b1 = Inr (b2, es) \<and> outbound b2 = [] \<and> serialized es = []"
  by (rule accepted_message_lost) simp_all

end
