(* ===== verification/Spin.thy ===== *)
theory Spin
  imports Prelude Pheromones Handles MessageUtils UserCallRequestHandler MessageHandler TCPServer HiveMindBridgeImpl
begin

section \<open>The application loop\<close>

text \<open>
  What a call of \<open>spin\<close> does: with a client it handles one inbound message, answers it, and returns
  the results of finished calls; without one it waits for a client and greets it. Then it counts
  towards the next keep-alive greeting.
\<close>

subsection \<open>Keep-alive greetings\<close>

lemma queueAndSend_frame [simp]:
  "m_keepAliveCounter (snd (queueAndSend m b)) = m_keepAliveCounter b"
  "m_keepAliveNbSpin (snd (queueAndSend m b)) = m_keepAliveNbSpin b"
  "m_tcpServer (snd (queueAndSend m b)) = m_tcpServer b"
  "m_messageHandler (snd (queueAndSend m b)) = m_messageHandler b"
  "m_inboundQueue (snd (queueAndSend m b)) = m_inboundQueue b"
  "m_inboundRequestsQueue (snd (queueAndSend m b)) = m_inboundRequestsQueue b"
  "m_inboundResponsesMap (snd (queueAndSend m b)) = m_inboundResponsesMap b"
  "m_swarmAgentID (snd (queueAndSend m b)) = m_swarmAgentID b"
  "m_inboundThread (snd (queueAndSend m b)) = m_inboundThread b"
  "m_outboundThread (snd (queueAndSend m b)) = m_outboundThread b"
  "rand_calls (snd (queueAndSend m b)) = rand_calls b"
  "outbound (snd (queueAndSend m b)) =
     outbound b @ (if isTCPClientConnected b then [mk_OutboundRequestHandle m] else [])"
  by (simp_all add: queueAndSend_def Let_def)

lemma keepAlive_frame [simp]:
  "m_keepAliveNbSpin (spin_keepAlive b) = m_keepAliveNbSpin b"
  "m_tcpServer (spin_keepAlive b) = m_tcpServer b"
  "m_messageHandler (spin_keepAlive b) = m_messageHandler b"
  "m_inboundQueue (spin_keepAlive b) = m_inboundQueue b"
  "m_inboundRequestsQueue (spin_keepAlive b) = m_inboundRequestsQueue b"
  "m_inboundResponsesMap (spin_keepAlive b) = m_inboundResponsesMap b"
  "m_swarmAgentID (spin_keepAlive b) = m_swarmAgentID b"
  "m_inboundThread (spin_keepAlive b) = m_inboundThread b"
  "m_outboundThread (spin_keepAlive b) = m_outboundThread b"
  "rand_calls (spin_keepAlive b) = rand_calls b"
  by (simp_all add: spin_keepAlive_def Let_def)

text \<open>The greetings due and the counter after a spin that finds counter \<open>c\<close> and period \<open>n\<close>.\<close>

definition keepAlive_due :: "u32 \<Rightarrow> u32 \<Rightarrow> bool" where
  "keepAlive_due n c \<longleftrightarrow> 0 < n \<and> n \<le> c"

definition keepAlive_next :: "u32 \<Rightarrow> u32 \<Rightarrow> u32" where
  "keepAlive_next n c = (if n = 0 then c else if n \<le> c then 1 else c + 1)"

lemma spin_keepAlive_eq:
  "m_keepAliveCounter (spin_keepAlive b) = keepAlive_next (m_keepAliveNbSpin b) (m_keepAliveCounter b)"
  "outbound (spin_keepAlive b) = outbound b @
     (if keepAlive_due (m_keepAliveNbSpin b) (m_keepAliveCounter b) \<and> isTCPClientConnected b
      then [mk_OutboundRequestHandle createGreetMessage] else [])"
  by (simp_all add: spin_keepAlive_def keepAlive_due_def keepAlive_next_def Let_def word_gt_0
      queueAndSend_def isTCPClientConnected_def)

lemma keepAlive_next_bound: "c \<le> n \<Longrightarrow> keepAlive_next n c \<le> n"
proof -
  assume "c \<le> n"
  moreover have "1 \<le> n" if "n \<noteq> 0"
    using that by (simp add: word_le_nat_alt Suc_le_eq unat_gt_0)
  ultimately show ?thesis by (auto simp: keepAlive_next_def not_le intro: inc_le)
qed

text \<open>From counter \<open>i\<close>, counted from the last greeting, after one more spin.\<close>

lemma keepAlive_next_count:
  assumes "0 < n" "c = word_of_nat ((k - 1) mod unat n + 1)" "0 < k"
  shows "keepAlive_next n c = word_of_nat (k mod unat n + 1)"
    and "keepAlive_due n c \<longleftrightarrow> k mod unat n = 0"
proof -
  let ?n = "unat n"
  have n: "0 < ?n" "?n < 4294967296"
    using assms(1) u32_bound [of n] by (auto simp: unat_gt_0)
  obtain j where k: "k = Suc j" using assms(3) by (cases k) auto
  have mod_less: "j mod ?n < ?n" using n(1) by simp
  have "c = word_of_nat (Suc (j mod ?n))" using assms(2) k by simp
  then have c: "unat c = j mod ?n + 1"
    using mod_less n(2) u32_of_nat [of "Suc (j mod ?n)"] by simp
  have due: "n \<le> c \<longleftrightarrow> Suc (j mod ?n) = ?n"
    using c mod_less by (auto simp: word_le_nat_alt)
  have suc: "k mod ?n = (if Suc (j mod ?n) = ?n then 0 else Suc (j mod ?n))"
    unfolding k by (rule mod_Suc)
  have "n \<noteq> 0" using assms(1) by auto
  moreover have "c + 1 = word_of_nat (Suc (j mod ?n) + 1)"
    using assms(2) k by (simp add: add.commute)
  ultimately show "keepAlive_next n c = word_of_nat (k mod ?n + 1)"
    using due suc by (simp add: keepAlive_next_def)
  show "keepAlive_due n c \<longleftrightarrow> k mod ?n = 0"
    using due suc assms(1) by (simp add: keepAlive_due_def)
qed


subsection \<open>Returning the results of calls\<close>

text \<open>
  \<open>unfinished\<close>: the call behind the handle still runs. \<open>returned\<close>: it has finished with a return
  payload that fits a function call request.
\<close>

definition unfinished :: "UserCallRequestHandler \<Rightarrow> InboundRequestHandle \<Rightarrow> bool" where
  "unfinished u h = (case m_callbackReturnContext h of Some i \<Rightarrow> \<not> is_ready u i | None \<Rightarrow> False)"

definition returned ::
  "pheromones \<Rightarrow> UserCallRequestHandler \<Rightarrow> InboundRequestHandle \<Rightarrow> CallbackReturn option" where
  "returned ph u h =
     (case m_callbackReturnContext h of
        None \<Rightarrow> None
      | Some i \<Rightarrow>
          if i < length (m_calls u) then
            (case m_calls u ! i of
               Ready (Some r) \<Rightarrow>
                 if length (getReturnArgs r) \<le> FUNCTION_CALL_ARGUMENTS_MAX_LENGTH ph then Some r else None
             | _ \<Rightarrow> None)
          else None)"

definition return_message ::
  "pheromones \<Rightarrow> InboundRequestHandle \<Rightarrow> CallbackReturn \<Rightarrow> u32 \<Rightarrow> MessageDTO" where
  "return_message ph h r i =
     createFunctionCallRequest ph (the (m_msgDestinationId h)) (the (m_msgSourceId h)) i
       (the (m_sourceModule h)) (getReturnFunctionName r) (getReturnArgs r)"

fun return_messages ::
  "pheromones \<Rightarrow> (nat \<Rightarrow> int) \<Rightarrow> UserCallRequestHandler \<Rightarrow> InboundRequestHandle list \<Rightarrow> nat \<Rightarrow>
    MessageDTO list" where
  "return_messages ph rnd u [] n = []"
| "return_messages ph rnd u (h # hs) n =
     (case returned ph u h of
        Some r \<Rightarrow>
          return_message ph h r (generateRandomId (rnd n)) # return_messages ph rnd u hs (Suc n)
      | None \<Rightarrow> return_messages ph rnd u hs n)"

lemma sendReturn_eq:
  assumes "handle_wf (length (m_calls (user_calls b))) h" "m_callbackReturnContext h = Some i"
    "is_ready (user_calls b) i"
  shows "\<exists>es. sendReturn ph rnd h b =
      Inr (b\<lparr>rand_calls := rand_calls b + length (return_messages ph rnd (user_calls b) [h] (rand_calls b))\<rparr>, es) \<and>
    serialized es = return_messages ph rnd (user_calls b) [h] (rand_calls b)"
proof -
  obtain r where i: "i < length (m_calls (user_calls b))" and r: "m_calls (user_calls b) ! i = Ready r"
    using assms(3) by (auto simp: is_ready_def split: call_state.splits)
  obtain src dst smod where addr: "m_msgSourceId h = Some src" "m_msgDestinationId h = Some dst"
    "m_sourceModule h = Some smod"
    using assms(1,2) by (auto simp: handle_wf_def)
  show ?thesis
    using i r addr assms(2)
    by (auto simp: sendReturn_def future_get_def bridge_defs returned_def return_message_def
        nextRandomId_def Let_def not_less split: option.split)
qed

lemma return_messages_append:
  "return_messages ph rnd u (hs @ hs') n =
   return_messages ph rnd u hs n @ return_messages ph rnd u hs' (n + length (return_messages ph rnd u hs n))"
  by (induction hs arbitrary: n) (auto split: option.split)

lemma sweep_requests_eq:
  assumes "\<forall>h \<in> set hs. handle_wf (length (m_calls (user_calls b))) h"
  shows "\<exists>es. sweep_requests ph rnd hs b =
      Inr (filter (unfinished (user_calls b)) hs,
           b\<lparr>rand_calls := rand_calls b + length (return_messages ph rnd (user_calls b) hs (rand_calls b))\<rparr>,
           es) \<and>
    serialized es = return_messages ph rnd (user_calls b) hs (rand_calls b)"
  using assms
proof (induction hs arbitrary: b)
  case Nil
  then show ?case by simp
next
  case (Cons h hs)
  have none: "returned ph (user_calls b) h = None"
    if "\<not> (\<exists>i. m_callbackReturnContext h = Some i \<and> is_ready (user_calls b) i)"
    using that by (fastforce simp: returned_def is_ready_def split: option.split call_state.split)
  show ?case
  proof (cases "m_callbackReturnContext h")
    case None
    with Cons.IH [of b] Cons.prems none show ?thesis
      by (auto simp: bridge_defs unfinished_def)
  next
    case (Some i)
    show ?thesis
    proof (cases "is_ready (user_calls b) i")
      case False
      with Cons.IH [of b] Cons.prems none Some show ?thesis
        by (auto simp: bridge_defs unfinished_def)
    next
      case True
      let ?b = "b\<lparr>rand_calls := rand_calls b +
        length (return_messages ph rnd (user_calls b) [h] (rand_calls b))\<rparr>"
      obtain es where s: "sendReturn ph rnd h b = Inr (?b, es)"
        "serialized es = return_messages ph rnd (user_calls b) [h] (rand_calls b)"
        using sendReturn_eq [OF _ Some True, of ph rnd] Cons.prems by auto
      obtain es' where "sweep_requests ph rnd hs ?b =
          Inr (filter (unfinished (user_calls b)) hs,
            ?b\<lparr>rand_calls := rand_calls ?b + length (return_messages ph rnd (user_calls b) hs (rand_calls ?b))\<rparr>,
            es')"
        "serialized es' = return_messages ph rnd (user_calls b) hs (rand_calls ?b)"
        using Cons.IH [of ?b] Cons.prems by auto
      moreover have "\<not> unfinished (user_calls b) h" using Some True by (simp add: unfinished_def)
      ultimately show ?thesis
        using s True Some return_messages_append [of ph rnd "user_calls b" "[h]" hs "rand_calls b"]
        by (simp del: return_messages.simps add: bridge_defs add.assoc)
    qed
  qed
qed


text \<open>
  C23. In every spin the handles of calls that still run stay queued, in order, and all others leave:
  each finished call whose return payload fits is returned once, as a function call request to the
  agent and the module that made the call, in the order the calls arrived and with fresh ids;
  finished calls without a return payload, or with too many arguments, send nothing.
\<close>

theorem sweep_returns_finished_calls:
  assumes "\<forall>h \<in> set hs. handle_wf (length (m_calls (user_calls b))) h"
  shows "\<exists>b' es. sweep_requests ph rnd hs b = Inr (filter (unfinished (user_calls b)) hs, b', es) \<and>
    serialized es = return_messages ph rnd (user_calls b) hs (rand_calls b) \<and>
    b' = b\<lparr>rand_calls := rand_calls b + length (serialized es)\<rparr>"
  using sweep_requests_eq [OF assms, of ph rnd] by auto


subsection \<open>One spin with a client\<close>

definition bridge_wf :: "HiveMindBridgeImpl \<Rightarrow> bool" where
  "bridge_wf b \<longleftrightarrow>
     user_calls_inv (user_calls b) \<and>
     (\<forall>h \<in> set (m_inboundRequestsQueue b). handle_wf (length (m_calls (user_calls b))) h)"

text \<open>The front message would make a handler read out of bounds.\<close>

definition front_faults :: "HiveMindBridgeImpl \<Rightarrow> bool" where
  "front_faults b \<longleftrightarrow> inbound b \<noteq> [] \<and> asks_index_at_size (hd (inbound b)) (callback_map b)"

lemma spin_receive_Nil: "inbound b = [] \<Longrightarrow> spin_receive ph b = Inr (b, [])"
  by (simp add: spin_receive_def empty_iff)

lemma spin_receive_Cons:
  assumes "inbound b = msg # rest"
  shows "spin_receive ph b =
    rbind (MessageHandler_handleMessage ph msg (m_messageHandler b)) (\<lambda>(r, mh, es).
      let b = b\<lparr>m_messageHandler := mh, m_inboundQueue := (m_inboundQueue b)\<lparr>m_queue := rest\<rparr>\<rparr>
      in case r of
           HandledRequest h \<Rightarrow>
             Inr (b\<lparr>m_inboundRequestsQueue := m_inboundRequestsQueue b @ [h]\<rparr>,
                  es @ [SerializeToStream (m_responseMessage h)])
         | HandledResponse h \<Rightarrow>
             Inr (b\<lparr>m_inboundResponsesMap := (m_inboundResponsesMap b)(m_responseId h \<mapsto> h)\<rparr>, es)
         | NoHandle \<Rightarrow> Inr (b, es))"
  using assms
  by (cases "MessageHandler_handleMessage ph msg (m_messageHandler b)")
     (auto simp: spin_receive_def empty_iff front_def pop_def bridge_defs Let_def split: handled.split)

lemma spin_receive_frame:
  assumes "spin_receive ph b = Inr (b', es)"
  shows "m_tcpServer b' = m_tcpServer b" "m_outboundQueue b' = m_outboundQueue b"
    "m_keepAliveCounter b' = m_keepAliveCounter b" "m_keepAliveNbSpin b' = m_keepAliveNbSpin b"
    "m_swarmAgentID b' = m_swarmAgentID b" "m_inboundThread b' = m_inboundThread b"
    "m_outboundThread b' = m_outboundThread b" "rand_calls b' = rand_calls b"
    "inbound b' = tl (inbound b)"
proof -
  have "m_tcpServer b' = m_tcpServer b \<and> m_outboundQueue b' = m_outboundQueue b \<and>
    m_keepAliveCounter b' = m_keepAliveCounter b \<and> m_keepAliveNbSpin b' = m_keepAliveNbSpin b \<and>
    m_swarmAgentID b' = m_swarmAgentID b \<and> m_inboundThread b' = m_inboundThread b \<and>
    m_outboundThread b' = m_outboundThread b \<and> rand_calls b' = rand_calls b \<and>
    inbound b' = tl (inbound b)"
  proof (cases "inbound b")
    case Nil
    then show ?thesis using assms by (simp add: spin_receive_Nil)
  next
    case (Cons msg rest)
    then obtain r mh es1
      where h: "MessageHandler_handleMessage ph msg (m_messageHandler b) = Inr (r, mh, es1)"
      using assms by (auto simp: spin_receive_Cons rbind_eq_Inr)
    show ?thesis
      using assms Cons h by (cases r) (auto simp: spin_receive_Cons Let_def)
  qed
  then show "m_tcpServer b' = m_tcpServer b" "m_outboundQueue b' = m_outboundQueue b"
    "m_keepAliveCounter b' = m_keepAliveCounter b" "m_keepAliveNbSpin b' = m_keepAliveNbSpin b"
    "m_swarmAgentID b' = m_swarmAgentID b" "m_inboundThread b' = m_inboundThread b"
    "m_outboundThread b' = m_outboundThread b" "rand_calls b' = rand_calls b"
    "inbound b' = tl (inbound b)"
    by blast+
qed

lemma spin_receive_wf:
  assumes wf: "bridge_wf b" and step: "spin_receive ph b = Inr (b', es)"
  shows "bridge_wf b'" "callback_map b' = callback_map b"
proof -
  have "bridge_wf b' \<and> callback_map b' = callback_map b"
  proof (cases "inbound b")
    case Nil
    then show ?thesis using assms by (simp add: spin_receive_Nil)
  next
    case (Cons msg rest)
    then obtain r mh es1
      where h: "MessageHandler_handleMessage ph msg (m_messageHandler b) = Inr (r, mh, es1)"
      using step by (auto simp: spin_receive_Cons rbind_eq_Inr)
    have "message_handler_inv (m_messageHandler b)"
      using wf by (simp add: bridge_wf_def message_handler_inv_def)
    note pres = MessageHandler_preserves [OF this h]
    have "length (m_calls (user_calls b)) \<le> length (m_calls (m_userCallRequestHandler mh))"
      using pres(3) by auto
    then have "handle_wf (length (m_calls (m_userCallRequestHandler mh))) g"
      if "g \<in> set (m_inboundRequestsQueue b)" for g
      using that wf handle_wf_mono by (auto simp: bridge_wf_def)
    then show ?thesis
      using step Cons h pres(1,2,4)
      by (cases r) (auto simp: spin_receive_Cons Let_def bridge_wf_def message_handler_inv_def
          handled_wf_def)
  qed
  then show "bridge_wf b'" "callback_map b' = callback_map b" by blast+
qed

lemma spin_receive_ok:
  assumes "\<forall>m \<in> set (inbound b). message_wf m"
  shows "ok (spin_receive ph b) \<longleftrightarrow> \<not> front_faults b"
proof (cases "inbound b")
  case Nil
  then show ?thesis by (simp add: spin_receive_Nil front_faults_def)
next
  case (Cons msg rest)
  have "ok (spin_receive ph b) \<longleftrightarrow> ok (MessageHandler_handleMessage ph msg (m_messageHandler b))"
    using Cons
    by (cases "MessageHandler_handleMessage ph msg (m_messageHandler b)")
       (auto simp: spin_receive_Cons Let_def split: handled.split)
  moreover have "\<not> ok (MessageHandler_handleMessage ph msg (m_messageHandler b)) \<longleftrightarrow>
      asks_index_at_size msg (callback_map b)"
    using MessageHandler_ok [of msg "m_messageHandler b" ph] MessageHandler_index_fault [of msg "m_messageHandler b" ph]
      assms Cons by auto
  ultimately show ?thesis using Cons by (auto simp: front_faults_def)
qed

lemma spin_connected_eq:
  assumes wf: "bridge_wf b" and rcv: "spin_receive ph b = Inr (b1, es1)"
  shows "\<exists>es2. spin_connected ph rnd b =
    Inr (b1\<lparr>rand_calls := rand_calls b1 + length (serialized es2),
            m_inboundRequestsQueue := filter (unfinished (user_calls b1)) (m_inboundRequestsQueue b1)\<rparr>,
         es1 @ es2) \<and>
    serialized es2 = return_messages ph rnd (user_calls b1) (m_inboundRequestsQueue b1) (rand_calls b1)"
proof -
  have "\<forall>h \<in> set (m_inboundRequestsQueue b1). handle_wf (length (m_calls (user_calls b1))) h"
    using spin_receive_wf [OF wf rcv] by (simp add: bridge_wf_def)
  from sweep_requests_eq [OF this, of ph rnd] show ?thesis
    by (auto simp: spin_connected_def rcv)
qed


subsection \<open>One spin without a client\<close>

definition stays_connected :: "stream_read \<Rightarrow> bool" where
  "stays_connected d \<longleftrightarrow> (\<forall>(r, n) \<in> set (recv_results d). r \<noteq> 0)"

lemma tcp_receive_run:
  assumes "m_clientFd s \<noteq> None"
  shows "\<exists>ret s' es. tcp_receive r n s = Inr (ret, s', es) \<and> m_clientFd s' = m_clientFd s \<and>
    m_isClientConnected s' = (m_isClientConnected s \<and> r \<noteq> 0) \<and> serialized es = []"
  using assms
  by (cases "m_onDisonnect s") (auto simp: tcp_receive_def tcp_close_def Let_def call_hook_def)

lemma receive_calls_run:
  assumes "m_clientFd s \<noteq> None"
  shows "\<exists>s' es. receive_calls rs s = Inr (s', es) \<and> m_clientFd s' = m_clientFd s \<and>
    m_isClientConnected s' = (m_isClientConnected s \<and> (\<forall>(r, n) \<in> set rs. r \<noteq> 0)) \<and>
    serialized es = []"
  using assms
proof (induction rs arbitrary: s)
  case Nil
  then show ?case by simp
next
  case (Cons c rs)
  obtain r n where c: "c = (r, n)" by fastforce
  obtain ret s1 es1 where r: "tcp_receive r n s = Inr (ret, s1, es1)" "m_clientFd s1 = m_clientFd s"
    "m_isClientConnected s1 = (m_isClientConnected s \<and> r \<noteq> 0)" "serialized es1 = []"
    using tcp_receive_run [OF Cons.prems, of r n] by blast
  then show ?case
    using Cons.IH [of s1] Cons.prems by (auto simp: c)
qed

lemma deserialize_run:
  assumes "m_clientFd (m_tcpServer b) \<noteq> None"
  shows "\<exists>s es. deserializeFromStream d b = Inr (read_ok d, read_message d, b\<lparr>m_tcpServer := s\<rparr>, es) \<and>
    m_clientFd s = m_clientFd (m_tcpServer b) \<and>
    m_isClientConnected s = (isTCPClientConnected b \<and> stays_connected d) \<and> serialized es = []"
  using receive_calls_run [OF assms, of "recv_results d"]
  by (auto simp: deserializeFromStream_def stays_connected_def isTCPClientConnected_def
      tcp_isClientConnected_def)

lemma call_hook_serialized [simp]:
  "serialized (call_hook ConnectHook h) = []" "serialized (call_hook DisconnectHook h) = []"
  by (auto simp: call_hook_def split: option.split)

lemma tcp_listen_run:
  "\<exists>s' es. tcp_listen l a s = (s', es) \<and> m_clientFd s' = Some a \<and> m_isClientConnected s' = (0 \<le> a) \<and>
    serialized es = []"
  by (auto simp: tcp_listen_def Let_def)

lemma tcp_close_run:
  assumes "m_clientFd s = Some fd"
  shows "\<exists>es. tcp_close s = Inr (s\<lparr>m_isClientConnected := False\<rparr>, es) \<and> serialized es = []"
  using assms by (simp add: tcp_close_def)

lemma spin_reconnect_eq:
  assumes "tcp_listen (listen_result env) (accept_result env) (m_tcpServer b) = (s, es)"
  shows "spin_reconnect env b =
    rbind (greet (greet_read env) (b\<lparr>m_inboundThread := NoThread, m_outboundThread := NoThread, m_tcpServer := s\<rparr>))
     (\<lambda>(greeted, b, es').
      if greeted then
        rbind (start_thread (m_inboundThread b)) (\<lambda>t.
        let b = b\<lparr>m_inboundThread := t\<rparr> in
        rbind (start_thread (m_outboundThread b)) (\<lambda>t.
          Inr (b\<lparr>m_outboundThread := t\<rparr>, es @ es')))
      else
        rbind (tcp_close (m_tcpServer b)) (\<lambda>(s, es'').
          Inr (b\<lparr>m_tcpServer := s\<rparr>, es @ es' @ es'')))"
  using assms by (cases b) (simp add: spin_reconnect_def joinable_def join_def Let_def)

text \<open>The bridge after a spin without a client, before the keep-alive counting.\<close>

lemma spin_reconnect_run:
  fixes env b
  defines "acc \<equiv> 0 \<le> accept_result env" and "g \<equiv> handleGreet (read_message (greet_read env))"
  shows "\<exists>s t es. spin_reconnect env b =
      Inr (b\<lparr>m_tcpServer := s, m_inboundThread := t, m_outboundThread := t,
             m_swarmAgentID := (case g of Some i \<Rightarrow> if acc then i else m_swarmAgentID b
                                | None \<Rightarrow> m_swarmAgentID b)\<rparr>, es) \<and>
    m_clientFd s = Some (accept_result env) \<and>
    (m_isClientConnected s \<longleftrightarrow> acc \<and> g \<noteq> None \<and> stays_connected (greet_read env)) \<and>
    t = (if acc \<and> g \<noteq> None then RunningThread else NoThread) \<and>
    serialized es = (if acc then [createGreetMessage] else [])"
proof -
  let ?b = "b\<lparr>m_inboundThread := NoThread, m_outboundThread := NoThread\<rparr>"
  obtain s es where l: "tcp_listen (listen_result env) (accept_result env) (m_tcpServer b) = (s, es)"
    "m_clientFd s = Some (accept_result env)" "m_isClientConnected s = acc" "serialized es = []"
    using tcp_listen_run unfolding acc_def by blast
  let ?b1 = "?b\<lparr>m_tcpServer := s\<rparr>"
  note rec = spin_reconnect_eq [OF l(1)]
  have con: "isTCPClientConnected ?b1 = acc"
    using l(3) by (simp add: isTCPClientConnected_def tcp_isClientConnected_def)
  have "\<exists>s1 es1. deserializeFromStream (greet_read env) ?b1 =
      Inr (read_ok (greet_read env), read_message (greet_read env), ?b1\<lparr>m_tcpServer := s1\<rparr>, es1) \<and>
    m_clientFd s1 = m_clientFd (m_tcpServer ?b1) \<and>
    m_isClientConnected s1 = (isTCPClientConnected ?b1 \<and> stays_connected (greet_read env)) \<and>
    serialized es1 = []"
    by (rule deserialize_run) (simp add: l(2))
  then obtain s1 es1 where d: "deserializeFromStream (greet_read env) ?b1 =
      Inr (read_ok (greet_read env), read_message (greet_read env), ?b1\<lparr>m_tcpServer := s1\<rparr>, es1)"
    "m_clientFd s1 = Some (accept_result env)"
    "m_isClientConnected s1 = (acc \<and> stays_connected (greet_read env))" "serialized es1 = []"
    using l(2) con by auto
  show ?thesis
  proof (cases "acc \<and> g \<noteq> None")
    case True
    then obtain i where "g = Some i" by blast
    then show ?thesis
      using True d l(4) con rec
      by (cases b) (simp add: greet_def Let_def g_def start_thread_def joinable_def)
  next
    case False
    show ?thesis
    proof (cases acc)
      case True
      then have "g = None" using False by simp
      moreover obtain es2 where "tcp_close s1 = Inr (s1\<lparr>m_isClientConnected := False\<rparr>, es2)"
        "serialized es2 = []"
        using tcp_close_run [OF d(2)] by blast
      ultimately show ?thesis
        using True d l(4) con rec
        by (cases b) (simp add: greet_def Let_def g_def)
    next
      case no: False
      obtain es2 where "tcp_close s = Inr (s\<lparr>m_isClientConnected := False\<rparr>, es2)"
        "serialized es2 = []"
        using tcp_close_run [OF l(2)] by blast
      then show ?thesis
        using no l con rec
        by (cases b) (simp add: greet_def Let_def split: option.split)
    qed
  qed
qed


lemma spin_wait:
  assumes "\<not> isTCPClientConnected b"
  shows "\<exists>s t es. spin ph rnd env b =
      Inr (spin_keepAlive (b\<lparr>m_tcpServer := s, m_inboundThread := t, m_outboundThread := t,
             m_swarmAgentID := (case handleGreet (read_message (greet_read env)) of
                 Some i \<Rightarrow> if 0 \<le> accept_result env then i else m_swarmAgentID b
               | None \<Rightarrow> m_swarmAgentID b)\<rparr>), es) \<and>
    m_clientFd s = Some (accept_result env) \<and>
    (m_isClientConnected s \<longleftrightarrow> 0 \<le> accept_result env \<and>
       handleGreet (read_message (greet_read env)) \<noteq> None \<and> stays_connected (greet_read env)) \<and>
    t = (if 0 \<le> accept_result env \<and> handleGreet (read_message (greet_read env)) \<noteq> None
         then RunningThread else NoThread) \<and>
    serialized es = (if 0 \<le> accept_result env then [createGreetMessage] else [])"
  using spin_reconnect_run [of env b] assms by (auto simp: spin_def)

text \<open>
  C20. Without a client a spin never leaves the defined behaviour of C++, whatever the sockets do: it
  waits for one \<open>accept\<close>; an accepted client is greeted, first of all. If it answers with a
  greeting, the bridge takes the id in it for its agent id and starts both threads; otherwise the
  connection is closed, no thread is started and the agent id stays. No thread is ever assigned
  while it is joinable.
\<close>

theorem spin_without_client:
  assumes "\<not> isTCPClientConnected b"
  shows "\<exists>b' es. spin ph rnd env b = Inr (b', es) \<and>
    serialized es = (if 0 \<le> accept_result env then [createGreetMessage] else []) \<and>
    (if 0 \<le> accept_result env \<and> (\<exists>i. getMessage (read_message (greet_read env)) = Greeting i)
     then getMessage (read_message (greet_read env)) = Greeting (getSwarmAgentId b') \<and>
          m_inboundThread b' = RunningThread \<and> m_outboundThread b' = RunningThread \<and>
          (isTCPClientConnected b' \<longleftrightarrow> stays_connected (greet_read env))
     else getSwarmAgentId b' = getSwarmAgentId b \<and> \<not> isTCPClientConnected b' \<and>
          m_inboundThread b' = NoThread \<and> m_outboundThread b' = NoThread)"
  using spin_wait [OF assms, of ph rnd env]
  by (auto simp: getSwarmAgentId_def isTCPClientConnected_def tcp_isClientConnected_def
      handleGreet_def split: message_body.splits)


subsection \<open>Spins with a client\<close>

lemma spin_served:
  assumes "isTCPClientConnected b"
  shows "spin ph rnd env b = rbind (spin_connected ph rnd b) (\<lambda>(b, es). Inr (spin_keepAlive b, es))"
  using assms by (simp add: spin_def)

lemma sweep_frame:
  "sweep_requests ph rnd hs b = Inr (kept, b', es) \<Longrightarrow> \<exists>n. b' = b\<lparr>rand_calls := n\<rparr>"
proof (induction hs arbitrary: b kept es)
  case Nil
  then have "b' = b\<lparr>rand_calls := rand_calls b\<rparr>" by simp
  then show ?case by (rule exI)
next
  case (Cons h hs)
  have ret: "\<exists>n. b1 = b\<lparr>rand_calls := n\<rparr>" if "sendReturn ph rnd h b = Inr (b1, es1)" for b1 es1
    using that
    by (cases b) (auto simp: sendReturn_def rbind_eq_Inr Let_def nextRandomId_def split: option.splits if_splits)
  show ?case
  proof (cases "m_callbackReturnContext h")
    case None
    then show ?thesis using Cons by (simp add: bridge_defs)
  next
    case (Some i)
    show ?thesis
    proof (cases "is_ready (user_calls b) i")
      case True
      then obtain b1 es1 kept' es2 where r: "sendReturn ph rnd h b = Inr (b1, es1)"
        "sweep_requests ph rnd hs b1 = Inr (kept', b', es2)"
        using Cons.prems Some by (auto simp: bridge_defs rbind_eq_Inr)
      from ret [OF r(1)] Cons.IH [OF r(2)] show ?thesis by auto
    next
      case False
      then show ?thesis using Cons Some by (auto simp: bridge_defs rbind_eq_Inr)
    qed
  qed
qed

lemma spin_connected_frame:
  assumes "spin_connected ph rnd b = Inr (b', es)"
  shows "m_tcpServer b' = m_tcpServer b" "m_outboundQueue b' = m_outboundQueue b"
    "m_keepAliveCounter b' = m_keepAliveCounter b" "m_keepAliveNbSpin b' = m_keepAliveNbSpin b"
    "m_swarmAgentID b' = m_swarmAgentID b" "m_inboundThread b' = m_inboundThread b"
    "m_outboundThread b' = m_outboundThread b" "inbound b' = tl (inbound b)"
proof -
  obtain b1 es1 kept b2 es2 where r: "spin_receive ph b = Inr (b1, es1)"
    and sw: "sweep_requests ph rnd (m_inboundRequestsQueue b1) b1 = Inr (kept, b2, es2)"
    and b': "b' = b2\<lparr>m_inboundRequestsQueue := kept\<rparr>"
    using assms by (auto simp: spin_connected_def rbind_eq_Inr)
  obtain n where "b2 = b1\<lparr>rand_calls := n\<rparr>" using sweep_frame [OF sw] by blast
  then show "m_tcpServer b' = m_tcpServer b" "m_outboundQueue b' = m_outboundQueue b"
    "m_keepAliveCounter b' = m_keepAliveCounter b" "m_keepAliveNbSpin b' = m_keepAliveNbSpin b"
    "m_swarmAgentID b' = m_swarmAgentID b" "m_inboundThread b' = m_inboundThread b"
    "m_outboundThread b' = m_outboundThread b" "inbound b' = tl (inbound b)"
    using spin_receive_frame [OF r] by (simp_all add: b')
qed

lemma spin_connected_ok:
  assumes "bridge_wf b" "\<forall>m \<in> set (inbound b). message_wf m"
  shows "ok (spin_connected ph rnd b) \<longleftrightarrow> \<not> front_faults b"
proof (cases "spin_receive ph b")
  case (Inl e)
  then show ?thesis using spin_receive_ok [OF assms(2), of ph] by (simp add: spin_connected_def)
next
  case (Inr r)
  obtain b1 es1 where "spin_receive ph b = Inr (b1, es1)" using Inr by (cases r) simp
  with spin_connected_eq [OF assms(1) this, of rnd] spin_receive_ok [OF assms(2), of ph]
  show ?thesis by auto
qed

lemma spin_connected_wf:
  assumes "bridge_wf b" "spin_connected ph rnd b = Inr (b', es)"
  shows "bridge_wf b'" "callback_map b' = callback_map b"
proof -
  obtain b1 es1 where r: "spin_receive ph b = Inr (b1, es1)"
    using assms(2) by (auto simp: spin_connected_def rbind_eq_Inr)
  show "bridge_wf b'" "callback_map b' = callback_map b"
    using spin_connected_eq [OF assms(1) r, of rnd] assms(2) spin_receive_wf [OF assms(1) r]
    by (auto simp: bridge_wf_def)
qed

text \<open>
  With a client, a spin on a bridge in order leaves the defined behaviour of C++ exactly when
  the message it handles is a description request whose index equals the number of registered
  actions; every other well-formed message, answer and pending call is handled without a fault.
\<close>

theorem spin_fault_iff:
  assumes "isTCPClientConnected b" "bridge_wf b" "\<forall>m \<in> set (inbound b). message_wf m"
  shows "(\<exists>e. spin ph rnd env b = Inl e) \<longleftrightarrow>
    inbound b \<noteq> [] \<and> asks_index_at_size (hd (inbound b)) (callback_map b)"
proof -
  have "(\<exists>e. spin ph rnd env b = Inl e) \<longleftrightarrow> \<not> ok (spin_connected ph rnd b)"
    by (cases "spin_connected ph rnd b") (auto simp: spin_served [OF assms(1)])
  then show ?thesis
    using spin_connected_ok [OF assms(2,3)] by (simp add: front_faults_def)
qed

fun spins ::
  "pheromones \<Rightarrow> (nat \<Rightarrow> int) \<Rightarrow> accept_env list \<Rightarrow> HiveMindBridgeImpl \<Rightarrow>
    (HiveMindBridgeImpl \<times> event list) result" where
  "spins ph rnd [] b = Inr (b, [])"
| "spins ph rnd (env # envs) b =
     rbind (spin ph rnd env b) (\<lambda>(b, es).
       rbind (spins ph rnd envs b) (\<lambda>(b, es'). Inr (b, es @ es')))"

lemma spin_served_step:
  assumes "isTCPClientConnected b" "spin ph rnd env b = Inr (b', es)"
  shows "isTCPClientConnected b'" "m_keepAliveNbSpin b' = m_keepAliveNbSpin b"
    "m_keepAliveCounter b' = keepAlive_next (m_keepAliveNbSpin b) (m_keepAliveCounter b)"
    "outbound b' = outbound b @
       (if keepAlive_due (m_keepAliveNbSpin b) (m_keepAliveCounter b)
        then [mk_OutboundRequestHandle createGreetMessage] else [])"
proof -
  obtain b1 where b1: "spin_connected ph rnd b = Inr (b1, es)" "b' = spin_keepAlive b1"
    using assms by (auto simp: spin_served rbind_eq_Inr)
  note frame = spin_connected_frame [OF b1(1)]
  show "isTCPClientConnected b'" "m_keepAliveNbSpin b' = m_keepAliveNbSpin b"
    "m_keepAliveCounter b' = keepAlive_next (m_keepAliveNbSpin b) (m_keepAliveCounter b)"
    "outbound b' = outbound b @
       (if keepAlive_due (m_keepAliveNbSpin b) (m_keepAliveCounter b)
        then [mk_OutboundRequestHandle createGreetMessage] else [])"
    using assms(1) by (simp_all add: b1(2) spin_keepAlive_eq frame isTCPClientConnected_def)
qed

lemma count_multiples: "0 < n \<Longrightarrow> length (filter (\<lambda>j. j mod n = 0) [1 ..< Suc k]) = k div n"
  by (induction k) (auto simp: div_Suc)

lemma spins_keepAlive:
  assumes "isTCPClientConnected b" "0 < m_keepAliveNbSpin b" "0 < k"
    "m_keepAliveCounter b = word_of_nat ((k - 1) mod unat (m_keepAliveNbSpin b) + 1)"
    "spins ph rnd envs b = Inr (b', es)"
  shows "outbound b' = outbound b @
      replicate (length (filter (\<lambda>j. j mod unat (m_keepAliveNbSpin b) = 0) [k ..< k + length envs]))
        (mk_OutboundRequestHandle createGreetMessage) \<and>
    m_keepAliveCounter b' =
      word_of_nat ((k + length envs - 1) mod unat (m_keepAliveNbSpin b) + 1)"
  using assms
proof (induction envs arbitrary: b k es)
  case Nil
  then show ?case by simp
next
  case (Cons env envs)
  let ?n = "m_keepAliveNbSpin b"
  obtain b1 es1 es2 where s: "spin ph rnd env b = Inr (b1, es1)"
    and ss: "spins ph rnd envs b1 = Inr (b', es2)"
    using Cons.prems(5) by (auto simp: rbind_eq_Inr)
  note step = spin_served_step [OF Cons.prems(1) s]
  note count = keepAlive_next_count [OF Cons.prems(2,4,3)]
  have "m_keepAliveCounter b1 = word_of_nat ((Suc k - 1) mod unat (m_keepAliveNbSpin b1) + 1)"
    using step(2,3) count(1) by simp
  from Cons.IH [OF step(1) _ _ this ss] Cons.prems(2) step(2)
  have "outbound b' = outbound b1 @
      replicate (length (filter (\<lambda>j. j mod unat ?n = 0) [Suc k ..< Suc k + length envs]))
        (mk_OutboundRequestHandle createGreetMessage)"
    "m_keepAliveCounter b' = word_of_nat ((Suc k + length envs - 1) mod unat ?n + 1)"
    by simp_all
  moreover have "[k ..< k + length (env # envs)] = k # [Suc k ..< Suc k + length envs]"
    by (subst upt_rec) simp
  ultimately show ?case using step(4) count(2) by simp
qed

text \<open>
  Consecutive spins from any counter within the period: the greetings queued and the counter after
  them, in closed form.
\<close>

lemma count_multiples_from:
  assumes "0 < n" "1 \<le> c" "c \<le> n"
  shows "length (filter (\<lambda>j. j mod n = 0) [c ..< c + k]) = (c - 1 + k) div n"
proof -
  have "[1 ..< Suc (c - 1 + k)] = [1 ..< c] @ [c ..< c + k]"
    using assms(2) upt_add_eq_append [of 1 c k] by simp
  moreover have "filter (\<lambda>j. j mod n = 0) [1 ..< c] = []"
    using assms(3) by (auto simp: filter_empty_conv)
  ultimately have "length (filter (\<lambda>j. j mod n = 0) [c ..< c + k]) =
      length (filter (\<lambda>j. j mod n = 0) [1 ..< Suc (c - 1 + k)])"
    by (metis append_Nil filter_append)
  then show ?thesis using count_multiples [OF assms(1), of "c - 1 + k"] by simp
qed

lemma spins_greetings:
  assumes "isTCPClientConnected b" "1 \<le> unat (m_keepAliveCounter b)"
    "m_keepAliveCounter b \<le> m_keepAliveNbSpin b" "spins ph rnd envs b = Inr (b', es)"
  shows "outbound b' = outbound b @
      replicate ((unat (m_keepAliveCounter b) - 1 + length envs) div unat (m_keepAliveNbSpin b))
        (mk_OutboundRequestHandle createGreetMessage)"
    and "unat (m_keepAliveCounter b') =
      (unat (m_keepAliveCounter b) - 1 + length envs) mod unat (m_keepAliveNbSpin b) + 1"
proof -
  let ?n = "unat (m_keepAliveNbSpin b)" and ?c = "unat (m_keepAliveCounter b)"
  have c: "1 \<le> ?c" "?c \<le> ?n" using assms(2,3) by (simp_all add: word_le_nat_alt)
  then have n: "0 < ?n" "?n < 4294967296" using u32_bound by auto
  have counter: "m_keepAliveCounter b = word_of_nat ((?c - 1) mod ?n + 1)"
    using c by (simp add: mod_less)
  have nw: "0 < m_keepAliveNbSpin b" using n(1) by (simp add: unat_gt_0 word_gt_0)
  have c0: "0 < ?c" using c(1) by simp
  note run = spins_keepAlive [OF assms(1) nw c0 counter assms(4)]
  show "outbound b' = outbound b @
      replicate ((?c - 1 + length envs) div ?n) (mk_OutboundRequestHandle createGreetMessage)"
    using run count_multiples_from [OF n(1) c] by simp
  have "(?c - 1 + length envs) mod ?n + 1 < 4294967296"
    using mod_less_divisor [OF n(1), of "?c - 1 + length envs"] n(2) by linarith
  from u32_of_nat [OF this] show "unat (m_keepAliveCounter b') = (?c - 1 + length envs) mod ?n + 1"
    using run c(1) by simp
qed

lemma keepAlive_next_pos:
  assumes "0 < n" "c \<le> n"
  shows "1 \<le> unat (keepAlive_next n c)"
proof (cases "n \<le> c")
  case False
  then have "c < n" by simp
  then have "unat (c + 1) = unat c + 1"
    by (intro u32_unat_plus1) (use u32_bound [of n] in \<open>auto simp: word_less_nat_alt unsigned_minus_1_eq_mask mask_eq_exp_minus_1\<close>)
  then show ?thesis using False assms(1) by (auto simp: keepAlive_next_def)
qed (use assms in \<open>simp add: keepAlive_next_def\<close>)


subsection \<open>A call from arrival to return\<close>

text \<open>The thread of call number \<open>i\<close> finishes it while the bridge goes on.\<close>

definition set_user_calls :: "UserCallRequestHandler \<Rightarrow> HiveMindBridgeImpl \<Rightarrow> HiveMindBridgeImpl" where
  "set_user_calls u b =
     b\<lparr>m_messageHandler := (m_messageHandler b)\<lparr>m_userCallRequestHandler := u\<rparr>\<rparr>"

definition finish_call :: "nat \<Rightarrow> HiveMindBridgeImpl \<Rightarrow> HiveMindBridgeImpl \<times> event list" where
  "finish_call i b = (let (u, es) = run_call i (user_calls b) in (set_user_calls u b, es))"

lemma finish_call_frame [simp]:
  "m_tcpServer (fst (finish_call i b)) = m_tcpServer b"
  "m_inboundQueue (fst (finish_call i b)) = m_inboundQueue b"
  "m_outboundQueue (fst (finish_call i b)) = m_outboundQueue b"
  "m_inboundThread (fst (finish_call i b)) = m_inboundThread b"
  "m_outboundThread (fst (finish_call i b)) = m_outboundThread b"
  "m_inboundRequestsQueue (fst (finish_call i b)) = m_inboundRequestsQueue b"
  "m_inboundResponsesMap (fst (finish_call i b)) = m_inboundResponsesMap b"
  "m_swarmAgentID (fst (finish_call i b)) = m_swarmAgentID b"
  "m_keepAliveNbSpin (fst (finish_call i b)) = m_keepAliveNbSpin b"
  "m_keepAliveCounter (fst (finish_call i b)) = m_keepAliveCounter b"
  "rand_calls (fst (finish_call i b)) = rand_calls b"
  "user_calls (fst (finish_call i b)) = fst (run_call i (user_calls b))"
  by (simp_all add: finish_call_def set_user_calls_def case_prod_unfold Let_def)

lemma finish_call_wf: "bridge_wf b \<Longrightarrow> bridge_wf (fst (finish_call i b))"
  using run_call_inv run_call_frame(2) by (auto simp: bridge_wf_def)

definition call_message :: "u32 \<Rightarrow> u32 \<Rightarrow> u32 \<Rightarrow> UserCallTargetDTO \<Rightarrow> UserCallTargetDTO \<Rightarrow>
    FunctionCallRequestDTO \<Rightarrow> MessageDTO" where
  "call_message src dst rid smod dmod fc =
     \<lparr>getSourceId = src, getDestinationId = dst,
      getMessage = Request \<lparr>getRequestId = rid, getRequest = UserCallRequest
        \<lparr>getSource = smod, getDestination = dmod, getUserCallRequest = FunctionCallRequest fc\<rparr>\<rparr>\<rparr>"

definition call_ack :: "pheromones \<Rightarrow> u32 \<Rightarrow> u32 \<Rightarrow> u32 \<Rightarrow> UserCallTargetDTO \<Rightarrow> MessageDTO" where
  "call_ack ph src dst rid smod =
     \<lparr>getSourceId = dst, getDestinationId = src,
      getMessage = Response \<lparr>getResponseRequestId = rid, getResponse = UserCallResponse
        \<lparr>getResponseSource = HOST, getResponseDestination = smod,
         getUserCallResponse = FunctionCallResponse (mk_FunctionCallResponseDTO ph Ok [])\<rparr>\<rparr>\<rparr>"

definition call_handle ::
  "pheromones \<Rightarrow> u32 \<Rightarrow> u32 \<Rightarrow> u32 \<Rightarrow> UserCallTargetDTO \<Rightarrow> FunctionCallRequestDTO \<Rightarrow> nat \<Rightarrow>
    InboundRequestHandle" where
  "call_handle ph src dst rid smod fc i =
     \<lparr>m_callbackName = getFunctionName fc, m_responseMessage = call_ack ph src dst rid smod,
      m_callbackReturnContext = Some i, m_msgSourceId = Some src, m_msgDestinationId = Some dst,
      m_sourceModule = Some smod\<rparr>"

lemma call_message_handled:
  assumes "getCallback (getFunctionName fc) (m_callbackMap (m_userCallRequestHandler s)) = Some f"
  shows "MessageHandler_handleMessage ph (call_message src dst rid smod dmod fc) s =
    Inr (HandledRequest (call_handle ph src dst rid smod fc (length (m_calls (m_userCallRequestHandler s)))),
         s\<lparr>m_userCallRequestHandler := (m_userCallRequestHandler s)
             \<lparr>m_calls := m_calls (m_userCallRequestHandler s) @
                [Running (getFunctionName fc) (getArguments fc)]\<rparr>\<rparr>, [])"
  using assms
  by (simp add: MessageHandler_handleMessage_def UserCallRequestHandler_handleMessage_def
      handleFunctionCallRequest_def call_message_def call_handle_def call_ack_def bridge_defs Let_def)

text \<open>The spin that finds the call still running, and the spin that finds it finished.\<close>

lemma spin_no_message:
  assumes "isTCPClientConnected b" "bridge_wf b" "inbound b = []"
  shows "\<exists>b' es. spin ph rnd env b = Inr (b', es) \<and>
    serialized es = return_messages ph rnd (user_calls b) (m_inboundRequestsQueue b) (rand_calls b) \<and>
    m_inboundRequestsQueue b' = filter (unfinished (user_calls b)) (m_inboundRequestsQueue b)"
  using spin_connected_eq [OF assms(2) spin_receive_Nil [OF assms(3)], of ph rnd]
  by (auto simp: spin_served [OF assms(1)])

lemma spin_call_message:
  assumes "isTCPClientConnected b" "bridge_wf b" "m_inboundRequestsQueue b = []"
    and "inbound b = [call_message src dst rid smod dmod fc]"
    and "getCallback (getFunctionName fc) (callback_map b) = Some f"
  shows "\<exists>b'. spin ph rnd env b = Inr (b', [SerializeToStream (call_ack ph src dst rid smod)]) \<and>
    isTCPClientConnected b' \<and> bridge_wf b' \<and> inbound b' = [] \<and> rand_calls b' = rand_calls b \<and>
    m_inboundRequestsQueue b' = [call_handle ph src dst rid smod fc (length (m_calls (user_calls b)))] \<and>
    m_inboundResponsesMap b' = m_inboundResponsesMap b \<and>
    callback_map b' = callback_map b \<and>
    m_calls (user_calls b') = m_calls (user_calls b) @ [Running (getFunctionName fc) (getArguments fc)]"
proof -
  let ?h = "call_handle ph src dst rid smod fc (length (m_calls (user_calls b)))"
  let ?mh = "(m_messageHandler b)\<lparr>m_userCallRequestHandler := (user_calls b)
             \<lparr>m_calls := m_calls (user_calls b) @ [Running (getFunctionName fc) (getArguments fc)]\<rparr>\<rparr>"
  let ?b1 = "b\<lparr>m_messageHandler := ?mh, m_inboundQueue := (m_inboundQueue b)\<lparr>m_queue := []\<rparr>,
    m_inboundRequestsQueue := [?h]\<rparr>"
  have rcv: "spin_receive ph b = Inr (?b1, [SerializeToStream (call_ack ph src dst rid smod)])"
    using assms(3-5) by (simp add: spin_receive_Cons call_message_handled call_handle_def)
  note wf1 = spin_receive_wf [OF assms(2) rcv]
  have "spin_connected ph rnd b = Inr (?b1, [SerializeToStream (call_ack ph src dst rid smod)])"
    by (simp add: spin_connected_def rcv call_handle_def is_ready_def bridge_defs)
  then have "spin ph rnd env b = Inr (spin_keepAlive ?b1, [SerializeToStream (call_ack ph src dst rid smod)])"
    by (simp add: spin_served [OF assms(1)])
  moreover have "bridge_wf (spin_keepAlive ?b1)"
    using wf1(1) by (simp add: bridge_wf_def)
  ultimately show ?thesis
    using assms(1) by (simp add: isTCPClientConnected_def)
qed

lemma finish_call_returns:
  assumes "m_calls (user_calls b) = cs @ [Running name args]"
    and "getCallback name (callback_map b) = Some f" "call_function f args = Returns r"
  shows "m_calls (user_calls (fst (finish_call (length cs) b))) = cs @ [Ready r]"
  using assms by (simp add: run_call_def callbackWrapper_def)

lemma call_answered_and_returned:
  assumes "isTCPClientConnected b" "bridge_wf b" "m_inboundRequestsQueue b = []"
    and "inbound b = [call_message src dst rid smod dmod fc]"
    and "getCallback (getFunctionName fc) (callback_map b) = Some f"
    and "call_function f (getArguments fc) = Returns (Some r)"
    and "length (getReturnArgs r) \<le> FUNCTION_CALL_ARGUMENTS_MAX_LENGTH ph"
  shows "\<exists>b1 es1 b2 es2. spin ph rnd env b = Inr (b1, es1) \<and>
    serialized es1 = [call_ack ph src dst rid smod] \<and>
    spin ph rnd env' (fst (finish_call (length (m_calls (user_calls b))) b1)) = Inr (b2, es2) \<and>
    serialized es2 =
      [createFunctionCallRequest ph dst src (generateRandomId (rnd (rand_calls b))) smod
         (getReturnFunctionName r) (getReturnArgs r)] \<and>
    m_inboundRequestsQueue b2 = []"
proof -
  let ?n = "length (m_calls (user_calls b))"
  let ?h = "call_handle ph src dst rid smod fc ?n"
  obtain b1 where s: "spin ph rnd env b = Inr (b1, [SerializeToStream (call_ack ph src dst rid smod)])"
    and b1: "isTCPClientConnected b1" "bridge_wf b1" "inbound b1 = []" "rand_calls b1 = rand_calls b"
    "m_inboundRequestsQueue b1 = [?h]" "callback_map b1 = callback_map b"
    "m_calls (user_calls b1) = m_calls (user_calls b) @ [Running (getFunctionName fc) (getArguments fc)]"
    using spin_call_message [OF assms(1-5), of ph rnd env] by blast
  let ?b2 = "fst (finish_call ?n b1)"
  have calls: "m_calls (user_calls ?b2) = m_calls (user_calls b) @ [Ready (Some r)]"
    using finish_call_returns [OF b1(7)] assms(5,6) b1(6) by simp
  have fin: "\<not> unfinished (user_calls ?b2) ?h" "returned ph (user_calls ?b2) ?h = Some r"
    using assms(7) unfolding unfinished_def returned_def is_ready_def calls
    by (simp_all add: call_handle_def)
  have "isTCPClientConnected ?b2" "inbound ?b2 = []"
    using b1 by (simp_all add: isTCPClientConnected_def)
  from spin_no_message [OF this(1) finish_call_wf [OF b1(2)] this(2), of ph rnd env']
  obtain b3 es3 where "spin ph rnd env' ?b2 = Inr (b3, es3)"
    "serialized es3 = return_messages ph rnd (user_calls ?b2) [?h] (rand_calls b)"
    "m_inboundRequestsQueue b3 = filter (unfinished (user_calls ?b2)) [?h]"
    using b1(4,5) by (auto simp del: finish_call_frame(12))
  then show ?thesis
    using s fin by (auto simp: return_message_def call_handle_def simp del: finish_call_frame(12))
qed

text \<open>
  A remote call makes the whole round: the spin that receives the call of a registered action
  acknowledges it with \<open>Ok\<close> to the sender and sends nothing else; once the action's thread has
  returned a payload that fits, the next spin sends that payload, as a call from this agent to the
  module that called, and the call's handle is gone.
\<close>

theorem call_roundtrip:
  assumes "isTCPClientConnected b" "bridge_wf b" "m_inboundRequestsQueue b = []"
    and "inbound b = [call_message src dst rid smod dmod fc]"
    and "getCallback (getFunctionName fc) (callback_map b) = Some f"
    and "call_function f (getArguments fc) = Returns (Some r)"
    and "length (getReturnArgs r) \<le> FUNCTION_CALL_ARGUMENTS_MAX_LENGTH ph"
  shows "\<exists>b1 es1 b2 es2. spin ph rnd env b = Inr (b1, es1) \<and>
    serialized es1 = [call_ack ph src dst rid smod] \<and>
    spin ph rnd env' (fst (finish_call (length (m_calls (user_calls b))) b1)) = Inr (b2, es2) \<and>
    serialized es2 =
      [createFunctionCallRequest ph dst src (generateRandomId (rnd (rand_calls b))) smod
         (getReturnFunctionName r) (getReturnArgs r)] \<and>
    m_inboundRequestsQueue b2 = []"
  by (rule call_answered_and_returned [OF assms])

subsection \<open>Concrete bridges\<close>

text \<open>A registered action that sends its arguments back, a call of it, and a bridge that got it.\<close>

definition sample_echo :: CallbackFunction where
  "sample_echo = Some (\<lambda>args. Returns (Some \<lparr>m_args = args, m_returnFunctionName = ''back''\<rparr>))"

definition sample_call :: FunctionCallRequestDTO where
  "sample_call = \<lparr>getFunctionName = ''echo'', getArguments = [3, 5], getArgumentsLength = 2\<rparr>"

definition sample_echo_bridge :: HiveMindBridgeImpl where
  "sample_echo_bridge = snd (registerCustomAction ''echo'' sample_echo [] sample_bridge)"

definition sample_call_bridge :: HiveMindBridgeImpl where
  "sample_call_bridge = sample_echo_bridge\<lparr>m_inboundQueue :=
     push (call_message 1 2 9 BUZZ HOST sample_call) new_queue\<rparr>"

definition sample_env :: accept_env where
  "sample_env = \<lparr>listen_result = 0, accept_result = 5,
     greet_read = \<lparr>recv_results = [(4, 4)], read_ok = True,
       read_message = \<lparr>getSourceId = 42, getDestinationId = 0, getMessage = Greeting 42\<rparr>\<rparr>\<rparr>"

lemma sample_echo_simps [simp]:
  "isTCPClientConnected sample_echo_bridge" "inbound sample_echo_bridge = []"
  "outbound sample_echo_bridge = []" "m_inboundRequestsQueue sample_echo_bridge = []"
  "m_calls (user_calls sample_echo_bridge) = []" "m_keepAliveCounter sample_echo_bridge = 0"
  "m_keepAliveNbSpin sample_echo_bridge = 2" "m_callbackNames (callback_map sample_echo_bridge) = [''echo'']"
  "getCallback ''echo'' (callback_map sample_echo_bridge) = Some sample_echo"
  "rand_calls sample_echo_bridge = 0"
  by (simp_all add: sample_echo_bridge_def registerCustomAction_def Let_def case_prod_unfold
      set_callback_map_def sample_message_handler_def getCallback_eq registerCallback_names
      empty_callback_map_def
      isTCPClientConnected_def [of "m_tcpServer_update _ _"])
    (simp_all add: isTCPClientConnected_def sample_bridge_def new_HiveMindBridgeImpl_def
      tcp_isClientConnected_def tcp_listen_def new_TCPServer_def tcp_init_def Let_def)

lemma sample_echo_wf [simp]: "bridge_wf sample_echo_bridge"
proof -
  have "callback_map_inv (callback_map sample_echo_bridge)"
    by (auto simp: sample_echo_bridge_def registerCustomAction_def Let_def case_prod_unfold
        set_callback_map_def sample_message_handler_def)
  then show ?thesis by (simp add: bridge_wf_def user_calls_inv_def)
qed

lemma sample_call_simps [simp]:
  "isTCPClientConnected sample_call_bridge" "bridge_wf sample_call_bridge"
  "inbound sample_call_bridge = [call_message 1 2 9 BUZZ HOST sample_call]"
  "m_inboundRequestsQueue sample_call_bridge = []" "m_calls (user_calls sample_call_bridge) = []"
  "callback_map sample_call_bridge = callback_map sample_echo_bridge"
  "rand_calls sample_call_bridge = 0"
  using sample_echo_simps(1) sample_echo_wf
  by (simp_all add: sample_call_bridge_def isTCPClientConnected_def bridge_wf_def)

theorem call_roundtrip_witness:
  "\<exists>b1 es1 b2 es2. spin sample_pheromones (\<lambda>n. 100 + int n) sample_env sample_call_bridge = Inr (b1, es1) \<and>
    spin sample_pheromones (\<lambda>n. 100 + int n) sample_env (fst (finish_call 0 b1)) = Inr (b2, es2) \<and>
    serialized es2 = [createFunctionCallRequest sample_pheromones 2 1 100 BUZZ ''back'' [3, 5]]"
proof -
  let ?r = "\<lparr>m_args = [3, 5], m_returnFunctionName = ''back''\<rparr> :: CallbackReturn"
  have name: "getCallback (getFunctionName sample_call) (callback_map sample_call_bridge) = Some sample_echo"
    by (simp add: sample_call_def)
  have call: "call_function sample_echo (getArguments sample_call) = Returns (Some ?r)"
    by (simp add: call_function_def sample_echo_def sample_call_def)
  have len: "length (getReturnArgs ?r) \<le> FUNCTION_CALL_ARGUMENTS_MAX_LENGTH sample_pheromones"
    by (simp add: bridge_defs sample_pheromones_def)
  have "generateRandomId 100 = 100" by (simp add: generateRandomId_def)
  then show ?thesis
    using call_roundtrip [OF sample_call_simps(1,2,4,3) name call len, of "\<lambda>n. 100 + int n" sample_env sample_env]
    by (auto simp: bridge_defs)
qed

theorem sweep_returns_finished_calls_witness:
  "\<exists>b' es. sweep_requests sample_pheromones (\<lambda>n. 100)
      [call_handle sample_pheromones 1 2 9 BUZZ sample_call 0]
      (sample_bridge\<lparr>m_messageHandler := sample_message_handler\<lparr>m_userCallRequestHandler :=
         \<lparr>m_callbackMap = empty_callback_map,
          m_calls = [Ready (Some \<lparr>m_args = [3], m_returnFunctionName = ''back''\<rparr>)]\<rparr>\<rparr>\<rparr>) = Inr ([], b', es) \<and>
    serialized es = [createFunctionCallRequest sample_pheromones 2 1 100 BUZZ ''back'' [3]]"
  (is "\<exists>b' es. sweep_requests ?ph ?rnd [?h] ?b = _ \<and> _")
proof -
  have "\<forall>h \<in> set [?h]. handle_wf (length (m_calls (user_calls ?b))) h"
    by (simp add: handle_wf_def call_handle_def)
  from sweep_returns_finished_calls [OF this, of ?ph ?rnd] show ?thesis
    by (auto simp: unfinished_def returned_def is_ready_def call_handle_def return_message_def
        bridge_defs sample_pheromones_def generateRandomId_def)
qed

theorem spin_without_client_witness:
  "\<exists>b' es. spin sample_pheromones (\<lambda>n. 0) sample_env
      (sample_bridge\<lparr>m_tcpServer := fst (new_TCPServer 5000 3 0 0)\<rparr>) = Inr (b', es) \<and>
    serialized es = [createGreetMessage] \<and> getSwarmAgentId b' = 42 \<and> isTCPClientConnected b'"
  (is "\<exists>b' es. spin ?ph ?rnd _ ?b = _ \<and> _")
proof -
  have "\<not> isTCPClientConnected ?b"
    by (simp add: isTCPClientConnected_def tcp_isClientConnected_def new_TCPServer_def tcp_init_def)
  from spin_without_client [OF this, of ?ph ?rnd sample_env] show ?thesis
    by (auto simp: sample_env_def stays_connected_def)
qed

theorem spin_fault_iff_witness:
  "\<not> (\<exists>e. spin sample_pheromones (\<lambda>n. 0) sample_env sample_call_bridge = Inl e)"
proof -
  have "\<forall>m \<in> set (inbound sample_call_bridge). message_wf m"
    by (simp add: call_message_def message_wf_def)
  from spin_fault_iff [OF sample_call_simps(1,2) this, of sample_pheromones "\<lambda>n. 0" sample_env]
  show ?thesis by (simp add: call_message_def asks_index_at_size_def)
qed

text \<open>Served spins without inbound messages run to their end.\<close>

lemma idle_spins:
  assumes "isTCPClientConnected b" "bridge_wf b" "inbound b = []"
  shows "\<exists>b' es. spins ph rnd envs b = Inr (b', es)"
  using assms
proof (induction envs arbitrary: b)
  case (Cons env envs)
  have "ok (spin_connected ph rnd b)"
    using spin_connected_ok [OF Cons.prems(2)] Cons.prems(3) by (simp add: front_faults_def)
  then obtain b1 es1 where b1: "spin_connected ph rnd b = Inr (b1, es1)" by (auto simp: ok_iff)
  have "isTCPClientConnected (spin_keepAlive b1)" "bridge_wf (spin_keepAlive b1)" "inbound (spin_keepAlive b1) = []"
    using Cons.prems spin_connected_wf(1) [OF Cons.prems(2) b1] spin_connected_frame [OF b1]
    by (simp_all add: isTCPClientConnected_def bridge_wf_def)
  from Cons.IH [OF this] show ?case
    by (fastforce simp: spin_served [OF Cons.prems(1)] b1)
qed simp

end
