(* ===== verification/HiveMindBridge.thy ===== *)
theory HiveMindBridge
  imports Prelude Pheromones UserCallbackMap HostApiResponseHandler MessageHandler TCPServer
    HiveMindBridgeImpl SendBytes Spin
begin

section \<open>HiveMindBridge\<close>

text \<open>
  The class users create. It owns every component, gives them to a \<open>HiveMindBridgeImpl\<close> and passes
  each call on to the bridge or, for the neighbor callbacks, to the response handler. Its calls are
  the datatype \<open>api_call\<close>; \<open>api_step\<close> is the call's effect and result (\<open>None\<close> for \<open>void\<close>).
\<close>

definition new_MessageHandler :: MessageHandler where
  "new_MessageHandler =
     \<lparr>m_userCallRequestHandler = \<lparr>m_callbackMap = empty_callback_map, m_calls = []\<rparr>,
      m_hmRequestHandler = new_request_handler,
      m_hmResponseHandler = new_response_handler\<rparr>"

text \<open>The constructor, given the results of the socket calls in \<open>TCPServer::init\<close>.\<close>

definition new_HiveMindBridge ::
  "int \<Rightarrow> u32 \<Rightarrow> int \<Rightarrow> int \<Rightarrow> int \<Rightarrow> HiveMindBridgeImpl \<times> event list" where
  "new_HiveMindBridge tcpPort keepAliveNbSpin socket_ret setsockopt_ret bind_ret =
     (let (tcpServer, es) = new_TCPServer tcpPort socket_ret setsockopt_ret bind_ret
      in (new_HiveMindBridgeImpl tcpServer new_MessageHandler new_queue new_queue keepAliveNbSpin, es))"

datatype api_call =
    OnConnectCall "hook option"
  | OnDisconnectCall "hook option"
  | OnBytesReceivedCall "hook option"
  | OnNeighborListUpdatedCall "hook option"
  | OnNeighborUpdatedCall "hook option"
  | RegisterCustomActionCall string CallbackFunction CallbackArgsManifest
  | RegisterCustomActionNoManifestCall string CallbackFunction
  | QueueAndSendCall MessageDTO
  | SendBytesCall u32 "u8 list" u16
  | SendNeighborUpdateRequestCall u16
  | SendNeighborListUpdateRequestCall

definition set_response_handler ::
  "HiveMindHostApiResponseHandler \<Rightarrow> HiveMindBridgeImpl \<Rightarrow> HiveMindBridgeImpl" where
  "set_response_handler r b =
     b\<lparr>m_messageHandler := (m_messageHandler b)\<lparr>m_hmResponseHandler := r\<rparr>\<rparr>"

fun api_step ::
  "pheromones \<Rightarrow> (nat \<Rightarrow> int) \<Rightarrow> api_call \<Rightarrow> HiveMindBridgeImpl \<Rightarrow>
    bool option \<times> HiveMindBridgeImpl \<times> event list" where
  "api_step ph rnd (OnConnectCall h) b = (None, bridge_onConnect h b, [])"
| "api_step ph rnd (OnDisconnectCall h) b = (None, bridge_onDisconnect h b, [])"
| "api_step ph rnd (OnBytesReceivedCall h) b =
     (let (r, b) = bridge_onBytesReceived h b in (Some r, b, []))"
| "api_step ph rnd (OnNeighborListUpdatedCall h) b =
     (let (r, q) = onNeighborListUpdated h (m_hmResponseHandler (m_messageHandler b))
      in (Some r, set_response_handler q b, []))"
| "api_step ph rnd (OnNeighborUpdatedCall h) b =
     (let (r, q) = onNeighborUpdated h (m_hmResponseHandler (m_messageHandler b))
      in (Some r, set_response_handler q b, []))"
| "api_step ph rnd (RegisterCustomActionCall name f manifest) b =
     (let (r, b) = registerCustomAction name f manifest b in (Some r, b, []))"
| "api_step ph rnd (RegisterCustomActionNoManifestCall name f) b =
     (let (r, b) = registerCustomAction_noManifest name f b in (Some r, b, []))"
| "api_step ph rnd (QueueAndSendCall m) b = (let (r, b) = queueAndSend m b in (Some r, b, []))"
| "api_step ph rnd (SendBytesCall dst payload n) b =
     (let (r, b, es) = sendBytes ph rnd dst payload n b in (Some r, b, es))"
| "api_step ph rnd (SendNeighborUpdateRequestCall i) b =
     (let (r, b) = sendNeighborUpdateRequest rnd i b in (Some r, b, []))"
| "api_step ph rnd SendNeighborListUpdateRequestCall b =
     (let (r, b) = sendNeighborListUpdateRequest rnd b in (Some r, b, []))"


subsection \<open>What a call changes\<close>

text \<open>
  \<open>sends_only b b'\<close>: the step from \<open>b\<close> to \<open>b'\<close> only drew random ids and queued new handles, the
  latter only while a client was connected.
\<close>

definition new_handle :: "OutboundRequestHandle \<Rightarrow> bool" where
  "new_handle h \<longleftrightarrow> m_state h = READY \<and> m_delaySinceSent h = 0"

definition sends_only :: "HiveMindBridgeImpl \<Rightarrow> HiveMindBridgeImpl \<Rightarrow> bool" where
  "sends_only b b' \<longleftrightarrow>
     (\<exists>n hs. b' = b\<lparr>rand_calls := n, m_outboundQueue := \<lparr>m_queue = outbound b @ hs\<rparr>\<rparr> \<and>
        (\<forall>h \<in> set hs. new_handle h) \<and> (hs \<noteq> [] \<longrightarrow> isTCPClientConnected b))"

lemma sends_onlyI:
  "b' = b\<lparr>rand_calls := n, m_outboundQueue := \<lparr>m_queue = outbound b @ hs\<rparr>\<rparr> \<Longrightarrow>
   \<forall>h \<in> set hs. new_handle h \<Longrightarrow> hs \<noteq> [] \<longrightarrow> isTCPClientConnected b \<Longrightarrow> sends_only b b'"
  by (auto simp: sends_only_def)

lemma sends_only_refl: "sends_only b b"
  by (rule sends_onlyI [where n = "rand_calls b" and hs = "[]"]) simp_all

lemma sends_only_trans:
  assumes "sends_only a b" "sends_only b c"
  shows "sends_only a c"
proof -
  obtain n hs where b: "b = a\<lparr>rand_calls := n, m_outboundQueue := \<lparr>m_queue = outbound a @ hs\<rparr>\<rparr>"
    "\<forall>h \<in> set hs. new_handle h" "hs \<noteq> [] \<longrightarrow> isTCPClientConnected a"
    using assms(1) unfolding sends_only_def by blast
  obtain n' hs' where c: "c = b\<lparr>rand_calls := n', m_outboundQueue := \<lparr>m_queue = outbound b @ hs'\<rparr>\<rparr>"
    "\<forall>h \<in> set hs'. new_handle h" "hs' \<noteq> [] \<longrightarrow> isTCPClientConnected b"
    using assms(2) unfolding sends_only_def by blast
  show ?thesis
    by (rule sends_onlyI [where n = n' and hs = "hs @ hs'"])
       (use b c in \<open>auto simp: isTCPClientConnected_def\<close>)
qed

lemma queueAndSend_sends_only: "sends_only b (snd (queueAndSend m b))"
  by (rule sends_onlyI [where n = "rand_calls b" and
        hs = "if isTCPClientConnected b then [mk_OutboundRequestHandle m] else []"])
     (auto simp: queueAndSend_def Let_def push_def new_handle_def mk_OutboundRequestHandle_def)

lemma nextRandomId_sends_only: "sends_only b (snd (nextRandomId rnd b))"
  by (rule sends_onlyI [where n = "Suc (rand_calls b)" and hs = "[]"]) (simp_all add: nextRandomId_def)

lemma sendBytes_loop_sends_only:
  "sends_only b (fst (snd (sendBytes_loop ph rnd dst payload n k r i b)))"
proof (induction "k - i" arbitrary: i b)
  case 0
  then show ?case by (simp add: sendBytes_loop.simps sends_only_refl)
next
  case (Suc d)
  obtain rid b1 where r: "nextRandomId rnd b = (rid, b1)" by fastforce
  then have b1: "sends_only b b1" using nextRandomId_sends_only [of b rnd] by simp
  have step: "sends_only b (snd (queueAndSend m b1))" for m
    using b1 queueAndSend_sends_only sends_only_trans by blast
  have "sends_only b (fst (snd (sendBytes_loop ph rnd dst payload n k r (Suc i) (snd (queueAndSend m b1)))))"
    for m
    by (rule sends_only_trans [OF step [of m] Suc.hyps(1)]) (use Suc.hyps(2) in simp)
  then show ?case
    using b1 step
    by (simp add: sendBytes_loop.simps [of ph rnd dst payload n k r i b] r Let_def case_prod_unfold
        sends_only_refl split: option.split)
qed

lemma sendBytes_sends_only: "sends_only b (fst (snd (sendBytes ph rnd dst payload n b)))"
  using sends_only_trans [OF nextRandomId_sends_only sendBytes_loop_sends_only]
  by (simp add: sendBytes_def Let_def case_prod_unfold)

lemma neighbor_requests_send_only:
  "sends_only b (snd (sendNeighborUpdateRequest rnd i b))"
  "sends_only b (snd (sendNeighborListUpdateRequest rnd b))"
  using sends_only_trans [OF nextRandomId_sends_only queueAndSend_sends_only]
  by (simp_all add: sendNeighborUpdateRequest_def sendNeighborListUpdateRequest_def Let_def
      case_prod_unfold)

text \<open>The other calls set a callback: they change the server's hooks or the message handler.\<close>

definition configures :: "HiveMindBridgeImpl \<Rightarrow> HiveMindBridgeImpl \<Rightarrow> bool" where
  "configures b b' \<longleftrightarrow>
     (\<exists>s mh. b' = b\<lparr>m_tcpServer := s, m_messageHandler := mh\<rparr> \<and>
        m_isClientConnected s = m_isClientConnected (m_tcpServer b) \<and>
        m_clientFd s = m_clientFd (m_tcpServer b) \<and>
        m_calls (m_userCallRequestHandler mh) = m_calls (user_calls b) \<and>
        (user_calls_inv (user_calls b) \<longrightarrow> user_calls_inv (m_userCallRequestHandler mh)))"

lemma configuresI:
  "b' = b\<lparr>m_tcpServer := s, m_messageHandler := mh\<rparr> \<Longrightarrow>
   m_isClientConnected s = m_isClientConnected (m_tcpServer b) \<Longrightarrow>
   m_clientFd s = m_clientFd (m_tcpServer b) \<Longrightarrow>
   m_calls (m_userCallRequestHandler mh) = m_calls (user_calls b) \<Longrightarrow>
   (user_calls_inv (user_calls b) \<Longrightarrow> user_calls_inv (m_userCallRequestHandler mh)) \<Longrightarrow> configures b b'"
  by (auto simp: configures_def)

lemma handler_configures:
  assumes "m_calls (m_userCallRequestHandler mh) = m_calls (user_calls b)"
    "user_calls_inv (user_calls b) \<Longrightarrow> user_calls_inv (m_userCallRequestHandler mh)"
  shows "configures b (b\<lparr>m_messageHandler := mh\<rparr>)"
  by (rule configuresI [where s = "m_tcpServer b" and mh = mh]) (use assms in simp_all)

lemma register_configures:
  "configures b (snd (registerCustomAction name f a b))"
  "configures b (snd (registerCustomAction_noManifest name f b))"
  by (auto simp: registerCustomAction_def registerCustomAction_noManifest_def Let_def case_prod_unfold
      set_callback_map_def registerCallback_noManifest_def
      intro!: handler_configures register_user_calls_inv)

lemma hooks_configure:
  "configures b (bridge_onConnect h b)" "configures b (bridge_onDisconnect h b)"
  by (auto simp: bridge_onConnect_def bridge_onDisconnect_def tcp_onConnect_def tcp_onDisconnect_def
      intro!: configuresI [where mh = "m_messageHandler b"])

lemma api_step_cases:
  "sends_only b (fst (snd (api_step ph rnd c b))) \<or> configures b (fst (snd (api_step ph rnd c b)))"
proof (cases c)
  case (QueueAndSendCall m)
  then show ?thesis using queueAndSend_sends_only by (simp add: case_prod_unfold Let_def)
next
  case (SendBytesCall d p n)
  then show ?thesis using sendBytes_sends_only by (simp add: case_prod_unfold Let_def)
next
  case (SendNeighborUpdateRequestCall i)
  then show ?thesis using neighbor_requests_send_only by (simp add: case_prod_unfold Let_def)
next
  case SendNeighborListUpdateRequestCall
  then show ?thesis using neighbor_requests_send_only by (simp add: case_prod_unfold Let_def)
qed (use register_configures hooks_configure in
      \<open>auto simp: case_prod_unfold bridge_onBytesReceived_def set_response_handler_def Let_def
        intro!: handler_configures\<close>)


subsection \<open>Properties of the calls\<close>

text \<open>
  The neighbor requests: each call queues, exactly when a client is connected, one unsent
  request that goes from this agent to itself with a fresh random id, and tells whether it did.
\<close>

theorem neighbor_requests_queued:
  "fst (api_step ph rnd (SendNeighborUpdateRequestCall i) b) = Some (isTCPClientConnected b) \<and>
   fst (api_step ph rnd SendNeighborListUpdateRequestCall b) = Some (isTCPClientConnected b) \<and>
   outbound (fst (snd (api_step ph rnd (SendNeighborUpdateRequestCall i) b))) = outbound b @
     (if isTCPClientConnected b
      then [mk_OutboundRequestHandle
        \<lparr>getSourceId = m_swarmAgentID b, getDestinationId = m_swarmAgentID b,
         getMessage = Request \<lparr>getRequestId = generateRandomId (rnd (rand_calls b)),
           getRequest = HostApiRequest (GetNeighborRequest i)\<rparr>\<rparr>] else []) \<and>
   outbound (fst (snd (api_step ph rnd SendNeighborListUpdateRequestCall b))) = outbound b @
     (if isTCPClientConnected b
      then [mk_OutboundRequestHandle
        \<lparr>getSourceId = m_swarmAgentID b, getDestinationId = m_swarmAgentID b,
         getMessage = Request \<lparr>getRequestId = generateRandomId (rnd (rand_calls b)),
           getRequest = HostApiRequest GetNeighborsListRequest\<rparr>\<rparr>] else [])"
  by (auto simp: sendNeighborUpdateRequest_def sendNeighborListUpdateRequest_def Let_def
      case_prod_unfold nextRandomId_def queueAndSend_def isTCPClientConnected_def getSwarmAgentId_def)


subsection \<open>The configuration the calls build\<close>

text \<open>
  The abstract state behind the interface is the user's configuration: one callback per event and
  the table of actions. \<open>configure\<close> is what a call is documented to do to it.
\<close>

record configuration =
  on_connect :: "hook option"
  on_disconnect :: "hook option"
  on_bytes :: "hook option"
  on_neighbor_list :: "hook option"
  on_neighbor :: "hook option"
  actions :: UserCallbackMap

definition configuration_of :: "HiveMindBridgeImpl \<Rightarrow> configuration" where
  "configuration_of b =
     \<lparr>on_connect = m_onConnect (m_tcpServer b), on_disconnect = m_onDisonnect (m_tcpServer b),
      on_bytes = m_bytesReceivedCallback (m_hmRequestHandler (m_messageHandler b)),
      on_neighbor_list = m_neighborListUpdateCallback (m_hmResponseHandler (m_messageHandler b)),
      on_neighbor = m_neighborUpdateCallback (m_hmResponseHandler (m_messageHandler b)),
      actions = callback_map b\<rparr>"

fun configure :: "api_call \<Rightarrow> configuration \<Rightarrow> configuration" where
  "configure (OnConnectCall h) c = c\<lparr>on_connect := h\<rparr>"
| "configure (OnDisconnectCall h) c = c\<lparr>on_disconnect := h\<rparr>"
| "configure (OnBytesReceivedCall h) c = c\<lparr>on_bytes := h\<rparr>"
| "configure (OnNeighborListUpdatedCall h) c = c\<lparr>on_neighbor_list := h\<rparr>"
| "configure (OnNeighborUpdatedCall h) c = c\<lparr>on_neighbor := h\<rparr>"
| "configure (RegisterCustomActionCall name f manifest) c =
     c\<lparr>actions := registerCallbacks [(name, f, manifest)] (actions c)\<rparr>"
| "configure (RegisterCustomActionNoManifestCall name f) c =
     c\<lparr>actions := registerCallbacks [(name, f, [])] (actions c)\<rparr>"
| "configure _ c = c"

text \<open>The result of a setter: whether it replaced a callback or an action.\<close>

fun replaces :: "api_call \<Rightarrow> configuration \<Rightarrow> bool option" where
  "replaces (OnBytesReceivedCall h) c = Some (on_bytes c \<noteq> None)"
| "replaces (OnNeighborListUpdatedCall h) c = Some (on_neighbor_list c \<noteq> None)"
| "replaces (OnNeighborUpdatedCall h) c = Some (on_neighbor c \<noteq> None)"
| "replaces (RegisterCustomActionCall name f manifest) c = Some (getCallback name (actions c) \<noteq> None)"
| "replaces (RegisterCustomActionNoManifestCall name f) c = Some (getCallback name (actions c) \<noteq> None)"
| "replaces _ c = None"

fun api_calls ::
  "pheromones \<Rightarrow> (nat \<Rightarrow> int) \<Rightarrow> api_call list \<Rightarrow> HiveMindBridgeImpl \<Rightarrow> HiveMindBridgeImpl" where
  "api_calls ph rnd [] b = b"
| "api_calls ph rnd (c # cs) b = api_calls ph rnd cs (fst (snd (api_step ph rnd c b)))"

lemma sends_only_configuration: "sends_only b b' \<Longrightarrow> configuration_of b' = configuration_of b"
  by (auto simp: sends_only_def configuration_of_def)

lemma registration_configuration:
  "configuration_of (snd (registerCustomAction name f a b)) =
     configure (RegisterCustomActionCall name f a) (configuration_of b)"
  "configuration_of (snd (registerCustomAction_noManifest name f b)) =
     configure (RegisterCustomActionNoManifestCall name f) (configuration_of b)"
  by (simp_all add: configuration_of_def registerCustomAction_def registerCustomAction_noManifest_def
      registerCallback_noManifest_def set_callback_map_def registerCallbacks_def Let_def case_prod_unfold)

lemma api_step_configuration:
  "configuration_of (fst (snd (api_step ph rnd c b))) = configure c (configuration_of b)"
proof (cases c)
  case (QueueAndSendCall m)
  then show ?thesis
    using sends_only_configuration [OF queueAndSend_sends_only] by (simp add: case_prod_unfold Let_def)
next
  case (SendBytesCall d p n)
  then show ?thesis
    using sends_only_configuration [OF sendBytes_sends_only] by (simp add: case_prod_unfold Let_def)
next
  case (SendNeighborUpdateRequestCall i)
  then show ?thesis
    using sends_only_configuration [OF neighbor_requests_send_only(1)] by (simp add: case_prod_unfold Let_def)
next
  case SendNeighborListUpdateRequestCall
  then show ?thesis
    using sends_only_configuration [OF neighbor_requests_send_only(2)] by (simp add: case_prod_unfold Let_def)
next
  case (RegisterCustomActionCall name f a)
  then show ?thesis using registration_configuration by (simp add: case_prod_unfold Let_def)
next
  case (RegisterCustomActionNoManifestCall name f)
  then show ?thesis using registration_configuration by (simp add: case_prod_unfold Let_def)
qed (simp_all add: configuration_of_def bridge_onConnect_def bridge_onDisconnect_def tcp_onConnect_def
      tcp_onDisconnect_def bridge_onBytesReceived_def onBytesReceived_def onNeighborListUpdated_def
      onNeighborUpdated_def set_response_handler_def Let_def case_prod_unfold)

lemma api_step_result:
  assumes "replaces c (configuration_of b) \<noteq> None"
  shows "fst (api_step ph rnd c b) = replaces c (configuration_of b)"
proof (cases c)
  case (RegisterCustomActionCall name f a)
  then show ?thesis
    using registerCallback_fst [of name f a "callback_map b"]
    by (auto simp: configuration_of_def registerCustomAction_def Let_def case_prod_unfold getCallback_eq)
next
  case (RegisterCustomActionNoManifestCall name f)
  then show ?thesis
    using registerCallback_fst [of name f "[]" "callback_map b"]
    by (auto simp: configuration_of_def registerCustomAction_noManifest_def registerCallback_noManifest_def
        Let_def case_prod_unfold getCallback_eq)
qed (use assms in \<open>simp_all add: configuration_of_def bridge_onBytesReceived_def onBytesReceived_def
      onNeighborListUpdated_def onNeighborUpdated_def Let_def case_prod_unfold\<close>)

text \<open>
  C29. The interface implements its abstract specification: after any sequence of calls the user's
  configuration is what the calls, applied in order, make of the one before, sending calls leave it
  alone, and every setter reports whether it replaced a callback or an action.
\<close>

theorem api_refines_configuration:
  "configuration_of (api_calls ph rnd cs b) = fold configure cs (configuration_of b) \<and>
   (\<forall>r. replaces c (configuration_of (api_calls ph rnd cs b)) = Some r \<longrightarrow>
     fst (api_step ph rnd c (api_calls ph rnd cs b)) = Some r)"
proof
  show "configuration_of (api_calls ph rnd cs b) = fold configure cs (configuration_of b)"
    by (induction cs arbitrary: b) (simp_all add: api_step_configuration)
  show "\<forall>r. replaces c (configuration_of (api_calls ph rnd cs b)) = Some r \<longrightarrow>
     fst (api_step ph rnd c (api_calls ph rnd cs b)) = Some r"
    using api_step_result by fastforce
qed

theorem api_refines_configuration_witness:
  "on_bytes (configuration_of (api_calls sample_pheromones (\<lambda>n. 0)
      [OnBytesReceivedCall (Some 1), OnConnectCall (Some 3)] sample_bridge)) = Some 1 \<and>
   fst (api_step sample_pheromones (\<lambda>n. 0) (OnBytesReceivedCall (Some 2))
      (api_calls sample_pheromones (\<lambda>n. 0) [OnBytesReceivedCall (Some 1), OnConnectCall (Some 3)]
        sample_bridge)) = Some True"
  (is "on_bytes (configuration_of (api_calls ?ph ?rnd ?cs ?b)) = _ \<and> fst (api_step _ _ ?c _) = _")
proof -
  have "configuration_of (api_calls ?ph ?rnd ?cs ?b) = fold configure ?cs (configuration_of ?b)"
    using api_refines_configuration [of ?ph ?rnd ?cs ?b ?c] by blast
  then have on: "on_bytes (configuration_of (api_calls ?ph ?rnd ?cs ?b)) = Some 1" by simp
  then have "replaces ?c (configuration_of (api_calls ?ph ?rnd ?cs ?b)) = Some True"
    by (simp del: api_calls.simps)
  then have "fst (api_step ?ph ?rnd ?c (api_calls ?ph ?rnd ?cs ?b)) = Some True"
    using api_refines_configuration [of ?ph ?rnd ?cs ?b ?c] by blast
  then show ?thesis using on by blast
qed

end
