(* ===== verification/BridgeSystem.thy ===== *)
theory BridgeSystem
  imports Prelude Pheromones MessageHandler TCPServer HiveMindBridgeImpl SendBytes OutboundQueue Spin
    HiveMindBridge
begin

section \<open>The bridge and its threads\<close>

text \<open>
  The program runs as the user's thread, which spins and calls the interface, the inbound and the
  outbound thread, and one thread per running action. Their steps interleave: a step is one spin,
  one call, one turn of a thread's loop or the end of one action. \<open>bridge_step\<close> is the step
  relation, \<open>bridge_reachable\<close> the states some interleaving reaches from a new bridge; the locale
  \<open>bridge_invariant\<close> is what a predicate has to satisfy to hold in all of them.
\<close>

subsection \<open>Steps and reachable states\<close>

datatype action =
    SpinAction accept_env
  | ApiAction api_call
  | InboundAction stream_read
  | OutboundAction
  | FinishAction nat

text \<open>
  The message a read yields satisfies \<open>message_wf\<close>: the library's \<open>BytesDTO\<close> holds its payload.
  The two threads run only while their \<open>std::thread\<close> does.
\<close>

definition read_wf :: "stream_read \<Rightarrow> bool" where
  "read_wf d \<longleftrightarrow> message_wf (read_message d)"

inductive bridge_step ::
  "pheromones \<Rightarrow> (nat \<Rightarrow> int) \<Rightarrow> HiveMindBridgeImpl \<Rightarrow> action \<Rightarrow> event list \<Rightarrow> HiveMindBridgeImpl \<Rightarrow> bool"
  for ph :: pheromones and rnd :: "nat \<Rightarrow> int"
where
  spin_step: "spin ph rnd env b = Inr (b', es) \<Longrightarrow> bridge_step ph rnd b (SpinAction env) es b'"
| api_call_step: "api_step ph rnd c b = (r, b', es) \<Longrightarrow> bridge_step ph rnd b (ApiAction c) es b'"
| inbound_step: "m_inboundThread b = RunningThread \<Longrightarrow> read_wf d \<Longrightarrow>
    inboundThread_step d b = Inr (b', es) \<Longrightarrow> bridge_step ph rnd b (InboundAction d) es b'"
| outbound_step: "m_outboundThread b = RunningThread \<Longrightarrow>
    outboundThread_step b = Inr (b', es) \<Longrightarrow> bridge_step ph rnd b OutboundAction es b'"
| finish_step: "finish_call i b = (b', es) \<Longrightarrow> bridge_step ph rnd b (FinishAction i) es b'"

inductive_cases spin_stepE: "bridge_step ph rnd b (SpinAction env) es b'"
inductive_cases api_call_stepE: "bridge_step ph rnd b (ApiAction c) es b'"
inductive_cases inbound_stepE: "bridge_step ph rnd b (InboundAction d) es b'"

inductive_simps bridge_step_simps:
  "bridge_step ph rnd b (SpinAction env) es b'"
  "bridge_step ph rnd b (ApiAction c) es b'"
  "bridge_step ph rnd b (InboundAction d) es b'"
  "bridge_step ph rnd b OutboundAction es b'"
  "bridge_step ph rnd b (FinishAction i) es b'"

definition initial_bridge :: "HiveMindBridgeImpl \<Rightarrow> bool" where
  "initial_bridge b \<longleftrightarrow>
     (\<exists>tcpPort n socket_ret setsockopt_ret bind_ret.
        b = fst (new_HiveMindBridge tcpPort n socket_ret setsockopt_ret bind_ret))"

inductive bridge_reachable :: "pheromones \<Rightarrow> (nat \<Rightarrow> int) \<Rightarrow> HiveMindBridgeImpl \<Rightarrow> bool"
  for ph :: pheromones and rnd :: "nat \<Rightarrow> int"
where
  reach_init: "initial_bridge b \<Longrightarrow> bridge_reachable ph rnd b"
| reach_step: "bridge_reachable ph rnd b \<Longrightarrow> bridge_step ph rnd b a es b' \<Longrightarrow> bridge_reachable ph rnd b'"


subsection \<open>Invariants\<close>

locale bridge_invariant =
  fixes inv :: "HiveMindBridgeImpl \<Rightarrow> bool"
  assumes new: "inv (fst (new_HiveMindBridge tcpPort n socket_ret setsockopt_ret bind_ret))"
    and connected: "inv b \<Longrightarrow> isTCPClientConnected b \<Longrightarrow> spin_connected ph rnd b = Inr (b', es) \<Longrightarrow> inv b'"
    and reconnect: "inv b \<Longrightarrow> \<not> isTCPClientConnected b \<Longrightarrow> spin_reconnect env b = Inr (b', es) \<Longrightarrow> inv b'"
    and keep_alive: "inv b \<Longrightarrow> inv (spin_keepAlive b)"
    and sends: "inv b \<Longrightarrow> sends_only b b' \<Longrightarrow> inv b'"
    and configure: "inv b \<Longrightarrow> configures b b' \<Longrightarrow> inv b'"
    and inbound: "inv b \<Longrightarrow> m_inboundThread b = RunningThread \<Longrightarrow> message_wf (read_message d) \<Longrightarrow>
      inboundThread_step d b = Inr (b', es) \<Longrightarrow> inv b'"
    and outbound_thread: "inv b \<Longrightarrow> m_outboundThread b = RunningThread \<Longrightarrow>
      outboundThread_step b = Inr (b', es) \<Longrightarrow> inv b'"
    and finish: "inv b \<Longrightarrow> inv (fst (finish_call i b))"
begin

lemma spin_inv: "inv b \<Longrightarrow> spin ph rnd env b = Inr (b', es) \<Longrightarrow> inv b'"
  by (cases "isTCPClientConnected b")
     (auto simp: spin_def rbind_eq_Inr intro!: keep_alive dest: connected reconnect)

lemma api_inv: "inv b \<Longrightarrow> inv (fst (snd (api_step ph rnd c b)))"
  using api_step_cases [of b ph rnd c] sends configure by blast

lemma step_inv: "bridge_step ph rnd b a es b' \<Longrightarrow> inv b \<Longrightarrow> inv b'"
proof (induction rule: bridge_step.induct)
  case (spin_step env b b' es)
  then show ?case by (blast intro: spin_inv)
next
  case (api_call_step c b r b' es)
  then show ?case using api_inv [of b ph rnd c] by simp
next
  case (inbound_step b d b' es)
  then show ?case using inbound by (simp add: read_wf_def)
next
  case (outbound_step b b' es)
  then show ?case using outbound_thread by blast
next
  case (finish_step i b b' es)
  then show ?case using finish [of b i] by simp
qed

lemma reachable_inv: "bridge_reachable ph rnd b \<Longrightarrow> inv b"
proof (induction rule: bridge_reachable.induct)
  case (reach_init b)
  then show ?case using new by (auto simp: initial_bridge_def)
next
  case (reach_step b a es b')
  then show ?case by (blast intro: step_inv)
qed

end


lemma new_bridge_simps [simp]:
  fixes tcpPort n so se bi
  defines "b \<equiv> fst (new_HiveMindBridge tcpPort n so se bi)"
  shows "\<not> isTCPClientConnected b" "inbound b = []" "outbound b = []" "m_inboundRequestsQueue b = []"
    "m_inboundResponsesMap b = Map.empty" "m_inboundThread b = NoThread" "m_outboundThread b = NoThread"
    "m_keepAliveCounter b = 0" "m_keepAliveNbSpin b = n" "m_swarmAgentID b = 0"
    "callback_map b = empty_callback_map" "m_calls (user_calls b) = []"
  by (simp_all add: b_def new_HiveMindBridge_def new_HiveMindBridgeImpl_def new_MessageHandler_def
      Let_def case_prod_unfold isTCPClientConnected_def tcp_isClientConnected_def new_TCPServer_def
      tcp_init_def)


subsection \<open>What the threads' steps change\<close>

lemma outboundThread_step_cases:
  assumes "outboundThread_step b = Inr (b', es)"
  obtains (turn) q resp where "isTCPClientConnected b"
      "outq.turn (outbound b, m_inboundResponsesMap b) = ((q, resp), es)" "b' = outbound_state b q resp"
  | (finished) "\<not> isTCPClientConnected b" "b' = b\<lparr>m_outboundThread := FinishedThread\<rparr>" "es = []"
  using assms
  by (cases "isTCPClientConnected b")
     (auto simp: outboundThread_step_def outbound_turn_eq Let_def split: prod.splits)

lemma receive_calls_frame:
  "receive_calls rs s = Inr (s', es) \<Longrightarrow>
   m_clientFd s' = m_clientFd s \<and> (m_isClientConnected s' \<longrightarrow> m_isClientConnected s) \<and>
   serialized es = []"
proof (induction rs arbitrary: s es)
  case Nil
  then show ?case by simp
next
  case (Cons c rs)
  obtain r n where c: "c = (r, n)" by fastforce
  obtain ret s1 es1 es2 where t: "tcp_receive r n s = Inr (ret, s1, es1)"
    and rs: "receive_calls rs s1 = Inr (s', es2)" and es: "es = es1 @ es2"
    using Cons.prems by (auto simp: c rbind_eq_Inr)
  have "m_clientFd s \<noteq> None"
    using t by (auto simp: tcp_receive_def rbind_eq_Inr read_member_def split: option.splits)
  from tcp_receive_run [OF this, of r n] t Cons.IH [OF rs] show ?case by (auto simp: es)
qed

lemma inboundThread_step_cases:
  assumes "inboundThread_step d b = Inr (b', es)"
  obtains (turn) s where "isTCPClientConnected b" "m_clientFd s = m_clientFd (m_tcpServer b)"
      "serialized es = []"
      "b' = (if read_ok d
        then b\<lparr>m_tcpServer := s, m_inboundQueue := push (read_message d) (m_inboundQueue b)\<rparr>
        else b\<lparr>m_tcpServer := s\<rparr>)"
  | (finished) "\<not> isTCPClientConnected b" "b' = b\<lparr>m_inboundThread := FinishedThread\<rparr>" "es = []"
proof (cases "isTCPClientConnected b")
  case True
  then obtain s where "receive_calls (recv_results d) (m_tcpServer b) = Inr (s, es)"
    "b' = (if read_ok d
        then b\<lparr>m_tcpServer := s, m_inboundQueue := push (read_message d) (m_inboundQueue b)\<rparr>
        else b\<lparr>m_tcpServer := s\<rparr>)"
    using assms
    by (auto simp: inboundThread_step_def inbound_turn_def deserializeFromStream_def rbind_eq_Inr
        split: if_splits)
  then show ?thesis using turn True receive_calls_frame by blast
next
  case False
  then show ?thesis using assms finished by (simp add: inboundThread_step_def)
qed

lemma spin_reconnect_cases:
  assumes "spin_reconnect env b = Inr (b', es)"
  obtains s t i where "b' = b\<lparr>m_tcpServer := s, m_inboundThread := t, m_outboundThread := t, m_swarmAgentID := i\<rparr>"
    "m_clientFd s = Some (accept_result env)" "t = RunningThread \<or> t = NoThread"
    "m_isClientConnected s \<longrightarrow> 0 \<le> accept_result env \<and> t = RunningThread"
proof -
  obtain s t es' i where run: "spin_reconnect env b =
      Inr (b\<lparr>m_tcpServer := s, m_inboundThread := t, m_outboundThread := t, m_swarmAgentID := i\<rparr>, es')"
    and fd: "m_clientFd s = Some (accept_result env)"
    and con: "m_isClientConnected s \<longrightarrow> 0 \<le> accept_result env \<and>
      handleGreet (read_message (greet_read env)) \<noteq> None"
    and t: "t = (if 0 \<le> accept_result env \<and> handleGreet (read_message (greet_read env)) \<noteq> None
      then RunningThread else NoThread)"
    using spin_reconnect_run [of env b] by metis
  have "b' = b\<lparr>m_tcpServer := s, m_inboundThread := t, m_outboundThread := t, m_swarmAgentID := i\<rparr>"
    using assms run by simp
  then show ?thesis
    by (rule that) (use fd con t in auto)
qed


subsection \<open>Handles, messages and calls\<close>

definition work_inv :: "HiveMindBridgeImpl \<Rightarrow> bool" where
  "work_inv b \<longleftrightarrow> bridge_wf b \<and> (\<forall>m \<in> set (inbound b). message_wf m)"

interpretation work: bridge_invariant work_inv
proof (unfold_locales, goal_cases)
  case (1 tcpPort n socket_ret setsockopt_ret bind_ret)
  then show ?case
    by (simp add: work_inv_def bridge_wf_def user_calls_inv_def)
next
  case (2 b ph rnd b' es)
  then show ?case
    using spin_connected_wf(1) spin_connected_frame(8) [of ph rnd b b' es]
    by (cases "inbound b") (auto simp: work_inv_def)
next
  case (3 b env b' es)
  then show ?case by (elim spin_reconnect_cases) (simp add: work_inv_def bridge_wf_def)
next
  case (4 b)
  then show ?case by (simp add: work_inv_def bridge_wf_def)
next
  case (5 b b')
  then show ?case by (auto simp: work_inv_def bridge_wf_def sends_only_def)
next
  case (6 b b')
  then show ?case by (auto simp: work_inv_def bridge_wf_def configures_def)
next
  case (7 b d b' es)
  from 7(4) 7(1,3) show ?case
    by (cases rule: inboundThread_step_cases) (auto simp: work_inv_def bridge_wf_def)
next
  case (8 b b' es)
  from 8(3,1) show ?case
    by (cases rule: outboundThread_step_cases) (auto simp: work_inv_def bridge_wf_def)
next
  case (9 b i)
  then show ?case using finish_call_wf by (simp add: work_inv_def)
qed


subsection \<open>The connection and the threads\<close>

definition connection_inv :: "HiveMindBridgeImpl \<Rightarrow> bool" where
  "connection_inv b \<longleftrightarrow>
     (isTCPClientConnected b \<longrightarrow> m_inboundThread b = RunningThread \<and> m_outboundThread b = RunningThread) \<and>
     (m_inboundThread b = NoThread \<longleftrightarrow> m_outboundThread b = NoThread) \<and>
     (m_inboundThread b \<noteq> NoThread \<longrightarrow> (\<exists>fd. m_clientFd (m_tcpServer b) = Some fd))"

interpretation connection: bridge_invariant connection_inv
proof (unfold_locales, goal_cases)
  case (1 tcpPort n socket_ret setsockopt_ret bind_ret)
  then show ?case
    by (simp add: connection_inv_def)
next
  case (2 b ph rnd b' es)
  then show ?case
    using spin_connected_frame [of ph rnd b b' es]
    by (simp add: connection_inv_def isTCPClientConnected_def)
next
  case (3 b env b' es)
  from 3(3) show ?case
    by (elim spin_reconnect_cases)
       (auto simp: connection_inv_def isTCPClientConnected_def tcp_isClientConnected_def)
next
  case (4 b)
  then show ?case by (simp add: connection_inv_def isTCPClientConnected_def)
next
  case (5 b b')
  then show ?case by (auto simp: connection_inv_def sends_only_def isTCPClientConnected_def)
next
  case (6 b b')
  then show ?case
    by (auto simp: connection_inv_def configures_def isTCPClientConnected_def tcp_isClientConnected_def)
next
  case (7 b d b' es)
  from 7(4) 7(1,2) show ?case
    by (cases rule: inboundThread_step_cases) (auto simp: connection_inv_def isTCPClientConnected_def)
next
  case (8 b b' es)
  from 8(3) 8(1,2) show ?case
    by (cases rule: outboundThread_step_cases) (auto simp: connection_inv_def isTCPClientConnected_def)
next
  case (9 b i)
  then show ?case by (simp add: connection_inv_def isTCPClientConnected_def)
qed



subsection \<open>The keep-alive counter and the outbound handles\<close>

definition keepAlive_inv :: "HiveMindBridgeImpl \<Rightarrow> bool" where
  "keepAlive_inv b \<longleftrightarrow> m_keepAliveCounter b \<le> m_keepAliveNbSpin b"

interpretation keepAlive: bridge_invariant keepAlive_inv
proof (unfold_locales, goal_cases)
  case (2 b ph rnd b' es)
  then show ?case using spin_connected_frame [of ph rnd b b' es] by (simp add: keepAlive_inv_def)
next
  case (3 b env b' es)
  from 3(3) 3(1) show ?case by (elim spin_reconnect_cases) (auto simp: keepAlive_inv_def)
next
  case (7 b d b' es)
  from 7(4) 7(1) show ?case
    by (cases rule: inboundThread_step_cases) (auto simp: keepAlive_inv_def)
next
  case (8 b b' es)
  from 8(3) 8(1) show ?case
    by (cases rule: outboundThread_step_cases) (auto simp: keepAlive_inv_def)
qed (auto simp: keepAlive_inv_def spin_keepAlive_eq keepAlive_next_bound sends_only_def configures_def)

lemma spin_counter:
  assumes "spin ph rnd env b = Inr (b', es)"
  shows "m_keepAliveNbSpin b' = m_keepAliveNbSpin b"
    "m_keepAliveCounter b' = keepAlive_next (m_keepAliveNbSpin b) (m_keepAliveCounter b)"
proof -
  obtain b1 where b': "b' = spin_keepAlive b1"
    and b1: "if isTCPClientConnected b then spin_connected ph rnd b = Inr (b1, es)
      else spin_reconnect env b = Inr (b1, es)"
    using assms by (auto simp: spin_def rbind_eq_Inr split: if_splits)
  have "m_keepAliveNbSpin b1 = m_keepAliveNbSpin b" "m_keepAliveCounter b1 = m_keepAliveCounter b"
    using b1 spin_connected_frame [of ph rnd b b1 es]
    by (auto split: if_splits elim!: spin_reconnect_cases)
  then show "m_keepAliveNbSpin b' = m_keepAliveNbSpin b"
    "m_keepAliveCounter b' = keepAlive_next (m_keepAliveNbSpin b) (m_keepAliveCounter b)"
    by (simp_all add: b' spin_keepAlive_eq)
qed

text \<open>Only spins move the counter, and only spins connect.\<close>

lemma other_steps_counter:
  assumes "bridge_step ph rnd b a es b'" "\<forall>env. a \<noteq> SpinAction env"
  shows "m_keepAliveNbSpin b' = m_keepAliveNbSpin b \<and> m_keepAliveCounter b' = m_keepAliveCounter b \<and>
    (isTCPClientConnected b' \<longrightarrow> isTCPClientConnected b)"
  using assms
proof (cases rule: bridge_step.cases)
  case (api_call_step c r)
  then show ?thesis
    using api_step_cases [of b ph rnd c] by (auto simp: sends_only_def configures_def isTCPClientConnected_def tcp_isClientConnected_def)
next
  case (inbound_step d)
  from inbound_step(4) show ?thesis
    by (cases rule: inboundThread_step_cases) (auto simp: isTCPClientConnected_def)
next
  case outbound_step
  from outbound_step(3) show ?thesis
    by (cases rule: outboundThread_step_cases) (auto simp: isTCPClientConnected_def)
next
  case (finish_step i)
  then have "b' = fst (finish_call i b)" by simp
  then show ?thesis by (simp add: isTCPClientConnected_def)
qed simp

lemma reachable_counter:
  assumes "bridge_reachable ph rnd b" "isTCPClientConnected b" "0 < m_keepAliveNbSpin b"
  shows "1 \<le> unat (m_keepAliveCounter b)" "m_keepAliveCounter b \<le> m_keepAliveNbSpin b"
proof -
  show "m_keepAliveCounter b \<le> m_keepAliveNbSpin b"
    using keepAlive.reachable_inv [OF assms(1)] by (simp add: keepAlive_inv_def)
  show "1 \<le> unat (m_keepAliveCounter b)"
    using assms
  proof (induction rule: bridge_reachable.induct)
    case (reach_init b)
    then show ?case by (auto simp: initial_bridge_def)
  next
    case (reach_step b a es b')
    have le: "m_keepAliveCounter b \<le> m_keepAliveNbSpin b"
      using keepAlive.reachable_inv [OF reach_step.hyps(1)] by (simp add: keepAlive_inv_def)
    show ?case
    proof (cases "\<exists>env. a = SpinAction env")
      case True
      then obtain env where "spin ph rnd env b = Inr (b', es)"
        using reach_step.hyps(2) by (auto elim: spin_stepE)
      from spin_counter [OF this] reach_step.prems(2) show ?thesis
        using keepAlive_next_pos [OF _ le] by simp
    next
      case False
      with other_steps_counter [OF reach_step.hyps(2)] reach_step show ?thesis by auto
    qed
  qed
qed

text \<open>
  C26. While a client stays connected a bridge with keep-alive period \<open>n > 0\<close> queues a greeting in
  every \<open>n\<close>-th spin: from a reachable state with counter \<open>c\<close>, which lies between 1 and \<open>n\<close>, \<open>k\<close>
  consecutive spins queue \<open>(c - 1 + k) div n\<close> greetings and leave the counter at
  \<open>(c - 1 + k) mod n + 1\<close>; the 32-bit counter never wraps. The spin that accepts a client leaves the
  counter where the spins before it brought it, so the first greeting comes after \<open>n\<close> spins when it
  was the first spin, and otherwise sooner.
\<close>

theorem keep_alive_period:
  assumes "bridge_reachable ph rnd b" "isTCPClientConnected b" "0 < m_keepAliveNbSpin b"
    and "spins ph rnd envs b = Inr (b', es)"
  defines "n \<equiv> unat (m_keepAliveNbSpin b)" and "c \<equiv> unat (m_keepAliveCounter b)"
  shows "1 \<le> c \<and> c \<le> n \<and>
    outbound b' = outbound b @
      replicate ((c - 1 + length envs) div n) (mk_OutboundRequestHandle createGreetMessage) \<and>
    unat (m_keepAliveCounter b') = (c - 1 + length envs) mod n + 1"
  using reachable_counter [OF assms(1-3)]
    spins_greetings [OF assms(2) reachable_counter [OF assms(1-3)] assms(4)]
  by (simp add: n_def c_def word_le_nat_alt)

definition outbound_handle_wf :: "OutboundRequestHandle \<Rightarrow> bool" where
  "outbound_handle_wf h \<longleftrightarrow>
     0 \<le> m_delaySinceSent h \<and> m_delaySinceSent h < 10 \<and> (m_state h = READY \<longrightarrow> m_delaySinceSent h = 0)"

definition outbound_inv :: "HiveMindBridgeImpl \<Rightarrow> bool" where
  "outbound_inv b \<longleftrightarrow> (\<forall>h \<in> set (outbound b). outbound_handle_wf h)"

lemma visit_handle_wf:
  "outbound_handle_wf h \<Longrightarrow> fst (outbound_visit h resp) = Some h' \<Longrightarrow> outbound_handle_wf h'"
  by (cases "m_state h")
     (auto simp: outbound_handle_wf_def outbound_visit_def split: message_body.splits if_splits)

lemma turn_handles_wf:
  assumes "outq.turn (q, resp) = ((q', resp'), es)" "\<forall>h \<in> set q. outbound_handle_wf h"
  shows "\<forall>h \<in> set q'. outbound_handle_wf h"
proof (cases q)
  case Nil
  then show ?thesis using assms by simp
next
  case (Cons h hs)
  then show ?thesis
    using assms visit_handle_wf [of h resp]
    by (auto simp: Let_def case_prod_unfold split: option.splits)
qed

interpretation outbound_handles: bridge_invariant outbound_inv
proof (unfold_locales, goal_cases)
  case (2 b ph rnd b' es)
  then show ?case using spin_connected_frame(2) [of ph rnd b b' es] by (simp add: outbound_inv_def)
next
  case (3 b env b' es)
  from 3(3) 3(1) show ?case by (elim spin_reconnect_cases) (auto simp: outbound_inv_def)
next
  case (7 b d b' es)
  from 7(4) 7(1) show ?case
    by (cases rule: inboundThread_step_cases) (auto simp: outbound_inv_def)
next
  case (8 b b' es)
  from 8(3) 8(1) show ?case
    by (cases rule: outboundThread_step_cases) (auto simp: outbound_inv_def dest: turn_handles_wf)
qed (auto simp: outbound_inv_def spin_keepAlive_eq sends_only_def configures_def
       new_handle_def outbound_handle_wf_def mk_OutboundRequestHandle_def)


subsection \<open>A reachable bridge, and turns that do not fault\<close>

text \<open>A reachable bridge with a client, and one with a request queued.\<close>

lemma sample_reachable:
  "\<exists>b. bridge_reachable sample_pheromones (\<lambda>n. 7) b \<and> isTCPClientConnected b \<and>
    outbound b = [mk_OutboundRequestHandle sample_request] \<and> inbound b = []"
proof -
  let ?b0 = "fst (new_HiveMindBridge 5000 0 3 0 0)"
  have "\<not> isTCPClientConnected ?b0" by simp
  then obtain s es where run: "spin sample_pheromones (\<lambda>n. 7) sample_env ?b0 =
      Inr (spin_keepAlive (?b0\<lparr>m_tcpServer := s, m_inboundThread := RunningThread,
        m_outboundThread := RunningThread, m_swarmAgentID := 42\<rparr>), es)" "m_isClientConnected s"
    using spin_wait [of ?b0 sample_pheromones "\<lambda>n. 7" sample_env]
    by (auto simp: sample_env_def handleGreet_def stays_connected_def)
  then obtain b where b: "spin sample_pheromones (\<lambda>n. 7) sample_env ?b0 = Inr (b, es)"
    "isTCPClientConnected b" "outbound b = []" "inbound b = []"
    by (simp add: isTCPClientConnected_def tcp_isClientConnected_def spin_keepAlive_eq keepAlive_due_def)
  have "initial_bridge ?b0" unfolding initial_bridge_def by blast
  with b(1) have r: "bridge_reachable sample_pheromones (\<lambda>n. 7) b"
    by (blast intro: bridge_reachable.intros bridge_step.intros)
  let ?b' = "snd (queueAndSend sample_request b)"
  have "bridge_step sample_pheromones (\<lambda>n. 7) b (ApiAction (QueueAndSendCall sample_request)) [] ?b'"
    by (simp add: bridge_step_simps case_prod_unfold Let_def)
  with r have "bridge_reachable sample_pheromones (\<lambda>n. 7) ?b'" by (rule reach_step)
  moreover have "isTCPClientConnected ?b'" "outbound ?b' = [mk_OutboundRequestHandle sample_request]"
    "inbound ?b' = []"
    using b(2-4) by (simp_all add: isTCPClientConnected_def)
  ultimately show ?thesis by blast
qed

text \<open>A new bridge with keep-alive period \<open>n\<close> after the spin that accepted a client.\<close>

lemma accepted_reachable:
  "\<exists>b. bridge_reachable ph rnd b \<and> isTCPClientConnected b \<and> outbound b = [] \<and> inbound b = [] \<and>
    m_keepAliveNbSpin b = n \<and> m_keepAliveCounter b = keepAlive_next n 0"
proof -
  let ?b0 = "fst (new_HiveMindBridge 5000 n 3 0 0)"
  have "\<not> isTCPClientConnected ?b0" by simp
  then obtain s es where run: "spin ph rnd sample_env ?b0 =
      Inr (spin_keepAlive (?b0\<lparr>m_tcpServer := s, m_inboundThread := RunningThread,
        m_outboundThread := RunningThread, m_swarmAgentID := 42\<rparr>), es)" "m_isClientConnected s"
    using spin_wait [of ?b0 ph rnd sample_env]
    by (auto simp: sample_env_def handleGreet_def stays_connected_def)
  have "initial_bridge ?b0" unfolding initial_bridge_def by blast
  moreover obtain b where b: "b = spin_keepAlive (?b0\<lparr>m_tcpServer := s,
      m_inboundThread := RunningThread, m_outboundThread := RunningThread, m_swarmAgentID := 42\<rparr>)" by blast
  ultimately have "bridge_reachable ph rnd b"
    using run(1) by (blast intro: bridge_reachable.intros bridge_step.intros)
  moreover have "isTCPClientConnected b" "outbound b = []" "inbound b = []" "m_keepAliveNbSpin b = n"
    "m_keepAliveCounter b = keepAlive_next n 0"
    using run(2) by (auto simp: b isTCPClientConnected_def tcp_isClientConnected_def spin_keepAlive_eq keepAlive_due_def)
  ultimately show ?thesis by blast
qed

text \<open>Period 2: after the accepting spin the counter is 1, and the second spin after it queues a greeting.\<close>

theorem keep_alive_period_witness:
  "\<exists>b b' es. bridge_reachable sample_pheromones (\<lambda>n. 7) b \<and> isTCPClientConnected b \<and>
    m_keepAliveCounter b = 1 \<and> spins sample_pheromones (\<lambda>n. 7) (replicate 2 sample_env) b = Inr (b', es) \<and>
    outbound b' = [mk_OutboundRequestHandle createGreetMessage] \<and> unat (m_keepAliveCounter b') = 1"
proof -
  obtain b where b: "bridge_reachable sample_pheromones (\<lambda>n. 7) b" "isTCPClientConnected b"
    "outbound b = []" "inbound b = []" "m_keepAliveNbSpin b = 2" "m_keepAliveCounter b = 1"
    using accepted_reachable [of sample_pheromones "\<lambda>n. 7" 2] by (auto simp: keepAlive_next_def)
  have n: "0 < m_keepAliveNbSpin b" by (simp add: b(5))
  have "bridge_wf b" using work.reachable_inv [OF b(1)] by (simp add: work_inv_def)
  from idle_spins [OF b(2) this b(4)] obtain b' es where
    run: "spins sample_pheromones (\<lambda>n. 7) (replicate 2 sample_env) b = Inr (b', es)" by blast
  from keep_alive_period [OF b(1,2) n run] b run show ?thesis by auto
qed

lemma inbound_thread_ok:
  assumes "connection_inv b" "m_inboundThread b = RunningThread"
  shows "ok (inboundThread_step d b)"
proof -
  have "m_clientFd (m_tcpServer b) \<noteq> None" using assms by (auto simp: connection_inv_def)
  then obtain s es where
    "deserializeFromStream d b = Inr (read_ok d, read_message d, b\<lparr>m_tcpServer := s\<rparr>, es)"
    using deserialize_run by blast
  then show ?thesis
    by (simp add: inboundThread_step_def inbound_turn_def)
qed

lemma outbound_thread_ok: "ok (outboundThread_step b)"
  by (simp add: outboundThread_step_def outbound_turn_eq Let_def case_prod_unfold)

end
