(* ===== verification/EndToEnd.thy ===== *)
theory EndToEnd
  imports Prelude Pheromones HostApiRequestHandler MessageHandler HiveMindBridgeImpl SendBytes
    OutboundQueue Spin
begin

section \<open>A payload from bridge to bridge\<close>

text \<open>
  The whole way of a payload through two bridges: \<open>sendBytes\<close> cuts it into packets and queues them,
  the sender's outbound thread serialises them, the receiver's application loop handles them one
  per spin, and its user's callback gets the payload. The connection in between is taken to deliver
  the serialised messages in order.
\<close>

subsection \<open>The sender\<close>

lemma pass_fresh:
  assumes "\<forall>h \<in> set q. is_request h \<and> m_state h = READY"
  shows "serialized (snd (snd (outq.pass q Map.empty))) = map m_message q"
  using assms
proof (induction q)
  case Nil
  then show ?case by simp
next
  case (Cons h q)
  then obtain r where "getMessage (m_message h) = Request r" "m_state h = READY"
    by (auto simp: is_request_def split: message_body.splits)
  from visit_sending [OF this(1) _ this(2), of Map.empty] Cons show ?case
    by (simp add: Let_def case_prod_unfold)
qed

lemma fresh_round:
  assumes "\<forall>h \<in> set (outbound b). is_request h \<and> m_state h = READY" "m_inboundResponsesMap b = Map.empty"
  shows "\<exists>b' es. outbound_turns (length (outbound b)) b = Inr (b', es) \<and>
    serialized es = map m_message (outbound b)"
  using pass_fresh [OF assms(1)] outq.turns_pass [of "outbound b" "[]" Map.empty]
  by (simp add: outbound_turns_eq assms(2))

lemma packet_handles_fresh: "\<forall>h \<in> set (packet_handles ph rnd dst p s n k i b). is_request h \<and> m_state h = READY"
  by (auto simp: packet_handles_def packet_handle_def is_request_def mk_OutboundRequestHandle_def)

lemma sendBytes_handles:
  assumes laws: "bytes_laws ph" and con: "isTCPClientConnected b"
    and k: "k = generateRandomId (rnd (rand_calls b))"
    and n: "n = (unat nbytes + PAYLOAD_MAX_SIZE ph - 1) div PAYLOAD_MAX_SIZE ph"
  shows "\<exists>b'. sendBytes ph rnd dst payload nbytes b = (True, b', []) \<and>
    outbound b' = outbound b @ packet_handles ph rnd dst payload (unat nbytes) n k 0
      (b\<lparr>rand_calls := Suc (rand_calls b)\<rparr>) \<and>
    m_inboundResponsesMap b' = m_inboundResponsesMap b"
proof -
  let ?b = "b\<lparr>rand_calls := Suc (rand_calls b)\<rparr>"
  let ?hs = "packet_handles ph rnd dst payload (unat nbytes) n k 0 ?b"
  have "sendBytes ph rnd dst payload nbytes b = sendBytes_loop ph rnd dst payload nbytes n k 0 ?b"
    by (simp add: sendBytes_def Let_def nextRandomId_def packet_count [OF laws] n k)
  also have "\<dots> = (True, ?b\<lparr>rand_calls := rand_calls ?b + (n - 0),
      m_outboundQueue := fold push ?hs (m_outboundQueue ?b)\<rparr>, [])"
    by (rule sendBytes_loop_run [OF laws _ n]) (use con in simp_all)
  finally show ?thesis using tsq.contents_enqs [of ?hs "m_outboundQueue b"] by simp
qed


subsection \<open>The receiver\<close>

text \<open>The packets a list of messages carries, when every message carries one.\<close>

definition carries :: "MessageDTO \<Rightarrow> BytesDTO \<Rightarrow> bool" where
  "carries msg x \<longleftrightarrow> (\<exists>i. getMessage msg = Request \<lparr>getRequestId = i, getRequest = HostApiRequest (BytesRequest x)\<rparr>)"

lemma packet_handles_carry:
  "list_all2 carries (map m_message (packet_handles ph rnd dst p s n k i b)) (map (packet ph p s n k) [i ..< n])"
  by (simp add: packet_handles_def list.rel_map list_all2_same packet_handle_def mk_OutboundRequestHandle_def
      carries_def)

lemma handleBytes_message: "handleBytes m x s = handleBytes m' x s"
  by (simp add: handleBytes_def)

definition idle_receiver :: "HiveMindBridgeImpl \<Rightarrow> bool" where
  "idle_receiver b \<longleftrightarrow> isTCPClientConnected b \<and> m_inboundRequestsQueue b = []"

abbreviation bytes_handler :: "HiveMindBridgeImpl \<Rightarrow> HiveMindHostApiRequestHandler" where
  "bytes_handler b \<equiv> m_hmRequestHandler (m_messageHandler b)"

lemma spin_packet:
  assumes "idle_receiver b" "inbound b = msg # rest" "carries msg x"
    "handleBytes m x (bytes_handler b) = Inr (s', es)"
  shows "\<exists>b'. spin ph rnd env b = Inr (b', es) \<and> idle_receiver b' \<and> inbound b' = rest \<and>
    bytes_handler b' = s'"
proof -
  obtain i where msg: "getMessage msg = Request \<lparr>getRequestId = i, getRequest = HostApiRequest (BytesRequest x)\<rparr>"
    using assms(3) by (auto simp: carries_def)
  have "handleBytes msg x (bytes_handler b) = Inr (s', es)"
    using assms(4) handleBytes_message by metis
  then have "MessageHandler_handleMessage ph msg (m_messageHandler b) =
      Inr (NoHandle, (m_messageHandler b)\<lparr>m_hmRequestHandler := s'\<rparr>, es)"
    by (simp add: MessageHandler_handleMessage_def msg HostApiRequestHandler_handleMessage_def)
  then show ?thesis
    using assms(1,2)
    by (simp add: idle_receiver_def spin_served spin_connected_def spin_receive_Cons Let_def
        isTCPClientConnected_def)
qed

lemma spins_packets:
  assumes "idle_receiver b" "list_all2 carries (inbound b) xs" "length envs = length xs"
    "receive_all m xs (bytes_handler b) = Inr (s', tr)"
  shows "\<exists>b'. spins ph rnd envs b = Inr (b', concat (map snd tr)) \<and> bytes_handler b' = s'"
  using assms
proof (induction xs arbitrary: b envs tr)
  case Nil
  then show ?case by simp
next
  case (Cons x xs)
  obtain msg rest where msg: "inbound b = msg # rest" "carries msg x" "list_all2 carries rest xs"
    using Cons.prems(2) by (auto simp: list_all2_Cons2)
  obtain env envs' where envs: "envs = env # envs'" "length envs' = length xs"
    using Cons.prems(3) by (cases envs) auto
  obtain s1 es1 tr1 where h: "handleBytes m x (bytes_handler b) = Inr (s1, es1)"
    and r: "receive_all m xs s1 = Inr (s', tr1)" and tr: "tr = (getPacketId x, es1) # tr1"
    using Cons.prems(4) by (auto simp: rbind_eq_Inr)
  obtain b1 where b1: "spin ph rnd env b = Inr (b1, es1)" "idle_receiver b1" "inbound b1 = rest"
    "bytes_handler b1 = s1"
    using spin_packet [OF Cons.prems(1) msg(1,2) h] by blast
  have "receive_all m xs (bytes_handler b1) = Inr (s', tr1)" using r b1(4) by simp
  from Cons.IH [OF b1(2) _ envs(2) this] msg(3) b1 envs(1) tr show ?case by auto
qed

lemma receive_all_ids: "receive_all m xs s = Inr (s', tr) \<Longrightarrow> map fst tr = map getPacketId xs"
  by (induction xs arbitrary: s tr) (auto simp: rbind_eq_Inr)

lemma events_of_all:
  assumes "receive_all m xs s = Inr (s', tr)" "\<forall>x \<in> set xs. getPacketId x = k"
  shows "events_of k tr = map snd tr"
proof -
  have "\<forall>e \<in> set tr. fst e = k"
    using receive_all_ids [OF assms(1)] assms(2) by (metis imageI image_iff list.set_map)
  then show ?thesis by (simp add: events_of_def filter_id_conv)
qed


subsection \<open>The packets of one payload at the receiver\<close>

definition packet_total :: "pheromones \<Rightarrow> nat \<Rightarrow> nat" where
  "packet_total ph nbytes = (nbytes + PAYLOAD_MAX_SIZE ph - 1) div PAYLOAD_MAX_SIZE ph"

lemma packets_delivered:
  fixes payload :: "u8 list" and nbytes :: nat
  assumes laws: "bytes_laws ph" and len: "nbytes \<le> length payload"
    and part: "nbytes mod PAYLOAD_MAX_SIZE ph \<noteq> 0"
    and cb: "m_bytesReceivedCallback s = Some h" and acc: "m_bytesAccumulatorMap s k = None"
  defines "xs \<equiv> map (packet ph payload nbytes (packet_total ph nbytes) k) [0 ..< packet_total ph nbytes]"
  shows "\<exists>s' tr. receive_all m xs s = Inr (s', tr) \<and> deliveries (concat (map snd tr)) = [take nbytes payload]"
proof -
  let ?n = "packet_total ph nbytes"
  have pos: "0 < nbytes" using part by (cases nbytes) auto
  have n: "0 < ?n" using pos bytes_lawsD(1) [OF laws] by (simp add: packet_total_def div_greater_zero_iff)
  note getters = packet_getters [OF laws len packet_total_def]
  have st: "stream_from 0 xs" unfolding xs_def using n getters(2,3) by (intro stream_from_map)
  have wf: "\<forall>x \<in> set xs. wf_bytes x" and ids: "\<forall>x \<in> set xs. getPacketId x = k"
    unfolding xs_def using getters(1,4) by auto
  have own: "packets_of k xs = xs" unfolding packets_of_def by (rule filter_True [OF ids])
  have pay: "stream_payload xs = take nbytes payload"
    using stream_payload_packets [OF laws len pos packet_total_def, of k] part by (simp add: xs_def)
  have "stream_from 0 (packets_of k xs)" unfolding own by (rule st)
  from stream_delivered [OF cb wf this acc, of m] obtain s' tr
    where r: "receive_all m xs s = Inr (s', tr)"
      and e: "events_of k tr = replicate (length (packets_of k xs) - 1) [] @
        [[BytesReceived h (stream_payload (packets_of k xs))
            (word_of_nat (length (stream_payload (packets_of k xs))))]]"
    by blast
  have "deliveries (concat (events_of k tr)) = [take nbytes payload]"
    unfolding e own pay by (simp add: concat_replicate_trivial)
  then show ?thesis using r events_of_all [OF r ids] by auto
qed

text \<open>A sender with nothing else to send: what one round of its outbound thread serialises.\<close>

lemma sendBytes_serialized:
  assumes "bytes_laws ph" "isTCPClientConnected a" "outbound a = []" "m_inboundResponsesMap a = Map.empty"
  shows "\<exists>a1 a2 es. sendBytes ph rnd dst payload nbytes a = (True, a1, []) \<and>
    outbound_turns (length (outbound a1)) a1 = Inr (a2, es) \<and>
    list_all2 carries (serialized es)
      (map (packet ph payload (unat nbytes) (packet_total ph (unat nbytes)) (generateRandomId (rnd (rand_calls a))))
        [0 ..< packet_total ph (unat nbytes)])"
proof -
  obtain a1 where a1: "sendBytes ph rnd dst payload nbytes a = (True, a1, [])"
    "outbound a1 = packet_handles ph rnd dst payload (unat nbytes) (packet_total ph (unat nbytes))
      (generateRandomId (rnd (rand_calls a))) 0 (a\<lparr>rand_calls := Suc (rand_calls a)\<rparr>)"
    "m_inboundResponsesMap a1 = Map.empty"
    using sendBytes_handles [OF assms(1,2) refl packet_total_def, of rnd dst payload] assms(3,4) by auto
  obtain a2 es where run: "outbound_turns (length (outbound a1)) a1 = Inr (a2, es)"
    and sent: "serialized es = map m_message (outbound a1)"
    using fresh_round [OF _ a1(3)] packet_handles_fresh unfolding a1(2) by blast
  have "list_all2 carries (serialized es)
      (map (packet ph payload (unat nbytes) (packet_total ph (unat nbytes)) (generateRandomId (rnd (rand_calls a))))
        [0 ..< packet_total ph (unat nbytes)])"
    unfolding sent a1(2) by (rule packet_handles_carry)
  then show ?thesis using a1(1) run by blast
qed

end
