(* ===== verification/Inbound.thy ===== *)
theory Inbound
  imports Prelude Pheromones UserCallbackMap Handles UserCallRequestHandler MessageHandler
    HiveMindBridgeImpl Spin
begin

section \<open>From the inbound queue to the answers\<close>

text \<open>
  What becomes of the messages the inbound thread has queued. The specification is
  \<open>handle_messages\<close>, the dispatcher applied to the messages one after the other. As many spins as
  there are messages do exactly that, whatever calls finish and are returned meanwhile. From it
  follows what a remote agent learns that asks for the host's actions.
\<close>

subsection \<open>Handling a list of messages\<close>

fun handle_messages ::
  "pheromones \<Rightarrow> MessageDTO list \<Rightarrow> MessageHandler \<Rightarrow> (handled list \<times> MessageHandler) result" where
  "handle_messages ph [] mh = Inr ([], mh)"
| "handle_messages ph (m # ms) mh =
     rbind (MessageHandler_handleMessage ph m mh) (\<lambda>(r, mh, es).
       rbind (handle_messages ph ms mh) (\<lambda>(rs, mh). Inr (r # rs, mh)))"

text \<open>The answers to the requests among them, and the responses the bridge then remembers.\<close>

fun answers :: "handled list \<Rightarrow> MessageDTO list" where
  "answers [] = []"
| "answers (HandledRequest h # rs) = m_responseMessage h # answers rs"
| "answers (_ # rs) = answers rs"

fun remember :: "handled \<Rightarrow> (u32 \<rightharpoonup> InboundResponseHandle) \<Rightarrow> (u32 \<rightharpoonup> InboundResponseHandle)" where
  "remember (HandledResponse h) resp = resp(m_responseId h \<mapsto> h)"
| "remember _ resp = resp"

fun is_response :: "MessageDTO \<Rightarrow> bool" where
  "is_response m = (case getMessage m of Response _ \<Rightarrow> True | _ \<Rightarrow> False)"

lemma UserCallRequestHandler_answers:
  assumes "UserCallRequestHandler_handleMessage ph msg uc s = Inr (r, s', es)"
  shows "\<exists>h. r = HandledRequest h \<and> is_response (m_responseMessage h)"
proof -
  obtain req where "getMessage msg = Request req"
    using assms by (auto simp: UserCallRequestHandler_handleMessage_def Let_def split: message_body.splits)
  then show ?thesis
    using assms
    by (auto simp: UserCallRequestHandler_handleMessage_def Let_def rbind_eq_Inr bridge_defs
        split: user_call_request.splits prod.splits)
qed

lemma handled_request_answer:
  assumes "MessageHandler_handleMessage ph msg s = Inr (HandledRequest h, s', es)"
  shows "is_response (m_responseMessage h)"
proof -
  have "\<exists>req uc. getMessage msg = Request req \<and> getRequest req = UserCallRequest uc"
    using assms
    by (auto simp: MessageHandler_handleMessage_def Let_def rbind_eq_Inr response_handle_def
        split: message_body.splits request_body.splits response_body.splits user_call_response.splits)
  then show ?thesis
    using assms UserCallRequestHandler_answers
    by (fastforce simp: MessageHandler_handleMessage_def Let_def rbind_eq_Inr simp del: is_response.simps)
qed

lemma return_messages_no_response: "filter is_response (return_messages ph rnd u hs n) = []"
  by (induction hs arbitrary: n)
     (auto simp: return_message_def createFunctionCallRequest_def Let_def split: option.split)


subsection \<open>One spin, one message\<close>

lemma spin_message:
  assumes "isTCPClientConnected b" "bridge_wf b" "inbound b = msg # rest"
    and h: "MessageHandler_handleMessage ph msg (m_messageHandler b) = Inr (r, mh, es1)"
  shows "\<exists>b' es. spin ph rnd env b = Inr (b', es) \<and> isTCPClientConnected b' \<and> bridge_wf b' \<and>
    inbound b' = rest \<and> m_messageHandler b' = mh \<and> callback_map b' = callback_map b \<and>
    m_inboundResponsesMap b' = remember r (m_inboundResponsesMap b) \<and>
    filter is_response (serialized es) = answers [r]"
proof -
  have none: "serialized es1 = []"
    using MessageHandler_preserves(5) [OF _ h] assms(2) by (simp add: bridge_wf_def message_handler_inv_def)
  obtain b1 es' where rcv: "spin_receive ph b = Inr (b1, es')"
    and b1: "m_messageHandler b1 = mh" "inbound b1 = rest"
    "m_inboundResponsesMap b1 = remember r (m_inboundResponsesMap b)"
    and es': "serialized es' = answers [r]"
    using assms(3) h none by (cases r) (auto simp: spin_receive_Cons Let_def)
  note wf1 = spin_receive_wf [OF assms(2) rcv]
  have "filter is_response (answers [r]) = answers [r]"
    using handled_request_answer h by (cases r) auto
  moreover obtain es2 where c: "spin_connected ph rnd b =
      Inr (b1\<lparr>rand_calls := rand_calls b1 + length (serialized es2),
             m_inboundRequestsQueue := filter (unfinished (user_calls b1)) (m_inboundRequestsQueue b1)\<rparr>,
           es' @ es2)"
    "serialized es2 = return_messages ph rnd (user_calls b1) (m_inboundRequestsQueue b1) (rand_calls b1)"
    using spin_connected_eq [OF assms(2) rcv, of rnd] by blast
  ultimately show ?thesis
    using wf1 b1 es' spin_receive_frame(1) [OF rcv] assms(1)
    by (auto simp: spin_served [OF assms(1)] return_messages_no_response bridge_wf_def isTCPClientConnected_def
        simp del: is_response.simps)
qed

text \<open>
  The inbound thread may push between the calls of \<open>front\<close> and \<open>pop\<close>: a message that arrives during a
  spin is not handled by it and not lost, so the push commutes with the handling.
\<close>

lemma spin_receive_push:
  assumes "inbound b \<noteq> []"
  shows "spin_receive ph (b\<lparr>m_inboundQueue := push m (m_inboundQueue b)\<rparr>) =
    rbind (spin_receive ph b) (\<lambda>(b', es). Inr (b'\<lparr>m_inboundQueue := push m (m_inboundQueue b')\<rparr>, es))"
proof -
  obtain msg rest where q: "inbound b = msg # rest" using assms by (cases "inbound b") auto
  let ?b = "b\<lparr>m_inboundQueue := push m (m_inboundQueue b)\<rparr>"
  have q': "inbound ?b = msg # (rest @ [m])" using q by simp
  have upd: "(m_inboundQueue b)\<lparr>m_queue := rest @ [m]\<rparr> = push m ((m_inboundQueue b)\<lparr>m_queue := rest\<rparr>)"
    "(push m (m_inboundQueue b))\<lparr>m_queue := rest @ [m]\<rparr> = push m ((m_inboundQueue b)\<lparr>m_queue := rest\<rparr>)"
    by (simp_all add: push_def)
  show ?thesis
  proof (cases "MessageHandler_handleMessage ph msg (m_messageHandler b)")
    case (Inl e)
    then show ?thesis by (simp add: spin_receive_Cons [OF q] spin_receive_Cons [OF q'])
  next
    case (Inr x)
    then show ?thesis
      by (cases x) (auto simp: spin_receive_Cons [OF q] spin_receive_Cons [OF q'] upd Let_def
          split: handled.split)
  qed
qed

lemma spins_handle:
  assumes "isTCPClientConnected b" "bridge_wf b" "length envs = length (inbound b)"
    and "handle_messages ph (inbound b) (m_messageHandler b) = Inr (rs, mh)"
  shows "\<exists>b' es. spins ph rnd envs b = Inr (b', es) \<and> isTCPClientConnected b' \<and> bridge_wf b' \<and>
    inbound b' = [] \<and> m_messageHandler b' = mh \<and>
    m_inboundResponsesMap b' = fold remember rs (m_inboundResponsesMap b) \<and>
    filter is_response (serialized es) = answers rs"
  using assms
proof (induction "inbound b" arbitrary: b envs rs)
  case Nil
  then show ?case by simp
next
  case (Cons msg rest)
  obtain env envs' where envs: "envs = env # envs'" using Cons.hyps(2) Cons.prems(3) by (cases envs) auto
  obtain r mh1 es1 rs' where h: "MessageHandler_handleMessage ph msg (m_messageHandler b) = Inr (r, mh1, es1)"
    and hs: "handle_messages ph rest mh1 = Inr (rs', mh)" and rs: "rs = r # rs'"
    using Cons.prems(4) by (auto simp: Cons.hyps(2) [symmetric] rbind_eq_Inr)
  obtain b1 es2 where s: "spin ph rnd env b = Inr (b1, es2)" "filter is_response (serialized es2) = answers [r]"
    "m_inboundResponsesMap b1 = remember r (m_inboundResponsesMap b)"
    and b1: "isTCPClientConnected b1" "bridge_wf b1" "inbound b1 = rest" "m_messageHandler b1 = mh1"
    using spin_message [OF Cons.prems(1,2) Cons.hyps(2) [symmetric] h] by blast
  have "\<exists>b' es. spins ph rnd envs' b1 = Inr (b', es) \<and> isTCPClientConnected b' \<and> bridge_wf b' \<and>
    inbound b' = [] \<and> m_messageHandler b' = mh \<and>
    m_inboundResponsesMap b' = fold remember rs' (m_inboundResponsesMap b1) \<and>
    filter is_response (serialized es) = answers rs'"
    by (rule Cons.hyps(1)) (use b1 hs Cons.prems(3) in \<open>simp_all add: envs Cons.hyps(2) [symmetric]\<close>)
  then show ?case
    using s by (cases r) (auto simp: envs rs simp del: is_response.simps)
qed

lemma handle_messages_ok:
  assumes "message_handler_inv mh" "\<forall>m \<in> set ms. message_wf m \<and>
      \<not> asks_index_at_size m (m_callbackMap (m_userCallRequestHandler mh))"
  shows "\<exists>rs mh'. handle_messages ph ms mh = Inr (rs, mh')"
  using assms
proof (induction ms arbitrary: mh)
  case (Cons m ms)
  then obtain r mh1 es where h: "MessageHandler_handleMessage ph m mh = Inr (r, mh1, es)"
    using MessageHandler_ok [of m mh ph] by (auto simp: ok_iff)
  from MessageHandler_preserves(1,2) [OF Cons.prems(1) h] Cons.prems(2) Cons.IH [of mh1] h
  show ?case by auto
qed simp

text \<open>
  C11. Every queued message is handled, in the order of arrival: on a bridge in order with a client, if
  no queued message is a description request at the index that faults, then as many spins as
  messages handle each of them once, exactly as the dispatcher would handle them one after the
  other. The queue is empty afterwards; the responses sent are those to the requests, in order, with
  only return payloads of finished calls between them; and exactly the response handles are
  remembered.
\<close>

theorem inbound_drains:
  assumes "isTCPClientConnected b" "bridge_wf b" "length envs = length (inbound b)"
    and "\<forall>m \<in> set (inbound b). message_wf m \<and> \<not> asks_index_at_size m (callback_map b)"
  shows "\<exists>rs mh b' es. handle_messages ph (inbound b) (m_messageHandler b) = Inr (rs, mh) \<and>
    spins ph rnd envs b = Inr (b', es) \<and> inbound b' = [] \<and> m_messageHandler b' = mh \<and>
    filter is_response (serialized es) = answers rs \<and>
    m_inboundResponsesMap b' = fold remember rs (m_inboundResponsesMap b)"
proof -
  have "message_handler_inv (m_messageHandler b)"
    using assms(2) by (simp add: bridge_wf_def message_handler_inv_def)
  from handle_messages_ok [OF this assms(4)] obtain rs mh
    where h: "handle_messages ph (inbound b) (m_messageHandler b) = Inr (rs, mh)" by blast
  show ?thesis using spins_handle [OF assms(1-3) h, of rnd] h by blast
qed

theorem inbound_drains_witness:
  "\<exists>rs mh b' es. spins sample_pheromones (\<lambda>n. 0) [sample_env] sample_call_bridge = Inr (b', es) \<and>
    inbound b' = [] \<and> handle_messages sample_pheromones [call_message 1 2 9 BUZZ HOST sample_call]
      (m_messageHandler sample_call_bridge) = Inr (rs, mh) \<and>
    filter is_response (serialized es) = answers rs"
proof -
  have "length [sample_env] = length (inbound sample_call_bridge)"
    and "\<forall>m \<in> set (inbound sample_call_bridge). message_wf m \<and>
      \<not> asks_index_at_size m (callback_map sample_call_bridge)"
    by (simp_all add: call_message_def message_wf_def asks_index_at_size_def)
  from inbound_drains [OF sample_call_simps(1,2) this, of sample_pheromones "\<lambda>n. 0"] show ?thesis
    by (auto simp del: handle_messages.simps is_response.simps)
qed


subsection \<open>A remote agent discovers the actions\<close>

definition query_message ::
  "u32 \<Rightarrow> u32 \<Rightarrow> u32 \<Rightarrow> UserCallTargetDTO \<Rightarrow> UserCallTargetDTO \<Rightarrow> user_call_request \<Rightarrow> MessageDTO" where
  "query_message src dst rid smod dmod q =
     \<lparr>getSourceId = src, getDestinationId = dst,
      getMessage = Request \<lparr>getRequestId = rid, getRequest = UserCallRequest
        \<lparr>getSource = smod, getDestination = dmod, getUserCallRequest = q\<rparr>\<rparr>\<rparr>"

definition query_answer ::
  "u32 \<Rightarrow> u32 \<Rightarrow> u32 \<Rightarrow> UserCallTargetDTO \<Rightarrow> user_call_response \<Rightarrow> MessageDTO" where
  "query_answer src dst rid smod r =
     \<lparr>getSourceId = dst, getDestinationId = src,
      getMessage = Response \<lparr>getResponseRequestId = rid, getResponse = UserCallResponse
        \<lparr>getResponseSource = HOST, getResponseDestination = smod, getUserCallResponse = r\<rparr>\<rparr>\<rparr>"

text \<open>What the agent asks, under the request ids \<open>rid 0\<close>, \<open>rid 1\<close>, \dots, and what it is to learn.\<close>

definition discovery_queries ::
  "u32 \<Rightarrow> u32 \<Rightarrow> (nat \<Rightarrow> u32) \<Rightarrow> UserCallTargetDTO \<Rightarrow> UserCallTargetDTO \<Rightarrow> nat \<Rightarrow> MessageDTO list" where
  "discovery_queries src dst rid smod dmod n =
     query_message src dst (rid 0) smod dmod FunctionListLengthRequest #
     map (\<lambda>i. query_message src dst (rid (Suc i)) smod dmod (FunctionDescriptionRequest (word_of_nat i))) [0 ..< n]"

definition described :: "UserCallbackMap \<Rightarrow> string \<Rightarrow> FunctionDescriptionDTO" where
  "described m name =
     \<lparr>getDescribedName = name,
      getDescribedArguments =
        map (\<lambda>a. \<lparr>getArgumentName = m_name a, getArgumentType = m_type a\<rparr>) (the (manifest_of_name m name))\<rparr>"

definition discovery_answers ::
  "u32 \<Rightarrow> u32 \<Rightarrow> (nat \<Rightarrow> u32) \<Rightarrow> UserCallTargetDTO \<Rightarrow> UserCallbackMap \<Rightarrow> MessageDTO list" where
  "discovery_answers src dst rid smod m =
     (let names = m_callbackNames m
      in query_answer src dst (rid 0) smod (FunctionListLengthResponse (word_of_nat (length names))) #
         map (\<lambda>i. query_answer src dst (rid (Suc i)) smod
                    (FunctionDescriptionResponse (Description (described m (names ! i))))) [0 ..< length names])"

lemma handle_length_query:
  "\<exists>h. MessageHandler_handleMessage ph (query_message src dst r smod dmod FunctionListLengthRequest) s =
      Inr (HandledRequest h, s, []) \<and>
    m_responseMessage h = query_answer src dst r smod
      (FunctionListLengthResponse (word_of_nat (length (m_callbackNames (m_callbackMap (m_userCallRequestHandler s))))))"
  by (simp add: MessageHandler_handleMessage_def UserCallRequestHandler_handleMessage_def query_message_def
      query_answer_def handleFunctionListLengthRequest_def getLength_def bridge_defs Let_def)

lemma handle_description_query:
  assumes "handleFunctionDescriptionRequest ph (query_message src dst r smod dmod (FunctionDescriptionRequest i)) i
      (m_userCallRequestHandler s) = Inr (d, m_userCallRequestHandler s)"
  shows "\<exists>h. MessageHandler_handleMessage ph (query_message src dst r smod dmod (FunctionDescriptionRequest i)) s =
      Inr (HandledRequest h, s, []) \<and>
    m_responseMessage h = query_answer src dst r smod (FunctionDescriptionResponse d)"
  using assms
  by (simp add: MessageHandler_handleMessage_def UserCallRequestHandler_handleMessage_def query_message_def
      query_answer_def bridge_defs Let_def)

lemma handle_queries:
  assumes "\<And>q. q \<in> set qs \<Longrightarrow> \<exists>h. MessageHandler_handleMessage ph (ask q) s = Inr (HandledRequest h, s, []) \<and>
      m_responseMessage h = reply q"
  shows "\<exists>rs. handle_messages ph (map ask qs) s = Inr (rs, s) \<and> answers rs = map reply qs \<and>
    fold remember rs resp = resp"
  using assms
proof (induction qs)
  case (Cons q qs)
  then obtain h where "MessageHandler_handleMessage ph (ask q) s = Inr (HandledRequest h, s, [])"
    "m_responseMessage h = reply q"
    by auto
  with Cons.IH Cons.prems show ?case by auto
qed simp

text \<open>
  C12. What a remote agent learns that asks for the number of actions and then for the description of
  every index below it: in as many spins it is sent, in order and each under the id of its request,
  that number and the name and the argument names and types of every action, in the order of
  registration. Asking starts no action and changes no callback, whatever other calls are pending.
  This is for names and manifests that the description objects can hold.
\<close>

theorem remote_discovery:
  assumes "isTCPClientConnected b" "bridge_wf b"
    and "n = length (m_callbackNames (callback_map b))" "n < 2 ^ 32"
    and "inbound b = discovery_queries src dst rid smod dmod n" "length envs = Suc n"
    and "description_laws ph fits m"
    and "\<forall>name \<in> set (m_callbackNames (callback_map b)).
      describable fits m name (the (manifest_of_name (callback_map b) name))"
  shows "\<exists>b' es. spins ph rnd envs b = Inr (b', es) \<and> inbound b' = [] \<and>
    filter is_response (serialized es) = discovery_answers src dst rid smod (callback_map b) \<and>
    m_messageHandler b' = m_messageHandler b"
proof -
  let ?s = "m_messageHandler b" and ?names = "m_callbackNames (callback_map b)"
  have map: "callback_map_inv (callback_map b)"
    using assms(2) by (simp add: bridge_wf_def user_calls_inv_def)
  let ?ask = "\<lambda>i. query_message src dst (rid (Suc i)) smod dmod (FunctionDescriptionRequest (word_of_nat i))"
  let ?reply = "\<lambda>i. query_answer src dst (rid (Suc i)) smod
    (FunctionDescriptionResponse (Description (described (callback_map b) (?names ! i))))"
  have "\<exists>h. MessageHandler_handleMessage ph (?ask i) ?s = Inr (HandledRequest h, ?s, []) \<and>
      m_responseMessage h = ?reply i" if "i \<in> set [0 ..< n]" for i
  proof (rule handle_description_query)
    have i: "i < length ?names" using that assms(3) by simp
    then have "describable fits m (?names ! i) (the (manifest_of_name (callback_map b) (?names ! i)))"
      using assms(8) by simp
    moreover have "i < unat (handleFunctionListLengthRequest (?ask i) (user_calls b))"
      using i assms(3,4) by (simp add: handleFunctionListLengthRequest_def getLength_def)
    ultimately show "handleFunctionDescriptionRequest ph (?ask i) (word_of_nat i) (user_calls b) =
        Inr (Description (described (callback_map b) (?names ! i)), user_calls b)"
      unfolding described_def using map assms(3,4,7) by (intro function_discovery) simp_all
  qed
  from handle_queries [of "[0 ..< n]" ph ?ask ?s ?reply, OF this] obtain rs
    where rs: "handle_messages ph (map ?ask [0 ..< n]) ?s = Inr (rs, ?s)" "answers rs = map ?reply [0 ..< n]"
    by blast
  obtain h where "MessageHandler_handleMessage ph (query_message src dst (rid 0) smod dmod FunctionListLengthRequest) ?s =
      Inr (HandledRequest h, ?s, [])"
    "m_responseMessage h = query_answer src dst (rid 0) smod (FunctionListLengthResponse (word_of_nat (length ?names)))"
    using handle_length_query by blast
  with rs have "handle_messages ph (inbound b) ?s = Inr (HandledRequest h # rs, ?s)"
    "answers (HandledRequest h # rs) = discovery_answers src dst rid smod (callback_map b)"
    by (simp_all add: assms(3,5) discovery_queries_def discovery_answers_def Let_def)
  moreover have "length envs = length (inbound b)"
    using assms(5,6) by (simp add: discovery_queries_def)
  ultimately show ?thesis using spins_handle [OF assms(1,2), of envs ph _ _ rnd] by metis
qed

definition sample_discovery_bridge :: HiveMindBridgeImpl where
  "sample_discovery_bridge = sample_echo_bridge\<lparr>m_inboundQueue :=
     \<lparr>m_queue = discovery_queries 1 2 word_of_nat BUZZ HOST 1\<rparr>\<rparr>"

theorem remote_discovery_witness:
  "\<exists>b' es. spins sample_pheromones (\<lambda>n. 0) [sample_env, sample_env] sample_discovery_bridge = Inr (b', es) \<and>
    filter is_response (serialized es) =
      [query_answer 1 2 0 BUZZ (FunctionListLengthResponse 1),
       query_answer 1 2 1 BUZZ (FunctionDescriptionResponse (Description
         \<lparr>getDescribedName = ''echo'', getDescribedArguments = []\<rparr>))]"
proof -
  let ?b = sample_discovery_bridge
  have map: "callback_map ?b = callback_map sample_echo_bridge" by (simp add: sample_discovery_bridge_def)
  have man: "manifest_of_name (callback_map ?b) ''echo'' = Some []"
    by (simp add: map sample_echo_bridge_def registerCustomAction_def Let_def case_prod_unfold
        set_callback_map_def manifest_of_name_def)
  have con: "isTCPClientConnected ?b" "bridge_wf ?b"
    using sample_echo_simps(1) sample_echo_wf
    by (simp_all add: sample_discovery_bridge_def isTCPClientConnected_def bridge_wf_def)
  have n: "1 = length (m_callbackNames (callback_map ?b))" "(1::nat) < 2 ^ 32"
    and i: "inbound ?b = discovery_queries 1 2 word_of_nat BUZZ HOST 1"
    and e: "length [sample_env, sample_env] = Suc 1"
    and d: "\<forall>name \<in> set (m_callbackNames (callback_map ?b)).
      describable (\<lambda>s. length s \<le> 16) 2 name (the (manifest_of_name (callback_map ?b) name))"
    using man by (simp_all add: map) (simp_all add: sample_discovery_bridge_def describable_def)
  have "discovery_answers 1 2 word_of_nat BUZZ (callback_map ?b) =
      [query_answer 1 2 0 BUZZ (FunctionListLengthResponse 1),
       query_answer 1 2 1 BUZZ (FunctionDescriptionResponse (Description
         \<lparr>getDescribedName = ''echo'', getDescribedArguments = []\<rparr>))]"
    using man by (simp add: discovery_answers_def map described_def)
  with remote_discovery [OF con n i e sample_description_laws d, of "\<lambda>n. 0"] show ?thesis by metis
qed

end
