(* ===== verification/TransferFaults.thy ===== *)
theory TransferFaults imports Prelude Pheromones BytesAccumulator HostApiRequestHandler begin

section \<open>Repeated and abandoned packets\<close>

text \<open>
  Two more things a network does to a transfer: it delivers a packet more than once, and it loses the
  rest of a payload for good. The theory shows what the request handler then hands to the user and
  what it keeps.
\<close>

subsection \<open>Packets delivered more than once\<close>

text \<open>Packet \<open>i\<close> of \<open>bs\<close> arrives \<open>ns ! i\<close> more times, right after its first arrival.\<close>

fun repeated :: "BytesDTO list \<Rightarrow> nat list \<Rightarrow> BytesDTO list" where
  "repeated (b # bs) (n # ns) = b # replicate n b @ repeated bs ns"
| "repeated _ _ = []"

lemma set_repeated: "set (repeated bs ns) \<subseteq> set bs"
  by (induction bs ns rule: repeated.induct) auto

lemma transfer_run_Cons:
  "transfer_run h (b # bs) t =
     (fst (transfer_run h bs (fst (transfer_step b t))),
      packet_events h b t # snd (transfer_run h bs (fst (transfer_step b t))))"
  by (simp add: case_prod_unfold Let_def)

text \<open>The copies of a packet with another number than the expected one are skipped.\<close>

lemma copies_skipped:
  assumes "at_packet t i bytes" "getPacketNumber b \<noteq> word_of_nat i"
  shows "at_packet (fst (transfer_run h (replicate n b) t)) i bytes \<and>
    deliveries (concat (snd (transfer_run h (replicate n b) t))) = []"
  using at_packet_reject_all [OF assms(1), of "replicate n b"] assms(2) by simp

text \<open>A packet that is a whole payload is delivered again by every copy.\<close>

lemma whole_payload_copies:
  assumes "at_packet t 0 []" "getPacketNumber b = 0" "isLastPacket b"
  shows "deliveries (concat (snd (transfer_run h (replicate n b) t))) = replicate n (payload_of b) \<and>
    at_packet (fst (transfer_run h (replicate n b) t)) 0 []"
  using assms
proof (induction n arbitrary: t)
  case 0
  then show ?case by simp
next
  case (Suc n)
  have num: "getPacketNumber b = word_of_nat 0" using Suc.prems(2) by simp
  note step = at_packet_step [OF Suc.prems(1) num]
  show ?case
    using Suc.IH [OF at_packet_None Suc.prems(2,3)] step Suc.prems(3)
    by (simp add: transfer_run_Cons packet_events_def del: transfer_run.simps)
qed

lemma repeated_run:
  assumes "stream_from i bs" "at_packet t i bytes" "length ns = length bs"
    and "i + length bs \<le> 4294967296" "1 < i + length bs"
  shows "deliveries (concat (snd (transfer_run h (repeated bs ns) t))) = [bytes @ stream_payload bs] \<and>
    at_packet (fst (transfer_run h (repeated bs ns) t)) 0 []"
  using assms
proof (induction bs arbitrary: i t bytes ns)
  case Nil
  then show ?case by simp
next
  case (Cons b bs)
  obtain n ns' where ns: "ns = n # ns'" using Cons.prems(3) by (cases ns) auto
  have num: "getPacketNumber b = word_of_nat i" using Cons.prems(1) by simp
  note step = at_packet_step [OF Cons.prems(2) num]
  show ?case
  proof (cases "bs = []")
    case True
    then have i: "(word_of_nat i :: u32) \<noteq> word_of_nat 0"
      using Cons.prems(4,5) by (subst u32_of_nat_inject) auto
    then have "getPacketNumber b \<noteq> word_of_nat 0" using num by simp
    note copies = copies_skipped [OF at_packet_None this, of h n]
    show ?thesis
      using copies step Cons.prems(1) True
      by (simp add: ns transfer_run_Cons packet_events_def stream_payload_def del: transfer_run.simps)
  next
    case False
    let ?t = "Some \<lparr>m_bytes = bytes @ payload_of b, m_lastPacketNumber = word_of_nat i\<rparr>"
    have "at_packet ?t (Suc i) (bytes @ payload_of b)" by (simp add: at_packet_def)
    moreover have "getPacketNumber b \<noteq> word_of_nat (Suc i)" by (simp add: num)
    ultimately have copies: "at_packet (fst (transfer_run h (replicate n b) ?t)) (Suc i) (bytes @ payload_of b)"
      "deliveries (concat (snd (transfer_run h (replicate n b) ?t))) = []"
      using copies_skipped by blast+
    have "deliveries (concat (snd (transfer_run h (repeated bs ns')
        (fst (transfer_run h (replicate n b) ?t))))) = [(bytes @ payload_of b) @ stream_payload bs] \<and>
      at_packet (fst (transfer_run h (repeated bs ns') (fst (transfer_run h (replicate n b) ?t)))) 0 []"
    proof (rule Cons.IH [OF _ copies(1)])
      show "stream_from (Suc i) bs" using Cons.prems(1) False by simp
      show "1 < Suc i + length bs" using False by (cases bs) simp_all
    qed (use Cons.prems(3,4) ns in simp_all)
    then show ?thesis
      using step Cons.prems(1) False copies(2)
      by (simp add: ns transfer_run_Cons transfer_run_append packet_events_def stream_payload_def
          del: transfer_run.simps)
  qed
qed

text \<open>The whole stream twice, one after the other.\<close>

lemma stream_twice:
  assumes "m_bytesReceivedCallback s = Some h" "\<forall>b \<in> set bs. wf_bytes b \<and> getPacketId b = k"
    and "stream_from 0 bs" "m_bytesAccumulatorMap s k = None"
  shows "\<exists>s' tr. receive_all m (bs @ bs) s = Inr (s', tr) \<and>
    deliveries (concat (events_of k tr)) = [stream_payload bs, stream_payload bs]"
proof -
  have wf: "\<forall>b \<in> set (bs @ bs). wf_bytes b" and own: "packets_of k (bs @ bs) = bs @ bs"
    using assms(2) by (auto simp: packets_of_def intro!: filter_True)
  from receive_all_refines [OF assms(1) wf, of m] obtain s' tr
    where "receive_all m (bs @ bs) s = Inr (s', tr)" "events_of k tr = snd (transfer_run h (bs @ bs) None)"
    using own assms(4) by metis
  moreover have "deliveries (concat (snd (transfer_run h (bs @ bs) None))) = [stream_payload bs, stream_payload bs]"
    using stream_run [OF assms(3) at_packet_None, of h] by (simp add: transfer_run_append)
  ultimately show ?thesis by auto
qed

text \<open>
  C25. A network that repeats packets in place, each arriving some number of times in a row: a payload
  of two packets or more is delivered once, but a payload of a single packet is delivered again with
  every copy of it. The next payload under the same id starts from scratch, since nothing remembers
  that the id was already delivered; so a network that repeats the whole sequence of packets has any
  payload delivered twice.
\<close>

theorem repeated_packets:
  assumes "m_bytesReceivedCallback s = Some h" "\<forall>b \<in> set bs. wf_bytes b \<and> getPacketId b = k"
    and "stream_from 0 bs" "length bs \<le> 4294967296" "length ns = length bs"
    and "m_bytesAccumulatorMap s k = None"
  shows "\<exists>s' tr. receive_all m (repeated bs ns) s = Inr (s', tr) \<and>
    deliveries (concat (events_of k tr)) =
      (if length bs = 1 then replicate (Suc (hd ns)) (stream_payload bs) else [stream_payload bs]) \<and>
    at_packet (m_bytesAccumulatorMap s' k) 0 [] \<and>
    (\<exists>s2 tr2. receive_all m (bs @ bs) s = Inr (s2, tr2) \<and>
      deliveries (concat (events_of k tr2)) = [stream_payload bs, stream_payload bs])"
proof -
  let ?all = "repeated bs ns"
  have all: "\<forall>b \<in> set ?all. wf_bytes b \<and> getPacketId b = k" using assms(2) set_repeated by blast
  then have wf: "\<forall>b \<in> set ?all. wf_bytes b" by blast
  have own: "packets_of k ?all = ?all"
    unfolding packets_of_def using all by (intro filter_True) blast
  from receive_all_refines [OF assms(1) wf, of m] obtain s' tr
    where run: "receive_all m ?all s = Inr (s', tr)"
      and acc: "m_bytesAccumulatorMap s' k = fst (transfer_run h ?all None)"
      and ev: "events_of k tr = snd (transfer_run h ?all None)"
    using own assms(6) by metis
  have "deliveries (concat (snd (transfer_run h ?all None))) =
      (if length bs = 1 then replicate (Suc (hd ns)) (stream_payload bs) else [stream_payload bs]) \<and>
    at_packet (fst (transfer_run h ?all None)) 0 []"
  proof (cases "length bs = 1")
    case True
    then obtain b n where bs: "bs = [b]" "ns = [n]"
      using assms(5) by (metis One_nat_def length_0_conv length_Suc_conv)
    then have "?all = replicate (Suc n) b" by simp
    moreover have "getPacketNumber b = 0" "isLastPacket b" using assms(3) bs by simp_all
    ultimately show ?thesis
      using whole_payload_copies [OF at_packet_None, of b h "Suc n"] True bs
      by (simp add: stream_payload_def del: replicate.simps transfer_run.simps)
  next
    case False
    then have "1 < 0 + length bs" using assms(3) by (cases bs) auto
    from repeated_run [OF assms(3) at_packet_None assms(5) _ this, of h] assms(4) False
    show ?thesis by simp
  qed
  then show ?thesis using run acc ev stream_twice [OF assms(1-3,6)] by auto
qed

theorem repeated_packets_witness:
  "(\<exists>s' tr. receive_all sample_message (repeated sample_stream [0, 2]) sample_receiver = Inr (s', tr) \<and>
    deliveries (concat (events_of 7 tr)) = [[1, 2, 3]]) \<and>
   (\<exists>s' tr. receive_all sample_message (sample_stream @ sample_stream) sample_receiver = Inr (s', tr) \<and>
    deliveries (concat (events_of 7 tr)) = [[1, 2, 3], [1, 2, 3]])"
  using repeated_packets [OF sample_receiver_simps(1) sample_stream_simps(1,2) _ _
      sample_receiver_simps(2), of "[0, 2]" sample_message]
  by (auto simp: sample_stream_simps(3,4) simp del: receive_all.simps repeated.simps)


subsection \<open>Payloads that are never finished\<close>

text \<open>
  An accumulator is only removed by the last packet of its payload: the packets of a payload that is
  given up stay for good. Even a lone packet that is skipped leaves an accumulator behind.
\<close>

lemma transfer_run_kept:
  assumes "\<forall>b \<in> set bs. \<not> isLastPacket b" "bs \<noteq> [] \<or> t \<noteq> None"
  shows "fst (transfer_run h bs t) \<noteq> None"
  using assms
proof (induction bs arbitrary: t)
  case (Cons b bs)
  have "fst (transfer_step b t) \<noteq> None"
    using Cons.prems(1) by (auto simp: transfer_step_def Let_def)
  with Cons show ?case by (simp add: transfer_run_Cons del: transfer_run.simps)
qed simp

lemma abandoned_transfers_kept:
  assumes "m_bytesReceivedCallback s = Some h" "\<forall>b \<in> set bs. wf_bytes b \<and> \<not> isLastPacket b"
  shows "\<exists>s' tr. receive_all m bs s = Inr (s', tr) \<and>
    dom (m_bytesAccumulatorMap s') = dom (m_bytesAccumulatorMap s) \<union> getPacketId ` set bs"
proof -
  have wf: "\<forall>b \<in> set bs. wf_bytes b" using assms(2) by blast
  from receive_all_refines [OF assms(1) wf, of m] obtain s' tr
    where run: "receive_all m bs s = Inr (s', tr)"
      and acc: "\<And>k. m_bytesAccumulatorMap s' k =
        fst (transfer_run h (packets_of k bs) (m_bytesAccumulatorMap s k))"
    by blast
  have "k \<in> dom (m_bytesAccumulatorMap s') \<longleftrightarrow>
      k \<in> dom (m_bytesAccumulatorMap s) \<union> getPacketId ` set bs" for k
  proof (cases "packets_of k bs = [] \<and> m_bytesAccumulatorMap s k = None")
    case True
    then have "k \<notin> getPacketId ` set bs" by (auto simp: packets_of_def filter_empty_conv)
    then show ?thesis using True acc [of k] by (auto simp: domIff)
  next
    case False
    have "\<forall>b \<in> set (packets_of k bs). \<not> isLastPacket b" using assms(2) by (auto simp: packets_of_def)
    with False have "fst (transfer_run h (packets_of k bs) (m_bytesAccumulatorMap s k)) \<noteq> None"
      by (intro transfer_run_kept) auto
    moreover have "k \<in> dom (m_bytesAccumulatorMap s) \<union> getPacketId ` set bs"
      using False by (auto simp: packets_of_def filter_empty_conv)
    ultimately show ?thesis using acc [of k] by (auto simp: domIff)
  qed
  then show ?thesis using run by blast
qed

end
