(* ===== verification/RemoteCall.thy ===== *)
theory RemoteCall
  imports Prelude Pheromones Handles MessageUtils MessageHandler HiveMindBridgeImpl OutboundQueue Spin
begin

section \<open>A remote call between two bridges\<close>

text \<open>
  The life of a request on the side that makes it: it is queued, sent, waits on the outbound queue for
  its response, and leaves together with the response. Two bridges are composed: the one calls an
  action of the other, and gets the result back as a call of one of its own actions. The network in
  between is taken to deliver each message.
\<close>

text \<open>What the inbound thread does with a message it has read.\<close>

definition receives :: "MessageDTO \<Rightarrow> HiveMindBridgeImpl \<Rightarrow> HiveMindBridgeImpl" where
  "receives m b = b\<lparr>m_inboundQueue := push m (m_inboundQueue b)\<rparr>"

lemma receives_simps [simp]:
  "inbound (receives m b) = inbound b @ [m]"
  "m_messageHandler (receives m b) = m_messageHandler b"
  "m_tcpServer (receives m b) = m_tcpServer b"
  "m_inboundRequestsQueue (receives m b) = m_inboundRequestsQueue b"
  "m_inboundResponsesMap (receives m b) = m_inboundResponsesMap b"
  "outbound (receives m b) = outbound b"
  "isTCPClientConnected (receives m b) = isTCPClientConnected b"
  "bridge_wf (receives m b) = bridge_wf b"
  "rand_calls (receives m b) = rand_calls b"
  by (simp_all add: receives_def isTCPClientConnected_def bridge_wf_def)


subsection \<open>The side that calls\<close>

definition ack_handle :: "pheromones \<Rightarrow> u32 \<Rightarrow> InboundResponseHandle" where
  "ack_handle ph rid =
     (let g = getFunctionCallResponse (mk_FunctionCallResponseDTO ph Ok [])
      in \<lparr>m_responseId = rid, m_responseStatus = getStatus g, m_statusDetails = getDetails g\<rparr>)"

lemma ack_handled:
  "MessageHandler_handleMessage ph (call_ack ph src dst rid smod) s =
     Inr (HandledResponse (ack_handle ph rid), s, [])"
  by (simp add: MessageHandler_handleMessage_def call_ack_def response_handle_def ack_handle_def
      bridge_defs Let_def)

text \<open>The request waits, sent, for at most ten turns of the outbound thread.\<close>

lemma queued_request_sent:
  assumes "isTCPClientConnected a" "outbound a = []" "getMessage msg = Request r"
    and "m_inboundResponsesMap a (getRequestId r) = None" "k < 10"
  shows "\<exists>a1. queueAndSend msg a = (True, a1) \<and>
    outbound_turns (Suc k) a1 =
      Inr (outbound_state a1 [\<lparr>m_state = SENT, m_message = msg, m_delaySinceSent = int k\<rparr>]
             (m_inboundResponsesMap a), [SerializeToStream msg])"
proof -
  let ?h = "\<lparr>m_state = SENT, m_message = msg, m_delaySinceSent = 0\<rparr>"
  have "outq.turns k ([?h], m_inboundResponsesMap a) =
      ((if int k + 0 < 10 then [?h\<lparr>m_delaySinceSent := int k + 0\<rparr>] else [], m_inboundResponsesMap a), [])"
    using assms(3,4) by (intro lone_request_turns) simp_all
  then show ?thesis
    using assms visit_sending [of "mk_OutboundRequestHandle msg" r "m_inboundResponsesMap a"]
    by (simp add: outbound_turns_eq queueAndSend_def bridge_defs)
qed

text \<open>The response arrives and is remembered.\<close>

lemma spin_response:
  assumes "isTCPClientConnected b" "inbound b = [msg]" "m_inboundRequestsQueue b = []"
    and "MessageHandler_handleMessage ph msg (m_messageHandler b) = Inr (HandledResponse h, m_messageHandler b, [])"
  shows "spin ph rnd env b =
    Inr (spin_keepAlive (b\<lparr>m_inboundQueue := (m_inboundQueue b)\<lparr>m_queue := []\<rparr>,
      m_inboundResponsesMap := (m_inboundResponsesMap b)(m_responseId h \<mapsto> h)\<rparr>), [])"
proof -
  have "spin_connected ph rnd b = Inr (b\<lparr>m_inboundQueue := (m_inboundQueue b)\<lparr>m_queue := []\<rparr>,
      m_inboundResponsesMap := (m_inboundResponsesMap b)(m_responseId h \<mapsto> h)\<rparr>, [])"
    using assms(2-4) by (cases b) (simp add: spin_connected_def spin_receive_Cons Let_def)
  then show ?thesis by (simp add: spin_served [OF assms(1)])
qed

text \<open>The next turn of the thread finds the response: request and response are gone.\<close>

lemma answered_request_done:
  assumes "outbound b = h # q" "getMessage (m_message h) = Request r"
    and "m_inboundResponsesMap b (getRequestId r) = Some x"
  shows "outbound_turn b = Inr (outbound_state b q ((m_inboundResponsesMap b)(getRequestId r := None)),
    [Log Debug ''RECEIVED VALID RESPONSE'' []])"
  using assms by (simp add: outbound_turn_eq outbound_visit_def)

lemma request_completed:
  assumes "isTCPClientConnected a" "inbound a = []" "m_inboundRequestsQueue a = []" "bridge_wf a"
    and "outbound a = [h]" "getMessage (m_message h) = Request r" "getRequestId r = rid"
    and "m_inboundResponsesMap a rid = None"
  shows "\<exists>a1 a2 es. spin ph rnd env (receives (call_ack ph src dst rid smod) a) = Inr (a1, []) \<and>
    m_inboundResponsesMap a1 rid = Some (ack_handle ph rid) \<and>
    outbound_turn a1 = Inr (a2, es) \<and> serialized es = [] \<and>
    (\<forall>h \<in> set (outbound a2). \<not> is_request h) \<and> m_inboundResponsesMap a2 = m_inboundResponsesMap a \<and>
    isTCPClientConnected a2 \<and> bridge_wf a2 \<and> inbound a2 = [] \<and> m_inboundRequestsQueue a2 = [] \<and>
    m_messageHandler a2 = m_messageHandler a"
proof -
  let ?r = "receives (call_ack ph src dst rid smod) a"
  let ?a1 = "spin_keepAlive (?r\<lparr>m_inboundQueue := (m_inboundQueue ?r)\<lparr>m_queue := []\<rparr>,
      m_inboundResponsesMap := (m_inboundResponsesMap ?r)(rid \<mapsto> ack_handle ph rid)\<rparr>)"
  have s: "spin ph rnd env ?r = Inr (?a1, [])"
    using spin_response [of ?r "call_ack ph src dst rid smod" ph "ack_handle ph rid" rnd env] assms(1-3)
    by (simp add: ack_handled) (simp add: ack_handle_def Let_def)
  obtain q where q: "outbound ?a1 = h # q" "\<forall>h \<in> set q. \<not> is_request h"
    using assms(5) by (auto simp: spin_keepAlive_eq is_request_def mk_OutboundRequestHandle_def createGreetMessage_def)
  have resp: "m_inboundResponsesMap ?a1 (getRequestId r) = Some (ack_handle ph rid)"
    by (simp add: assms(7))
  have "(m_inboundResponsesMap ?a1)(getRequestId r := None) = m_inboundResponsesMap a"
    using assms(7,8) by (auto simp: fun_eq_iff)
  with answered_request_done [OF q(1) assms(6) resp] s resp assms(1,3,4,7) q(2) show ?thesis
    by (auto simp: isTCPClientConnected_def bridge_wf_def)
qed


subsection \<open>The whole call\<close>

text \<open>The call by which a result \<open>r\<close> comes back.\<close>

definition return_call :: "pheromones \<Rightarrow> CallbackReturn \<Rightarrow> FunctionCallRequestDTO" where
  "return_call ph r = mk_FunctionCallRequestDTO ph (c_str (getReturnFunctionName r)) (getReturnArgs r)
     (length (getReturnArgs r))"

lemma return_is_call:
  "createFunctionCallRequest ph src dst rid smod (getReturnFunctionName r) (getReturnArgs r) =
     call_message src dst rid HOST smod (return_call ph r)"
  by (simp add: createFunctionCallRequest_def call_message_def return_call_def Let_def)

text \<open>The caller's side, from the call that queues the request to the turn that removes it.\<close>

lemma caller_side:
  assumes "isTCPClientConnected a" "bridge_wf a" "outbound a = []" "inbound a = []"
    "m_inboundRequestsQueue a = []" "m_inboundResponsesMap a rid = None" "k < 10"
  shows "\<exists>a1 a2 a3 a4 es4.
    queueAndSend (call_message src dst rid smod HOST fc) a = (True, a1) \<and>
    outbound_turns (Suc k) a1 = Inr (a2, [SerializeToStream (call_message src dst rid smod HOST fc)]) \<and>
    spin ph rnd env (receives (call_ack ph src dst rid smod) a2) = Inr (a3, []) \<and>
    outbound_turn a3 = Inr (a4, es4) \<and> serialized es4 = [] \<and>
    (\<forall>h \<in> set (outbound a4). \<not> is_request h) \<and> m_inboundResponsesMap a4 rid = None \<and>
    isTCPClientConnected a4 \<and> bridge_wf a4 \<and> inbound a4 = [] \<and> m_inboundRequestsQueue a4 = [] \<and>
    m_messageHandler a4 = m_messageHandler a"
proof -
  let ?call = "call_message src dst rid smod HOST fc"
  let ?h = "\<lparr>m_state = SENT, m_message = ?call, m_delaySinceSent = int k\<rparr>"
  obtain req where req: "getMessage ?call = Request req" "getRequestId req = rid"
    by (simp add: call_message_def)
  from queued_request_sent [OF assms(1,3) req(1) _ assms(7)] assms(6) req(2) obtain a1
    where a1: "queueAndSend ?call a = (True, a1)"
      "outbound_turns (Suc k) a1 = Inr (outbound_state a1 [?h] (m_inboundResponsesMap a), [SerializeToStream ?call])"
    by auto
  let ?a2 = "outbound_state a1 [?h] (m_inboundResponsesMap a)"
  have "a1 = snd (queueAndSend ?call a)" using a1(1) by simp
  then have a2: "isTCPClientConnected ?a2" "inbound ?a2 = []" "m_inboundRequestsQueue ?a2 = []" "bridge_wf ?a2"
    "outbound ?a2 = [?h]" "m_inboundResponsesMap ?a2 rid = None" "m_messageHandler ?a2 = m_messageHandler a"
    using assms by (simp_all add: isTCPClientConnected_def bridge_wf_def)
  have "getMessage (m_message ?h) = Request req" using req(1) by simp
  from request_completed [OF a2(1-5) this req(2) a2(6), of ph rnd env src dst smod] a2(6,7) a1
  show ?thesis by metis
qed

text \<open>
  C10. A remote call between two bridges. The caller queues a call of an action of the host; its
  outbound thread sends it, and the request waits, sent, through up to nine more turns of the thread.
  The host acknowledges the call in the spin that receives it. When the acknowledgement has come, one
  spin and one turn of the caller's thread remove the request and the response. When the action has
  returned, the host's next spin sends the result, and the caller, on receiving it, acknowledges it
  and starts its own action of that name with the array of the arriving request: as many entries as
  the library's limit, of which the first are the returned arguments and the rest whatever the library
  puts there, since \<open>getArgumentsLength\<close> is not consulted. Nothing of the call is left on the host, and
  on the caller only the running action.
\<close>

theorem remote_call_completes:
  assumes caller: "isTCPClientConnected a" "bridge_wf a" "outbound a = []" "inbound a = []"
      "m_inboundRequestsQueue a = []" "m_inboundResponsesMap a rid = None"
    and host: "isTCPClientConnected b" "bridge_wf b" "inbound b = []" "m_inboundRequestsQueue b = []"
    and action: "getCallback (getFunctionName fc) (callback_map b) = Some f"
      "call_function f (getArguments fc) = Returns (Some r)"
      "length (getReturnArgs r) \<le> FUNCTION_CALL_ARGUMENTS_MAX_LENGTH ph"
    and return: "getCallback (getFunctionName (return_call ph r)) (callback_map a) = Some g"
    and laws: "call_laws ph" and turns: "k < 10"
  shows "\<exists>a1 a2 b1 es1 a3 a4 es4 b2 es2 a5.
    queueAndSend (call_message src dst rid smod HOST fc) a = (True, a1) \<and>
    outbound_turns (Suc k) a1 = Inr (a2, [SerializeToStream (call_message src dst rid smod HOST fc)]) \<and>
    spin ph rnd env (receives (call_message src dst rid smod HOST fc) b) = Inr (b1, es1) \<and>
    serialized es1 = [call_ack ph src dst rid smod] \<and>
    spin ph rnd' env' (receives (call_ack ph src dst rid smod) a2) = Inr (a3, []) \<and>
    outbound_turn a3 = Inr (a4, es4) \<and> serialized es4 = [] \<and>
    (\<forall>h \<in> set (outbound a4). \<not> is_request h) \<and> m_inboundResponsesMap a4 rid = None \<and>
    spin ph rnd env'' (fst (finish_call (length (m_calls (user_calls b))) b1)) = Inr (b2, es2) \<and>
    m_inboundRequestsQueue b2 = [] \<and>
    (\<exists>rid' args. serialized es2 = [call_message dst src rid' HOST smod (return_call ph r)] \<and>
      spin ph rnd' env' (receives (call_message dst src rid' HOST smod (return_call ph r)) a4) =
        Inr (a5, [SerializeToStream (call_ack ph dst src rid' HOST)]) \<and>
      m_calls (user_calls a5) =
        m_calls (user_calls a) @ [Running (getFunctionName (return_call ph r)) args] \<and>
      take (length (getReturnArgs r)) args = getReturnArgs r \<and>
      length args = FUNCTION_CALL_ARGUMENTS_MAX_LENGTH ph)"
proof -
  let ?call = "call_message src dst rid smod HOST fc"
  obtain a1 a2 a3 a4 es4 where a: "queueAndSend ?call a = (True, a1)"
    "outbound_turns (Suc k) a1 = Inr (a2, [SerializeToStream ?call])"
    "spin ph rnd' env' (receives (call_ack ph src dst rid smod) a2) = Inr (a3, [])"
    "outbound_turn a3 = Inr (a4, es4)" "serialized es4 = []"
    "\<forall>h \<in> set (outbound a4). \<not> is_request h" "m_inboundResponsesMap a4 rid = None"
    and a4: "isTCPClientConnected a4" "bridge_wf a4" "inbound a4 = []" "m_inboundRequestsQueue a4 = []"
    "m_messageHandler a4 = m_messageHandler a"
    using caller_side [OF caller turns] by blast
  let ?b = "receives ?call b"
  have b: "isTCPClientConnected ?b" "bridge_wf ?b" "m_inboundRequestsQueue ?b = []" "inbound ?b = [?call]"
    and fcb: "getCallback (getFunctionName fc) (callback_map ?b) = Some f"
    using host action(1) by simp_all
  obtain b1 es1 b2 es2 where b1: "spin ph rnd env ?b = Inr (b1, es1)" "serialized es1 = [call_ack ph src dst rid smod]"
    "spin ph rnd env'' (fst (finish_call (length (m_calls (user_calls b))) b1)) = Inr (b2, es2)"
    "m_inboundRequestsQueue b2 = []"
    and ret: "serialized es2 = [createFunctionCallRequest ph dst src (generateRandomId (rnd (rand_calls ?b))) smod
       (getReturnFunctionName r) (getReturnArgs r)]"
    using call_answered_and_returned [OF b(1-4) fcb action(2,3), of rnd env env''] by auto
  let ?rid = "generateRandomId (rnd (rand_calls ?b))"
  let ?home = "call_message dst src ?rid HOST smod (return_call ph r)"
  have home: "serialized es2 = [?home]" using ret by (simp add: return_is_call)
  let ?a4 = "receives ?home a4"
  have "isTCPClientConnected ?a4" "bridge_wf ?a4" "m_inboundRequestsQueue ?a4 = []" "inbound ?a4 = [?home]"
    "getCallback (getFunctionName (return_call ph r)) (callback_map ?a4) = Some g"
    using a4 return by simp_all
  from spin_call_message [OF this, of ph rnd' env'] a4(5)
  obtain a5 where a5: "spin ph rnd' env' ?a4 = Inr (a5, [SerializeToStream (call_ack ph dst src ?rid HOST)])"
    "m_calls (user_calls a5) = m_calls (user_calls a) @
      [Running (getFunctionName (return_call ph r)) (getArguments (return_call ph r))]"
    by auto
  have "length (getArguments (return_call ph r)) = FUNCTION_CALL_ARGUMENTS_MAX_LENGTH ph"
    "take (length (getReturnArgs r)) (getArguments (return_call ph r)) = getReturnArgs r"
    using call_laws_mk [OF laws action(3) order_refl] by (simp_all add: return_call_def)
  then show ?thesis
    using a b1 home a5 by blast
qed


subsection \<open>A concrete call\<close>

text \<open>A bridge with an action \<open>back\<close>, the one \<open>sample_echo\<close> returns to.\<close>

definition sample_caller :: HiveMindBridgeImpl where
  "sample_caller = snd (registerCustomAction ''back'' (Some (\<lambda>args. Returns None)) [] sample_bridge)"

lemma sample_caller_simps [simp]:
  "isTCPClientConnected sample_caller" "bridge_wf sample_caller" "outbound sample_caller = []"
  "inbound sample_caller = []" "m_inboundRequestsQueue sample_caller = []"
  "m_inboundResponsesMap sample_caller = Map.empty" "m_calls (user_calls sample_caller) = []"
  "getCallback ''back'' (callback_map sample_caller) = Some (Some (\<lambda>args. Returns None))"
  using sample_bridge_simps(1)
  by (auto simp: sample_caller_def registerCustomAction_def Let_def case_prod_unfold set_callback_map_def
      sample_message_handler_def getCallback_eq isTCPClientConnected_def bridge_wf_def user_calls_inv_def)

text \<open>A host with an action that returns the first of its arguments, and a call of it.\<close>

definition sample_host :: HiveMindBridgeImpl where
  "sample_host = snd (registerCustomAction ''first''
     (Some (\<lambda>args. Returns (Some \<lparr>m_args = take 1 args, m_returnFunctionName = ''back''\<rparr>))) [] sample_bridge)"

definition sample_first_call :: FunctionCallRequestDTO where
  "sample_first_call = \<lparr>getFunctionName = ''first'', getArguments = [3, 5], getArgumentsLength = 2\<rparr>"

lemma sample_host_simps [simp]:
  "isTCPClientConnected sample_host" "bridge_wf sample_host"
  "inbound sample_host = []" "m_inboundRequestsQueue sample_host = []"
  "m_calls (user_calls sample_host) = []"
  "getCallback ''first'' (callback_map sample_host) =
     Some (Some (\<lambda>args. Returns (Some \<lparr>m_args = take 1 args, m_returnFunctionName = ''back''\<rparr>)))"
  using sample_bridge_simps(1)
  by (auto simp: sample_host_def registerCustomAction_def Let_def case_prod_unfold set_callback_map_def
      sample_message_handler_def getCallback_eq isTCPClientConnected_def bridge_wf_def user_calls_inv_def)

theorem remote_call_completes_witness:
  "\<exists>a1 a2 a3 a4 es4 a5 es5 m args.
    queueAndSend (call_message 1 2 9 BUZZ HOST sample_first_call) sample_caller = (True, a1) \<and>
    outbound_turns 4 a1 = Inr (a2, [SerializeToStream (call_message 1 2 9 BUZZ HOST sample_first_call)]) \<and>
    spin sample_pheromones (\<lambda>n. 0) sample_env (receives (call_ack sample_pheromones 1 2 9 BUZZ) a2) = Inr (a3, []) \<and>
    outbound_turn a3 = Inr (a4, es4) \<and> m_inboundResponsesMap a4 9 = None \<and>
    spin sample_pheromones (\<lambda>n. 0) sample_env (receives m a4) = Inr (a5, es5) \<and>
    m_calls (user_calls a5) = [Running ''back'' args] \<and> take 1 args = [3] \<and> length args = 2"
proof -
  let ?r = "\<lparr>m_args = [3], m_returnFunctionName = ''back''\<rparr> :: CallbackReturn"
  let ?f = "Some (\<lambda>args. Returns (Some \<lparr>m_args = take 1 args, m_returnFunctionName = ''back''\<rparr>)) :: CallbackFunction"
  have a: "m_inboundResponsesMap sample_caller 9 = None" by simp
  have action: "getCallback (getFunctionName sample_first_call) (callback_map sample_host) = Some ?f"
    "call_function ?f (getArguments sample_first_call) = Returns (Some ?r)"
    "length (getReturnArgs ?r) \<le> FUNCTION_CALL_ARGUMENTS_MAX_LENGTH sample_pheromones"
    by (simp_all add: sample_first_call_def call_function_def bridge_defs sample_pheromones_def)
  have name: "getFunctionName (return_call sample_pheromones ?r) = ''back''"
    by (simp add: return_call_def sample_pheromones_def bridge_defs c_str_def)
  then have ret: "getCallback (getFunctionName (return_call sample_pheromones ?r)) (callback_map sample_caller) =
      Some (Some (\<lambda>args. Returns None))" by simp
  have args: "length (getReturnArgs ?r) = 1" "getReturnArgs ?r = [3]"
    "FUNCTION_CALL_ARGUMENTS_MAX_LENGTH sample_pheromones = 2" "m_calls (user_calls sample_caller) = []"
    by (simp_all add: bridge_defs sample_pheromones_def)
  from remote_call_completes [OF sample_caller_simps(1-5) a sample_host_simps(1-4) action ret sample_call_laws,
      of 3 1 2 BUZZ "\<lambda>n. 0" sample_env "\<lambda>n. 0" sample_env sample_env]
  show ?thesis unfolding name args append_Nil by (simp add: eval_nat_numeral) blast
qed

end
