(* ===== verification/Neighbors.thy ===== *)
theory Neighbors
  imports Prelude Pheromones Handles HostApiResponseHandler MessageHandler HiveMindBridgeImpl OutboundQueue
    Spin HiveMindBridge RemoteCall
begin

section \<open>Neighbor requests from call to callback\<close>

text \<open>
  The user asks for a neighbor's position or for the list of neighbors, the HiveMind answers, and the
  user's callback gets the answer. The dispatcher leaves no response handle for such an answer, so
  the request itself is not recognised as answered and waits on the outbound queue until it is
  given up.
\<close>

definition neighbor_request :: "u32 \<Rightarrow> u32 \<Rightarrow> host_api_request \<Rightarrow> MessageDTO" where
  "neighbor_request agent rid q =
     \<lparr>getSourceId = agent, getDestinationId = agent,
      getMessage = Request \<lparr>getRequestId = rid, getRequest = HostApiRequest q\<rparr>\<rparr>"

definition neighbor_response :: "u32 \<Rightarrow> u32 \<Rightarrow> host_api_response \<Rightarrow> MessageDTO" where
  "neighbor_response agent rid r =
     \<lparr>getSourceId = agent, getDestinationId = agent,
      getMessage = Response \<lparr>getResponseRequestId = rid, getResponse = HostApiResponse r\<rparr>\<rparr>"

text \<open>The calls of the two requests, and what the callbacks of a configuration get for an answer.\<close>

fun neighbor_call :: "host_api_request \<Rightarrow> api_call option" where
  "neighbor_call (GetNeighborRequest i) = Some (SendNeighborUpdateRequestCall i)"
| "neighbor_call GetNeighborsListRequest = Some SendNeighborListUpdateRequestCall"
| "neighbor_call _ = None"

fun neighbor_events :: "configuration \<Rightarrow> host_api_response \<Rightarrow> event list" where
  "neighbor_events c (NeighborResponse n) =
     (case on_neighbor c of
        Some h \<Rightarrow> [NeighborUpdated h (getNeighborId n)
          (map_option (\<lambda>p. \<lparr>distance = getDistance p, azimuth = getAzimuth p, inLOS = inLOSDTO p\<rparr>)
             (getNeighborPosition n))]
      | None \<Rightarrow> [Log Warn ''No callback was defined to handle incoming GetNeighborResponse.'' []])"
| "neighbor_events c (NeighborsListResponse l) =
     (case on_neighbor_list c of
        Some h \<Rightarrow> [NeighborListUpdated h (getNeighbors l) (getNeighborsLength l)]
      | None \<Rightarrow> [Log Warn ''No callback was defined to handle incoming GetNeighborsListResponse.'' []])"
| "neighbor_events c OtherHostApiResponse = [Log Warn ''Unsupported HiveMindHostApi response.'' []]"

lemma handle_neighbor_response:
  assumes "m_hmResponseHandler (m_messageHandler b) = m_hmResponseHandler (m_messageHandler b0)"
  shows "MessageHandler_handleMessage ph (neighbor_response agent rid r) (m_messageHandler b) =
    Inr (NoHandle, m_messageHandler b, neighbor_events (configuration_of b0) r)"
  using assms
  by (cases r) (auto simp: MessageHandler_handleMessage_def neighbor_response_def
      HostApiResponseHandler_handleMessage_def handleNeighborList_def handleNeighbor_def
      configuration_of_def Let_def split: option.split)

text \<open>A message without a handle: its events are those of the dispatcher, and nothing is kept.\<close>

lemma spin_no_handle:
  assumes "isTCPClientConnected b" "inbound b = [msg]" "m_inboundRequestsQueue b = []"
    and "MessageHandler_handleMessage ph msg (m_messageHandler b) = Inr (NoHandle, m_messageHandler b, es)"
  shows "spin ph rnd env b =
    Inr (spin_keepAlive (b\<lparr>m_inboundQueue := (m_inboundQueue b)\<lparr>m_queue := []\<rparr>\<rparr>), es)"
proof -
  have "spin_connected ph rnd b = Inr (b\<lparr>m_inboundQueue := (m_inboundQueue b)\<lparr>m_queue := []\<rparr>\<rparr>, es)"
    using assms(2-4) by (cases b) (simp add: spin_connected_def spin_receive_Cons Let_def)
  then show ?thesis by (simp add: spin_served [OF assms(1)])
qed

lemma neighbor_call_queued:
  assumes "neighbor_call q = Some c" "isTCPClientConnected b"
  shows "\<exists>b1. api_step ph rnd c b = (Some True, b1, []) \<and>
    queueAndSend (neighbor_request (m_swarmAgentID b) (generateRandomId (rnd (rand_calls b))) q)
      (b\<lparr>rand_calls := Suc (rand_calls b)\<rparr>) = (True, b1)"
  using assms
  by (cases q) (auto simp: sendNeighborUpdateRequest_def sendNeighborListUpdateRequest_def nextRandomId_def
      neighbor_request_def queueAndSend_def isTCPClientConnected_def getSwarmAgentId_def Let_def)

text \<open>
  C30. A neighbor request and its answer: with a client the call queues one request from this agent to
  itself, the outbound thread sends it, and when the answer has come one spin gives it, with the
  neighbors or the position unchanged, to the callback the user registered last, and to no other.
  The answer leaves no response behind, so the request is not completed by it: it stays on the
  outbound queue, sent, until the thread gives it up as unanswered.
\<close>

theorem neighbor_request_round:
  assumes "neighbor_call q = Some c" "isTCPClientConnected b" "outbound b = []" "inbound b = []"
    and "m_inboundRequestsQueue b = []" "rid = generateRandomId (rnd (rand_calls b))"
    and "m_inboundResponsesMap b rid = None" "k < 10"
  shows "\<exists>b1 b2 b3. api_step ph rnd c b = (Some True, b1, []) \<and>
    outbound_turns (Suc k) b1 = Inr (b2, [SerializeToStream (neighbor_request (m_swarmAgentID b) rid q)]) \<and>
    spin ph rnd env (receives (neighbor_response (m_swarmAgentID b) rid r) b2) =
      Inr (b3, neighbor_events (configuration_of b) r) \<and>
    m_inboundResponsesMap b3 = m_inboundResponsesMap b \<and>
    hd (outbound b3) = \<lparr>m_state = SENT, m_message = neighbor_request (m_swarmAgentID b) rid q,
      m_delaySinceSent = int k\<rparr>"
proof -
  let ?msg = "neighbor_request (m_swarmAgentID b) rid q"
  let ?b = "b\<lparr>rand_calls := Suc (rand_calls b)\<rparr>"
  obtain b1 where b1: "api_step ph rnd c b = (Some True, b1, [])" "queueAndSend ?msg ?b = (True, b1)"
    using neighbor_call_queued [OF assms(1,2), of ph rnd] assms(6) by auto
  obtain req where req: "getMessage ?msg = Request req" "getRequestId req = rid"
    by (simp add: neighbor_request_def)
  have "isTCPClientConnected ?b" "outbound ?b = []" "m_inboundResponsesMap ?b (getRequestId req) = None"
    using assms(2,3,7) req(2) by (simp_all add: isTCPClientConnected_def)
  from queued_request_sent [OF this(1,2) req(1) this(3) assms(8)] b1(2)
  have turns: "outbound_turns (Suc k) b1 =
      Inr (outbound_state b1 [\<lparr>m_state = SENT, m_message = ?msg, m_delaySinceSent = int k\<rparr>]
        (m_inboundResponsesMap b), [SerializeToStream ?msg])"
    by auto
  let ?b2 = "outbound_state b1 [\<lparr>m_state = SENT, m_message = ?msg, m_delaySinceSent = int k\<rparr>]
        (m_inboundResponsesMap b)"
  have "b1 = snd (queueAndSend ?msg ?b)" using b1(2) by simp
  then have b2: "isTCPClientConnected ?b2" "inbound ?b2 = []" "m_inboundRequestsQueue ?b2 = []"
    "m_messageHandler ?b2 = m_messageHandler b"
    using assms(2,4,5) by (simp_all add: isTCPClientConnected_def)
  let ?r = "receives (neighbor_response (m_swarmAgentID b) rid r) ?b2"
  have "MessageHandler_handleMessage ph (neighbor_response (m_swarmAgentID b) rid r) (m_messageHandler ?r) =
      Inr (NoHandle, m_messageHandler ?r, neighbor_events (configuration_of b) r)"
    using b2(4) by (intro handle_neighbor_response) simp
  from spin_no_handle [OF _ _ _ this, of rnd env] b2
  have "spin ph rnd env ?r = Inr (spin_keepAlive (?r\<lparr>m_inboundQueue := (m_inboundQueue ?r)\<lparr>m_queue := []\<rparr>\<rparr>),
      neighbor_events (configuration_of b) r)"
    by simp
  with b1(1) turns show ?thesis by (fastforce simp: spin_keepAlive_eq)
qed

theorem neighbor_request_round_witness:
  "\<exists>b1 b2 b3. api_step sample_pheromones (\<lambda>n. 9) (SendNeighborUpdateRequestCall 3) sample_bridge = (Some True, b1, []) \<and>
    outbound_turns 1 b1 =
      Inr (b2, [SerializeToStream (neighbor_request (m_swarmAgentID sample_bridge) 9 (GetNeighborRequest 3))]) \<and>
    spin sample_pheromones (\<lambda>n. 9) sample_env (receives (neighbor_response (m_swarmAgentID sample_bridge) 9
        (NeighborResponse \<lparr>getNeighborId = 3, getNeighborPosition = None\<rparr>)) b2) =
      Inr (b3, [Log Warn ''No callback was defined to handle incoming GetNeighborResponse.'' []])"
proof -
  have "neighbor_call (GetNeighborRequest 3) = Some (SendNeighborUpdateRequestCall 3)"
    "(9 :: u32) = generateRandomId 9" "m_inboundResponsesMap sample_bridge 9 = None"
    by (simp_all add: generateRandomId_def)
  moreover have "on_neighbor (configuration_of sample_bridge) = None"
    by (simp add: configuration_of_def sample_message_handler_def new_response_handler_def)
  ultimately show ?thesis
    using neighbor_request_round [OF _ sample_bridge_simps(1,2,3,4), of "GetNeighborRequest 3"
        "SendNeighborUpdateRequestCall 3" 9 "\<lambda>n. 9" 0 sample_pheromones sample_env
        "NeighborResponse \<lparr>getNeighborId = 3, getNeighborPosition = None\<rparr>"]
    by fastforce
qed

end
