(* ===== verification/Sessions.thy ===== *)
theory Sessions
  imports Prelude Pheromones Handles MessageHandler TCPServer HiveMindBridgeImpl OutboundQueue Spin
begin

section \<open>From one client to the next\<close>

text \<open>
  The queues belong to the bridge and not to a connection. What a lost client leaves on them is dealt
  with when the next client has been greeted: its messages are answered to the new client, and what
  was queued for it is sent to the new client.
\<close>

text \<open>A read that finds the connection closed.\<close>

definition lost_read :: "u16 \<Rightarrow> MessageDTO \<Rightarrow> stream_read" where
  "lost_read n m = \<lparr>recv_results = [(0, n)], read_ok = False, read_message = m\<rparr>"

lemma inbound_turn_lost:
  assumes "isTCPClientConnected b" "m_clientFd (m_tcpServer b) = Some fd"
  shows "\<exists>s es. inboundThread_step (lost_read n m) b = Inr (b\<lparr>m_tcpServer := s\<rparr>, es) \<and>
    \<not> m_isClientConnected s"
proof -
  have "m_clientFd (m_tcpServer b) \<noteq> None" using assms(2) by simp
  from deserialize_run [OF this, of "lost_read n m"] show ?thesis
    using assms(1)
    by (auto simp: inboundThread_step_def inbound_turn_def lost_read_def stays_connected_def)
qed

lemma reconnect_keeps_queues:
  assumes "\<not> isTCPClientConnected b" "0 \<le> accept_result env" "stays_connected (greet_read env)"
    and "getMessage (read_message (greet_read env)) = Greeting agent" "bridge_wf b"
  shows "\<exists>b' es q. spin ph rnd env b = Inr (b', es) \<and> serialized es = [createGreetMessage] \<and>
    isTCPClientConnected b' \<and> bridge_wf b' \<and> getSwarmAgentId b' = agent \<and>
    inbound b' = inbound b \<and> outbound b' = outbound b @ q \<and>
    m_inboundRequestsQueue b' = m_inboundRequestsQueue b \<and>
    m_inboundResponsesMap b' = m_inboundResponsesMap b \<and> m_messageHandler b' = m_messageHandler b"
proof -
  have "handleGreet (read_message (greet_read env)) = Some agent"
    using assms(4) by (simp add: handleGreet_iff)
  with spin_wait [OF assms(1), of ph rnd env] assms(2,3) obtain s es where
    "spin ph rnd env b = Inr (spin_keepAlive (b\<lparr>m_tcpServer := s, m_inboundThread := RunningThread,
      m_outboundThread := RunningThread, m_swarmAgentID := agent\<rparr>), es)"
    "m_isClientConnected s" "serialized es = [createGreetMessage]"
    by auto
  then show ?thesis
    using assms(5)
    by (simp add: isTCPClientConnected_def tcp_isClientConnected_def getSwarmAgentId_def spin_keepAlive_eq
        bridge_wf_def)
qed

text \<open>
  C21. What a lost client leaves behind reaches the next one: a call that came in before the connection
  was lost is acknowledged, in the spin after the new client's greeting, on the new connection; and
  a request that was queued for the lost client and not sent is sent to the new one.
\<close>

theorem leftovers_reach_next_client:
  assumes "isTCPClientConnected b" "m_clientFd (m_tcpServer b) = Some fd" "bridge_wf b"
    and "inbound b = [call_message src dst rid smod dmod fc]" "m_inboundRequestsQueue b = []"
    and "getCallback (getFunctionName fc) (callback_map b) = Some f"
    and "outbound b = mk_OutboundRequestHandle msg # q" "getMessage msg = Request r"
    and "m_inboundResponsesMap b (getRequestId r) = None"
    and "0 \<le> accept_result env" "stays_connected (greet_read env)"
    and "getMessage (read_message (greet_read env)) = Greeting agent"
  shows "\<exists>b1 es1 b2 es2 b3 b4. inboundThread_step (lost_read n m) b = Inr (b1, es1) \<and>
    \<not> isTCPClientConnected b1 \<and>
    spin ph rnd env b1 = Inr (b2, es2) \<and> serialized es2 = [createGreetMessage] \<and>
    getSwarmAgentId b2 = agent \<and>
    spin ph rnd env' b2 = Inr (b3, [SerializeToStream (call_ack ph src dst rid smod)]) \<and>
    outbound_turn b3 = Inr (b4, [SerializeToStream msg])"
proof -
  obtain s es1 where lost: "inboundThread_step (lost_read n m) b = Inr (b\<lparr>m_tcpServer := s\<rparr>, es1)"
    "\<not> m_isClientConnected s"
    using inbound_turn_lost [OF assms(1,2)] by blast
  let ?b1 = "b\<lparr>m_tcpServer := s\<rparr>"
  have b1: "\<not> isTCPClientConnected ?b1" "bridge_wf ?b1"
    using lost(2) assms(3) by (simp_all add: isTCPClientConnected_def tcp_isClientConnected_def bridge_wf_def)
  obtain b2 es2 q2 where s2: "spin ph rnd env ?b1 = Inr (b2, es2)" "serialized es2 = [createGreetMessage]"
    "getSwarmAgentId b2 = agent"
    and b2: "isTCPClientConnected b2" "bridge_wf b2" "inbound b2 = inbound b" "outbound b2 = outbound b @ q2"
    "m_inboundRequestsQueue b2 = []" "m_inboundResponsesMap b2 = m_inboundResponsesMap b"
    "m_messageHandler b2 = m_messageHandler b"
    using reconnect_keeps_queues [OF b1(1) assms(10-12) b1(2), of ph rnd] assms(5) by auto
  have "inbound b2 = [call_message src dst rid smod dmod fc]"
    "getCallback (getFunctionName fc) (callback_map b2) = Some f"
    using b2 assms(4,6) by simp_all
  from spin_call_message [OF b2(1,2,5) this, of ph rnd env'] obtain b3
    where s3: "spin ph rnd env' b2 = Inr (b3, [SerializeToStream (call_ack ph src dst rid smod)])"
    and resp: "m_inboundResponsesMap b3 = m_inboundResponsesMap b2" by blast
  obtain q3 where out: "outbound b3 = mk_OutboundRequestHandle msg # q3"
    using spin_served_step(4) [OF b2(1) s3] b2(4) assms(7) by simp
  then have "outbound_turn b3 = Inr (outbound_state b3 (q3 @ [(mk_OutboundRequestHandle msg)\<lparr>m_state := SENT\<rparr>])
      (m_inboundResponsesMap b3), [SerializeToStream msg])"
    using resp assms(8,9) b2(6) by (simp add: outbound_turn_eq outbound_visit_def bridge_defs)
  then show ?thesis using lost(1) b1(1) s2 s3 by blast
qed

text \<open>A bridge that got a call and has a request to send.\<close>

definition sample_session_bridge :: HiveMindBridgeImpl where
  "sample_session_bridge = sample_call_bridge\<lparr>m_outboundQueue :=
     push (mk_OutboundRequestHandle sample_request) new_queue\<rparr>"

theorem leftovers_reach_next_client_witness:
  "\<exists>b1 es1 b2 es2 b3 b4.
    inboundThread_step (lost_read 4 sample_request) sample_session_bridge = Inr (b1, es1) \<and>
    spin sample_pheromones (\<lambda>n. 0) sample_env b1 = Inr (b2, es2) \<and> getSwarmAgentId b2 = 42 \<and>
    spin sample_pheromones (\<lambda>n. 0) sample_env b2 =
      Inr (b3, [SerializeToStream (call_ack sample_pheromones 1 2 9 BUZZ)]) \<and>
    outbound_turn b3 = Inr (b4, [SerializeToStream sample_request])"
proof -
  let ?b = sample_session_bridge
  have con: "isTCPClientConnected ?b" "bridge_wf ?b" "inbound ?b = [call_message 1 2 9 BUZZ HOST sample_call]"
    "m_inboundRequestsQueue ?b = []"
    using sample_call_simps(1,2)
    by (simp_all add: sample_session_bridge_def isTCPClientConnected_def bridge_wf_def)
  have fd: "m_clientFd (m_tcpServer ?b) = Some 4"
    by (simp add: sample_session_bridge_def sample_call_bridge_def sample_echo_bridge_def registerCustomAction_def
        Let_def case_prod_unfold set_callback_map_def sample_bridge_def new_HiveMindBridgeImpl_def tcp_listen_def)
  have f: "getCallback (getFunctionName sample_call) (callback_map ?b) = Some sample_echo"
    by (simp add: sample_session_bridge_def sample_call_def)
  have out: "outbound ?b = mk_OutboundRequestHandle sample_request # []"
    by (simp add: sample_session_bridge_def)
  have resp: "m_inboundResponsesMap ?b i = None" for i
    by (simp add: sample_session_bridge_def sample_call_bridge_def sample_echo_bridge_def registerCustomAction_def
        Let_def case_prod_unfold set_callback_map_def)
  have env: "0 \<le> accept_result sample_env" "stays_connected (greet_read sample_env)"
    "getMessage (read_message (greet_read sample_env)) = Greeting 42"
    by (simp_all add: sample_env_def stays_connected_def)
  from leftovers_reach_next_client [OF con(1) fd con(2,3,4) f out sample_queue_simps(3) resp env,
      of 4 sample_request sample_pheromones "\<lambda>n. 0" sample_env]
  show ?thesis by blast
qed

end
