(* ===== verification/OutboundThread.thy ===== *)
theory OutboundThread
  imports Prelude Pheromones ThreadSafeQueue Handles HiveMindBridgeImpl OutboundQueue Spin
    HiveMindBridge BridgeSystem "HOL-Library.Multiset"
begin

section \<open>The outbound thread, one access at a time\<close>

text \<open>
  \<open>outbound_turn\<close> takes a turn of the thread's loop as one step. Here the turn is cut into the
  accesses the thread makes to what it shares with the others: the connection flag, the queue, which
  is locked for each call by itself, the map of responses and the stream. Between any two of them
  the user's thread, the inbound thread and the threads of actions may take steps. Without
  interference the cut turn is \<open>outboundThread_step\<close>; under every interference no message is lost or
  sent twice, and the queue is never read when empty.
\<close>

subsection \<open>The thread\<close>

text \<open>
  The iterator that \<open>m_inboundResponsesMap.find\<close> returns: the key it points to and the keys the map had
  then. Storing a response under a new key may rehash the \<open>std::unordered_map\<close>, which invalidates every
  iterator; storing one under a key of the map does not.
\<close>

record iterator =
  it_key :: u32
  it_keys :: "u32 set"

definition valid_iterator :: "iterator \<Rightarrow> (u32 \<rightharpoonup> InboundResponseHandle) \<Rightarrow> bool" where
  "valid_iterator it m \<longleftrightarrow> m (it_key it) \<noteq> None \<and> dom m \<subseteq> it_keys it"

text \<open>Where the thread is, with the local variables that are live there.\<close>

datatype outbound_pc =
    AtLoop                               \<comment> \<open>\<open>while (isTCPClientConnected())\<close>\<close>
  | AtEmpty                              \<comment> \<open>\<open>!m_outboundQueue.empty()\<close>\<close>
  | AtFront                              \<comment> \<open>\<open>m_outboundQueue.front()\<close>\<close>
  | AtPop OutboundRequestHandle          \<comment> \<open>\<open>m_outboundQueue.pop()\<close>\<close>
  | AtSearch OutboundRequestHandle       \<comment> \<open>\<open>m_inboundResponsesMap.find(request->getId())\<close>\<close>
  | AtErase iterator                     \<comment> \<open>\<open>m_inboundResponsesMap.erase(search)\<close>\<close>
  | AtSend OutboundRequestHandle         \<comment> \<open>\<open>m_serializer.serializeToStream(outboundMessage)\<close>\<close>
  | AtPush OutboundRequestHandle         \<comment> \<open>\<open>m_outboundQueue.push(handle)\<close>\<close>
  | Returned

fun outbound_micro ::
  "outbound_pc \<Rightarrow> HiveMindBridgeImpl \<Rightarrow> (outbound_pc \<times> HiveMindBridgeImpl \<times> event list) result" where
  "outbound_micro AtLoop b =
     (if isTCPClientConnected b then Inr (AtEmpty, b, [])
      else Inr (Returned, b\<lparr>m_outboundThread := FinishedThread\<rparr>, []))"
| "outbound_micro AtEmpty b =
     (if \<not> empty (m_outboundQueue b) then Inr (AtFront, b, []) else Inr (AtLoop, b, []))"
| "outbound_micro AtFront b = rbind (front (m_outboundQueue b)) (\<lambda>handle. Inr (AtPop handle, b, []))"
| "outbound_micro (AtPop handle) b =
     rbind (pop (m_outboundQueue b)) (\<lambda>q. Inr (AtSearch handle, b\<lparr>m_outboundQueue := q\<rparr>, []))"
| "outbound_micro (AtSearch handle) b =
     (case getMessage (getOutboundMessage handle) of
        Request request \<Rightarrow>
          (case m_inboundResponsesMap b (getRequestId request) of
             Some _ \<Rightarrow>
               Inr (AtErase \<lparr>it_key = getRequestId request, it_keys = dom (m_inboundResponsesMap b)\<rparr>, b, [])
           | None \<Rightarrow>
               if getState handle = READY then Inr (AtSend handle, b, [])
               else let (delay, handle) = bumpDelaySinceSent THREAD_SLEEP_MS handle in
                 if DELAY_BRFORE_DROP_S \<le> delay then Inr (AtLoop, b, [])
                 else Inr (AtPush handle, b, []))
      | Greeting _ \<Rightarrow> Inr (AtSend handle, b, [])
      | _ \<Rightarrow> Inr (AtLoop, b, [Log Warn ''Outbound queue contains an unsupported message'' []]))"
| "outbound_micro (AtErase search) b =
     (if valid_iterator search (m_inboundResponsesMap b) then
        Inr (AtLoop, b\<lparr>m_inboundResponsesMap := (m_inboundResponsesMap b)(it_key search := None)\<rparr>,
             [Log Debug ''RECEIVED VALID RESPONSE'' []])
      else Inl DanglingIterator)"
| "outbound_micro (AtSend handle) b =
     (case getMessage (getOutboundMessage handle) of
        Request _ \<Rightarrow> Inr (AtPush (setState SENT handle), b, [SerializeToStream (getOutboundMessage handle)])
      | _ \<Rightarrow> Inr (AtLoop, b, [SerializeToStream (getOutboundMessage handle)]))"
| "outbound_micro (AtPush handle) b =
     Inr (AtLoop, b\<lparr>m_outboundQueue := push handle (m_outboundQueue b)\<rparr>, [])"
| "outbound_micro Returned b = Inr (Returned, b, [])"

text \<open>A state in which the thread is about to erase through an iterator that is no longer valid.\<close>

fun stale_erase :: "outbound_pc \<Rightarrow> (u32 \<rightharpoonup> InboundResponseHandle) \<Rightarrow> bool" where
  "stale_erase (AtErase search) m = (\<not> valid_iterator search m)"
| "stale_erase _ m = False"

lemma fresh_iterator [simp]:
  "m k = Some v \<Longrightarrow> valid_iterator \<lparr>it_key = k, it_keys = dom m\<rparr> m"
  by (simp add: valid_iterator_def)

lemma micro_fresh:
  assumes "outbound_micro pc b = Inr (pc', b', es)"
  shows "\<not> stale_erase pc' (m_inboundResponsesMap b')"
  using assms
  by (cases pc) (auto simp: Let_def rbind_eq_Inr split: if_splits message_body.splits option.splits prod.splits)

text \<open>The thread running alone until it is back at the head of its loop or has returned.\<close>

fun outbound_alone ::
  "nat \<Rightarrow> outbound_pc \<Rightarrow> HiveMindBridgeImpl \<Rightarrow> (outbound_pc \<times> HiveMindBridgeImpl \<times> event list) result"
where
  "outbound_alone 0 pc b = Inr (pc, b, [])"
| "outbound_alone (Suc n) pc b =
     rbind (outbound_micro pc b) (\<lambda>(pc, b, es).
       if pc = AtLoop \<or> pc = Returned then Inr (pc, b, es)
       else rbind (outbound_alone n pc b) (\<lambda>(pc, b, es'). Inr (pc, b, es @ es')))"

text \<open>
  Without interference the cut turn is the turn of the model: from the head of its loop the thread
  is back there, or has returned, after at most seven accesses, and has made exactly the change and
  emitted exactly the events of \<open>outboundThread_step\<close>.
\<close>

theorem outbound_alone_turn:
  assumes "7 \<le> n"
  shows "outbound_alone n AtLoop b =
    rbind (outboundThread_step b) (\<lambda>(b', es).
      Inr (if isTCPClientConnected b then AtLoop else Returned, b', es))"
proof -
  obtain k where n: "n = Suc (Suc (Suc (Suc (Suc (Suc (Suc k))))))"
    using le_Suc_ex [OF assms] by (auto simp: eval_nat_numeral)
  show ?thesis
  proof (cases "outbound b")
    case Nil
    then show ?thesis
      by (simp add: n outboundThread_step_def outbound_turn_def empty_iff)
  next
    case (Cons h hs)
    then have "front (m_outboundQueue b) = Inr h"
      and "pop (m_outboundQueue b) = Inr ((m_outboundQueue b)\<lparr>m_queue := hs\<rparr>)"
      by (simp_all add: front_def pop_def)
    then show ?thesis
      using Cons
      by (auto simp: n outboundThread_step_def outbound_turn_def empty_iff bridge_defs Let_def
          split: message_body.split option.split)
  qed
qed

theorem outbound_alone_turn_witness:
  "\<exists>b'. outbound_alone 7 AtLoop sample_queue_bridge = Inr (AtLoop, b', [SerializeToStream sample_request])"
proof -
  have "isTCPClientConnected sample_queue_bridge"
    using sample_bridge_simps(1) by (simp add: sample_queue_bridge_def isTCPClientConnected_def)
  with outbound_alone_turn [of 7 sample_queue_bridge] show ?thesis
    by (simp add: outboundThread_step_def outbound_turn_eq outbound_visit_def bridge_defs
        del: outbound_alone.simps)
qed


subsection \<open>What the other threads do to the queue\<close>

text \<open>The other steps only append new handles to the queue; only a reconnecting spin starts the thread.\<close>

definition appends_only :: "HiveMindBridgeImpl \<Rightarrow> HiveMindBridgeImpl \<Rightarrow> bool" where
  "appends_only b b' \<longleftrightarrow>
     (\<exists>hs. outbound b' = outbound b @ hs \<and> (\<forall>h \<in> set hs. new_handle h)) \<and>
     m_outboundThread b' = m_outboundThread b"

lemma appends_onlyI:
  "outbound b' = outbound b @ hs \<Longrightarrow> \<forall>h \<in> set hs. new_handle h \<Longrightarrow>
   m_outboundThread b' = m_outboundThread b \<Longrightarrow> appends_only b b'"
  unfolding appends_only_def by blast

lemma keepAlive_appends:
  "\<exists>hs. outbound (spin_keepAlive b) = outbound b @ hs \<and> (\<forall>h \<in> set hs. new_handle h)"
  by (auto simp: spin_keepAlive_eq new_handle_def mk_OutboundRequestHandle_def)

lemma spin_appends:
  assumes "spin ph rnd env b = Inr (b', es)"
  shows "\<exists>hs. outbound b' = outbound b @ hs \<and> (\<forall>h \<in> set hs. new_handle h)"
    and "isTCPClientConnected b \<Longrightarrow> m_outboundThread b' = m_outboundThread b"
proof -
  have "(\<exists>hs. outbound b' = outbound b @ hs \<and> (\<forall>h \<in> set hs. new_handle h)) \<and>
    (isTCPClientConnected b \<longrightarrow> m_outboundThread b' = m_outboundThread b)"
  proof (cases "isTCPClientConnected b")
    case True
    then obtain b1 where "spin_connected ph rnd b = Inr (b1, es)" "b' = spin_keepAlive b1"
      using assms by (auto simp: spin_served rbind_eq_Inr)
    then show ?thesis
      using spin_connected_frame [of ph rnd b b1 es] keepAlive_appends [of b1] by simp
  next
    case False
    then obtain b1 where "spin_reconnect env b = Inr (b1, es)" "b' = spin_keepAlive b1"
      using assms by (auto simp: spin_def rbind_eq_Inr)
    then show ?thesis
      using keepAlive_appends [of b1] False by (elim spin_reconnect_cases) simp
  qed
  then show "\<exists>hs. outbound b' = outbound b @ hs \<and> (\<forall>h \<in> set hs. new_handle h)"
    "isTCPClientConnected b \<Longrightarrow> m_outboundThread b' = m_outboundThread b"
    by blast+
qed

lemma api_appends: "appends_only b (fst (snd (api_step ph rnd c b)))"
  using api_step_cases [of b ph rnd c]
  by (auto simp: appends_only_def sends_only_def configures_def)

lemma inbound_appends: "inboundThread_step d b = Inr (b', es) \<Longrightarrow> appends_only b b'"
  by (elim inboundThread_step_cases) (auto simp: appends_only_def)

lemma finish_appends: "appends_only b (fst (finish_call i b))"
  by (simp add: appends_only_def)


subsection \<open>Interleavings\<close>

text \<open>
  The states of bridge and thread that interleaved accesses reach, with two ghosts: the messages the
  thread has sent and those it has discarded; and the messages queued so far. A spin without a client
  first joins the thread, so it runs only once the thread has returned.
\<close>

definition queued_by :: "HiveMindBridgeImpl \<Rightarrow> HiveMindBridgeImpl \<Rightarrow> MessageDTO multiset" where
  "queued_by b b' = mset (map m_message (drop (length (outbound b)) (outbound b')))"

text \<open>
  A message that was never sent is given up when its response is known already, or when it is neither
  a request nor a greeting.
\<close>

fun discards :: "outbound_pc \<Rightarrow> HiveMindBridgeImpl \<Rightarrow> MessageDTO multiset" where
  "discards (AtSearch h) b =
     (if m_state h = READY \<and> (answered (m_inboundResponsesMap b) h \<or> \<not> is_request h \<and> \<not> is_greeting h)
      then {#m_message h#} else {#})"
| "discards _ b = {#}"

record ghosts =
  g_queued :: "MessageDTO multiset"
  g_sent :: "MessageDTO multiset"
  g_discarded :: "MessageDTO multiset"

inductive interleaved ::
  "pheromones \<Rightarrow> (nat \<Rightarrow> int) \<Rightarrow> outbound_pc \<Rightarrow> HiveMindBridgeImpl \<Rightarrow> ghosts \<Rightarrow> bool"
  for ph :: pheromones and rnd :: "nat \<Rightarrow> int"
where
  start: "initial_bridge b \<Longrightarrow>
    interleaved ph rnd Returned b \<lparr>g_queued = {#}, g_sent = {#}, g_discarded = {#}\<rparr>"
| thread_access: "interleaved ph rnd pc b g \<Longrightarrow> m_outboundThread b = RunningThread \<Longrightarrow>
    outbound_micro pc b = Inr (pc', b', es) \<Longrightarrow>
    interleaved ph rnd pc' b'
      (g\<lparr>g_sent := g_sent g + mset (serialized es), g_discarded := g_discarded g + discards pc b\<rparr>)"
| served_spin: "interleaved ph rnd pc b g \<Longrightarrow> isTCPClientConnected b \<Longrightarrow>
    spin ph rnd env b = Inr (b', es) \<Longrightarrow>
    interleaved ph rnd pc b' (g\<lparr>g_queued := g_queued g + queued_by b b'\<rparr>)"
| waiting_spin: "interleaved ph rnd pc b g \<Longrightarrow> \<not> isTCPClientConnected b \<Longrightarrow>
    m_outboundThread b \<noteq> RunningThread \<Longrightarrow> spin ph rnd env b = Inr (b', es) \<Longrightarrow>
    interleaved ph rnd (if m_outboundThread b' = RunningThread then AtLoop else Returned) b'
      (g\<lparr>g_queued := g_queued g + queued_by b b'\<rparr>)"
| other_step: "interleaved ph rnd pc b g \<Longrightarrow> bridge_step ph rnd b a es b' \<Longrightarrow>
    (\<exists>c. a = ApiAction c) \<or> (\<exists>d. a = InboundAction d) \<or> (\<exists>i. a = FinishAction i) \<Longrightarrow>
    interleaved ph rnd pc b' (g\<lparr>g_queued := g_queued g + queued_by b b'\<rparr>)"

lemma other_step_appends:
  assumes "bridge_step ph rnd b a es b'"
    "(\<exists>c. a = ApiAction c) \<or> (\<exists>d. a = InboundAction d) \<or> (\<exists>i. a = FinishAction i)"
  shows "appends_only b b'"
  using assms(1)
proof (cases rule: bridge_step.cases)
  case (api_call_step c r)
  then show ?thesis using api_appends [of b ph rnd c] by simp
next
  case (inbound_step d)
  then show ?thesis by (blast intro: inbound_appends)
next
  case (finish_step i)
  then show ?thesis using finish_appends [of b i] by simp
qed (use assms(2) in auto)


subsection \<open>What holds between any two accesses\<close>

text \<open>The handles the thread has taken from the queue and not put back.\<close>

fun held :: "outbound_pc \<Rightarrow> OutboundRequestHandle list" where
  "held (AtSearch h) = [h]"
| "held (AtSend h) = [h]"
| "held (AtPush h) = [h]"
| "held _ = []"

text \<open>The messages that wait to be sent.\<close>

definition waiting :: "OutboundRequestHandle list \<Rightarrow> MessageDTO multiset" where
  "waiting q = mset (map m_message (filter (\<lambda>h. m_state h = READY) q))"

lemma waiting_simps [simp]:
  "waiting [] = {#}"
  "waiting (q @ q') = waiting q + waiting q'"
  "waiting (h # q) = (if m_state h = READY then {#m_message h#} else {#}) + waiting q"
  by (simp_all add: waiting_def)

lemma waiting_new: "\<forall>h \<in> set hs. new_handle h \<Longrightarrow> waiting hs = mset (map m_message hs)"
  by (induction hs) (auto simp: new_handle_def)

text \<open>What the thread knows where it is; the other threads' steps leave it true.\<close>

fun pc_inv :: "outbound_pc \<Rightarrow> OutboundRequestHandle list \<Rightarrow> bool" where
  "pc_inv AtFront q = (q \<noteq> [])"
| "pc_inv (AtPop h) q = (q \<noteq> [] \<and> hd q = h)"
| "pc_inv (AtSend h) q = ((is_request h \<or> is_greeting h) \<and> m_state h = READY)"
| "pc_inv (AtPush h) q = (is_request h \<and> m_state h = SENT)"
| "pc_inv _ q = True"

definition interleaved_inv :: "outbound_pc \<Rightarrow> HiveMindBridgeImpl \<Rightarrow> ghosts \<Rightarrow> bool" where
  "interleaved_inv pc b g \<longleftrightarrow>
     pc_inv pc (outbound b) \<and>
     (m_outboundThread b \<noteq> RunningThread \<longleftrightarrow> pc = Returned) \<and>
     (\<forall>h \<in> set (held pc @ outbound b). m_state h = SENT \<longrightarrow> is_request h) \<and>
     g_queued g = g_sent g + g_discarded g + waiting (held pc @ outbound b)"

lemma pc_inv_append: "pc_inv pc q \<Longrightarrow> pc_inv pc (q @ hs)"
  by (cases pc) auto

lemma interleaved_inv_appends:
  assumes "interleaved_inv pc b g" "appends_only b b'"
  shows "interleaved_inv pc b' (g\<lparr>g_queued := g_queued g + queued_by b b'\<rparr>)"
  using assms
  by (auto simp: interleaved_inv_def appends_only_def queued_by_def pc_inv_append waiting_new new_handle_def)

lemma micro_ok:
  assumes "pc_inv pc (outbound b)"
  shows "ok (outbound_micro pc b) \<longleftrightarrow> \<not> stale_erase pc (m_inboundResponsesMap b)"
proof (cases pc)
  case AtFront
  then show ?thesis using assms by (simp add: front_def split: list.split)
next
  case (AtPop h)
  then show ?thesis using assms by (simp add: pop_def split: list.split)
qed (auto simp: Let_def case_prod_unfold split: message_body.split option.split)

lemma AtSearch_inv:
  assumes "interleaved_inv (AtSearch h) b g" "m_outboundThread b = RunningThread"
    and "outbound_micro (AtSearch h) b = Inr (pc', b', es)"
  shows "interleaved_inv pc' b'
    (g\<lparr>g_sent := g_sent g + mset (serialized es), g_discarded := g_discarded g + discards (AtSearch h) b\<rparr>)"
proof (cases "getMessage (m_message h)")
  case (Request r)
  then show ?thesis
    using assms
    by (cases "m_state h")
       (auto simp: interleaved_inv_def handle_kinds bridge_defs Let_def split: option.splits if_splits)
qed (use assms in \<open>cases "m_state h"; auto simp: interleaved_inv_def handle_kinds bridge_defs\<close>)+

lemma micro_inv:
  assumes inv: "interleaved_inv pc b g" and run: "m_outboundThread b = RunningThread"
    and step: "outbound_micro pc b = Inr (pc', b', es)"
  shows "interleaved_inv pc' b'
    (g\<lparr>g_sent := g_sent g + mset (serialized es), g_discarded := g_discarded g + discards pc b\<rparr>)"
proof (cases pc)
  case AtLoop
  then show ?thesis using assms by (auto simp: interleaved_inv_def split: if_splits)
next
  case AtEmpty
  then show ?thesis using assms by (auto simp: interleaved_inv_def empty_iff split: if_splits)
next
  case AtFront
  then show ?thesis using assms by (cases "outbound b") (auto simp: interleaved_inv_def front_def)
next
  case (AtPop h)
  then show ?thesis using assms by (cases "outbound b") (auto simp: interleaved_inv_def pop_def)
next
  case (AtSearch h)
  then show ?thesis using AtSearch_inv assms by blast
next
  case (AtErase it)
  then show ?thesis using assms by (auto simp: interleaved_inv_def split: if_splits)
next
  case (AtSend h)
  then show ?thesis
    using assms by (auto simp: interleaved_inv_def bridge_defs handle_kinds split: message_body.splits)
next
  case (AtPush h)
  then show ?thesis using assms by (auto simp: interleaved_inv_def)
next
  case Returned
  then show ?thesis using assms by (auto simp: interleaved_inv_def)
qed

lemma spin_queued:
  assumes "interleaved_inv pc b g" "spin ph rnd env b = Inr (b', es)"
    and "held pc' = held pc" "pc_inv pc' (outbound b')"
    and "m_outboundThread b' \<noteq> RunningThread \<longleftrightarrow> pc' = Returned"
  shows "interleaved_inv pc' b' (g\<lparr>g_queued := g_queued g + queued_by b b'\<rparr>)"
  using spin_appends(1) [OF assms(2)] assms(1,3-5)
  by (auto simp: interleaved_inv_def queued_by_def waiting_new new_handle_def)

lemma interleaved_invariant: "interleaved ph rnd pc b g \<Longrightarrow> interleaved_inv pc b g"
proof (induction rule: interleaved.induct)
  case (start b)
  then show ?case by (auto simp: interleaved_inv_def initial_bridge_def)
next
  case (thread_access pc b g pc' b' es)
  then show ?case by (blast intro: micro_inv)
next
  case (served_spin pc b g env b' es)
  have "appends_only b b'"
    using spin_appends [OF served_spin.hyps(3)] served_spin.hyps(2) by (simp add: appends_only_def)
  then show ?case using served_spin.IH interleaved_inv_appends by blast
next
  case (waiting_spin pc b g env b' es)
  then have "pc = Returned" by (simp add: interleaved_inv_def)
  then show ?case
    by (intro spin_queued [OF waiting_spin.IH waiting_spin.hyps(4)]) auto
next
  case (other_step pc b g a es b')
  then show ?case using interleaved_inv_appends other_step_appends by blast
qed

text \<open>
  However the accesses of the outbound thread interleave with the steps of all other threads: the
  thread's next access faults only when it erases a response through an iterator that a response
  stored in between has invalidated, in particular it never reads or pops an empty queue and pops
  the handle it has read; and no message is lost or duplicated. The messages queued so far are
  exactly those sent, once each, those that wait to be sent, on the queue or in the thread's hands,
  and those given up unsent because their response was known or because they are neither requests
  nor greetings.
\<close>

theorem interleaved_conservation:
  assumes "interleaved ph rnd pc b g"
  shows "(ok (outbound_micro pc b) \<longleftrightarrow> \<not> stale_erase pc (m_inboundResponsesMap b)) \<and>
    g_queued g = g_sent g + g_discarded g + waiting (held pc @ outbound b) \<and>
    (\<forall>h. pc = AtPop h \<longrightarrow> (\<exists>q. outbound b = h # q))"
  using interleaved_invariant [OF assms] micro_ok [of pc b]
  by (auto simp: interleaved_inv_def neq_Nil_conv)

text \<open>A reachable interleaving: a request was queued while the thread was between two accesses.\<close>

lemma sample_interleaved:
  "\<exists>b g. interleaved sample_pheromones (\<lambda>n. 7) AtEmpty b g \<and> g_queued g = {#sample_request#} \<and>
    isTCPClientConnected b \<and> m_inboundThread b = RunningThread \<and>
    (\<exists>fd. m_clientFd (m_tcpServer b) = Some fd)"
proof -
  let ?b0 = "fst (new_HiveMindBridge 5000 0 3 0 0)" and ?ph = sample_pheromones and ?rnd = "\<lambda>n. 7"
  let ?g0 = "\<lparr>g_queued = {#}, g_sent = {#}, g_discarded = {#}\<rparr>"
  have "initial_bridge ?b0" unfolding initial_bridge_def by blast
  then have i0: "interleaved ?ph ?rnd Returned ?b0 ?g0" by (rule start)
  have "\<not> isTCPClientConnected ?b0" by simp
  then obtain t es where run: "spin ?ph ?rnd sample_env ?b0 =
      Inr (spin_keepAlive (?b0\<lparr>m_tcpServer := t, m_inboundThread := RunningThread,
        m_outboundThread := RunningThread, m_swarmAgentID := 42\<rparr>), es)" "m_isClientConnected t"
    "m_clientFd t = Some 5"
    using spin_wait [of ?b0 ?ph ?rnd sample_env]
    by (auto simp: sample_env_def handleGreet_def stays_connected_def)
  then obtain b1 where s: "spin ?ph ?rnd sample_env ?b0 = Inr (b1, es)"
    and b1: "isTCPClientConnected b1" "outbound b1 = []" "m_outboundThread b1 = RunningThread"
    "m_inboundThread b1 = RunningThread" "m_clientFd (m_tcpServer b1) = Some 5"
    by (simp add: isTCPClientConnected_def tcp_isClientConnected_def spin_keepAlive_eq keepAlive_due_def)
  have i1: "interleaved ?ph ?rnd AtLoop b1 (?g0\<lparr>g_queued := {#}\<rparr>)"
    using waiting_spin [OF i0 _ _ s] b1 by (simp add: queued_by_def)
  have "outbound_micro AtLoop b1 = Inr (AtEmpty, b1, [])" using b1 by simp
  from thread_access [OF i1 b1(3) this]
  have i2: "interleaved ?ph ?rnd AtEmpty b1 ?g0" by simp
  let ?b2 = "snd (queueAndSend sample_request b1)"
  have "bridge_step ?ph ?rnd b1 (ApiAction (QueueAndSendCall sample_request)) [] ?b2"
    by (simp add: bridge_step_simps case_prod_unfold Let_def)
  from other_step [OF i2 this]
  have i3: "interleaved ?ph ?rnd AtEmpty ?b2 (?g0\<lparr>g_queued := {#sample_request#}\<rparr>)"
    using b1 by (simp add: queued_by_def mk_OutboundRequestHandle_def)
  moreover have "isTCPClientConnected ?b2" using b1(1) by (simp add: isTCPClientConnected_def)
  moreover have "m_inboundThread ?b2 = RunningThread" "m_clientFd (m_tcpServer ?b2) = Some 5"
    using b1(4,5) by simp_all
  ultimately show ?thesis by fastforce
qed

theorem interleaved_conservation_witness:
  "\<exists>pc b g. interleaved sample_pheromones (\<lambda>n. 7) pc b g \<and> pc = AtEmpty \<and>
    g_queued g = {#sample_request#} \<and> ok (outbound_micro pc b) \<and>
    g_queued g = g_sent g + g_discarded g + waiting (held pc @ outbound b)"
proof -
  obtain b g where b: "interleaved sample_pheromones (\<lambda>n. 7) AtEmpty b g" "g_queued g = {#sample_request#}"
    using sample_interleaved by blast
  with interleaved_conservation [OF b(1)] show ?thesis by (intro exI conjI) (assumption | simp)+
qed


subsection \<open>The thread ends\<close>

text \<open>The thread makes \<open>n\<close> accesses while the others make none; once returned it stays so.\<close>

fun outbound_run ::
  "nat \<Rightarrow> outbound_pc \<Rightarrow> HiveMindBridgeImpl \<Rightarrow> (outbound_pc \<times> HiveMindBridgeImpl \<times> event list) result"
where
  "outbound_run 0 pc b = Inr (pc, b, [])"
| "outbound_run (Suc n) pc b =
     rbind (outbound_micro pc b) (\<lambda>(pc, b, es).
       rbind (outbound_run n pc b) (\<lambda>(pc, b, es'). Inr (pc, b, es @ es')))"

text \<open>How many accesses are left before the thread tests the connection again and returns.\<close>

fun accesses_left :: "outbound_pc \<Rightarrow> nat" where
  "accesses_left Returned = 0"
| "accesses_left AtLoop = 1"
| "accesses_left (AtPush h) = 2"
| "accesses_left (AtErase i) = 2"
| "accesses_left (AtSend h) = 3"
| "accesses_left (AtSearch h) = 4"
| "accesses_left (AtPop h) = 5"
| "accesses_left AtFront = 6"
| "accesses_left AtEmpty = 7"

lemma micro_progress:
  assumes "\<not> isTCPClientConnected b" "outbound_micro pc b = Inr (pc', b', es)"
  shows "accesses_left pc' \<le> accesses_left pc - 1" "\<not> isTCPClientConnected b'"
    "length (serialized es) + (if 3 \<le> accesses_left pc' then 1 else 0) \<le>
      (if 3 \<le> accesses_left pc then 1 else 0)"
  using assms
  by (cases pc; auto simp: Let_def rbind_eq_Inr isTCPClientConnected_def
      split: if_splits message_body.splits option.splits prod.splits)+

lemma run_Returned: "outbound_run n Returned b = Inr (Returned, b, [])"
  by (induction n) simp_all

lemma run_to_end:
  assumes "interleaved_inv pc b g" "\<not> isTCPClientConnected b" "accesses_left pc \<le> n"
    "\<not> stale_erase pc (m_inboundResponsesMap b)"
  shows "\<exists>b' es. outbound_run n pc b = Inr (Returned, b', es) \<and>
    m_outboundThread b' \<noteq> RunningThread \<and>
    length (serialized es) \<le> (if 3 \<le> accesses_left pc then 1 else 0)"
  using assms
proof (induction n arbitrary: pc b g)
  case 0
  then have "pc = Returned" by (cases pc) simp_all
  then show ?case
    using "0.prems"(1) by (simp add: interleaved_inv_def)
next
  case (Suc n)
  note inv = Suc.prems(1)
  show ?case
  proof (cases "m_outboundThread b = RunningThread")
    case False
    then have "pc = Returned" using inv by (simp add: interleaved_inv_def)
    then show ?thesis using False run_Returned [of "Suc n" b] by simp
  next
    case True
    obtain pc1 b1 es1 where m: "outbound_micro pc b = Inr (pc1, b1, es1)"
      using micro_ok [of pc b] inv Suc.prems(4) by (auto simp: interleaved_inv_def ok_iff)
    note prog = micro_progress [OF Suc.prems(2) m]
    have "accesses_left pc1 \<le> n" using prog(1) Suc.prems(3) by simp
    from Suc.IH [OF micro_inv [OF inv True m] prog(2) this micro_fresh [OF m]] obtain b' es
      where "outbound_run n pc1 b1 = Inr (Returned, b', es)" "m_outboundThread b' \<noteq> RunningThread"
        "length (serialized es) \<le> (if 3 \<le> accesses_left pc1 then 1 else 0)"
      by blast
    then show ?thesis using m prog(3) by simp
  qed
qed

text \<open>
  Joining the outbound thread ends: wherever the thread is when the client is gone, unless it is about
  to erase through an invalid iterator, it returns after at most seven more accesses, none of which
  faults, and it sends at most one more message, the one it has in hand or takes next. So the join in a spin that waits for the next client, and the one in the
  destructor, wait for a bounded piece of work.
\<close>

theorem outbound_thread_returns:
  assumes "interleaved ph rnd pc b g" "\<not> isTCPClientConnected b"
    "\<not> stale_erase pc (m_inboundResponsesMap b)"
  shows "\<exists>b' es. outbound_run 7 pc b = Inr (Returned, b', es) \<and>
    m_outboundThread b' \<noteq> RunningThread \<and> length (serialized es) \<le> 1"
proof -
  have "accesses_left pc \<le> 7" by (cases pc) simp_all
  from run_to_end [OF interleaved_invariant [OF assms(1)] assms(2) this assms(3)] show ?thesis by (auto split: if_splits)
qed

theorem outbound_thread_returns_witness:
  "\<exists>b g b' es. interleaved sample_pheromones (\<lambda>n. 7) AtEmpty b g \<and>
    outbound_run 7 AtEmpty b = Inr (Returned, b', es) \<and> length (serialized es) \<le> 1"
proof -
  obtain b g fd where b: "interleaved sample_pheromones (\<lambda>n. 7) AtEmpty b g" "isTCPClientConnected b"
    "m_inboundThread b = RunningThread" "m_clientFd (m_tcpServer b) = Some fd"
    using sample_interleaved by blast
  let ?d = "\<lparr>recv_results = [(0, 4)], read_ok = False, read_message = createGreetMessage\<rparr>"
  obtain s es where s: "deserializeFromStream ?d b = Inr (False, createGreetMessage, b\<lparr>m_tcpServer := s\<rparr>, es)"
    "\<not> m_isClientConnected s"
    using deserialize_run [of b ?d] b(4) by (auto simp: stays_connected_def)
  have "bridge_step sample_pheromones (\<lambda>n. 7) b (InboundAction ?d) es (b\<lparr>m_tcpServer := s\<rparr>)"
    using b(2,3) s(1)
    by (simp add: bridge_step_simps inboundThread_step_def inbound_turn_def read_wf_def message_wf_def
        createGreetMessage_def)
  from other_step [OF b(1) this] obtain g' where
    i: "interleaved sample_pheromones (\<lambda>n. 7) AtEmpty (b\<lparr>m_tcpServer := s\<rparr>) g'" by blast
  have "\<not> isTCPClientConnected (b\<lparr>m_tcpServer := s\<rparr>)"
    using s(2) by (simp add: isTCPClientConnected_def tcp_isClientConnected_def)
  from outbound_thread_returns [OF i this] i show ?thesis by auto
qed

end
