(* ===== verification/BasicLogger.thy ===== *)
theory BasicLogger imports Prelude Pheromones begin

section \<open>The example's logger\<close>

text \<open>
  \<open>examples/BasicLogger.h\<close>: a logger that formats a message, appends it to a buffer and prints the
  buffer. \<open>std::vsnprintf\<close> is modelled for what the program passes to it, the conversions \<open>%d\<close>,
  \<open>%s\<close> and \<open>%%\<close>; every other use is the fault \<open>BadFormat\<close>. What is written to \<open>std::cout\<close> is part
  of the result.
\<close>

subsection \<open>\<open>std::vsnprintf\<close>\<close>

datatype piece = Plain char | Conversion char

text \<open>A lone \<open>%\<close> at the end is a conversion without a letter.\<close>

fun parse_format :: "string \<Rightarrow> piece list" where
  "parse_format [] = []"
| "parse_format [c] = [if c = CHR ''%'' then Conversion CHR 0x00 else Plain c]"
| "parse_format (c # d # cs) =
     (if c = CHR ''%''
      then (if d = CHR ''%'' then Plain d else Conversion d) # parse_format cs
      else Plain c # parse_format (d # cs))"

fun digits :: "nat \<Rightarrow> string" where
  "digits n = (if n < 10 then [char_of (48 + n)] else digits (n div 10) @ [char_of (48 + n mod 10)])"

declare digits.simps [simp del]

definition decimal :: "int \<Rightarrow> string" where
  "decimal i = (if i < 0 then CHR ''-'' # digits (nat (- i)) else digits (nat i))"

text \<open>
  \<open>%d\<close> reads an \<open>int\<close>, of 32 bits. An \<open>unsigned\<close> argument may be read as an \<open>int\<close> when both types
  represent its value, and a \<open>size_t\<close> never.
\<close>

definition as_int :: "int \<Rightarrow> int" where
  "as_int i = sint (word_of_int i :: u32)"

fun convert :: "char \<Rightarrow> log_arg \<Rightarrow> string result" where
  "convert c (LogInt i) = (if c = CHR ''d'' then Inr (decimal (as_int i)) else Inl BadFormat)"
| "convert c (LogUnsigned u) =
     (if c = CHR ''d'' \<and> uint u < 2 ^ 31 then Inr (decimal (uint u)) else Inl BadFormat)"
| "convert c (LogSize n) = Inl BadFormat"
| "convert c (LogStr s) = (if c = CHR ''s'' then Inr (c_str s) else Inl BadFormat)"

fun format_pieces :: "piece list \<Rightarrow> log_arg list \<Rightarrow> string result" where
  "format_pieces [] args = Inr []"
| "format_pieces (Plain c # ps) args = rbind (format_pieces ps args) (\<lambda>t. Inr (c # t))"
| "format_pieces (Conversion c # ps) [] = Inl BadFormat"
| "format_pieces (Conversion c # ps) (a # args) =
     rbind (convert c a) (\<lambda>t. rbind (format_pieces ps args) (\<lambda>t'. Inr (t @ t')))"

definition format_text :: "string \<Rightarrow> log_arg list \<Rightarrow> string result" where
  "format_text format args = format_pieces (parse_format (c_str format)) args"

definition INT_MAX :: int where "INT_MAX = 2147483647"

text \<open>
  The return value, the length of the whole text or a negative number when no \<open>int\<close> can hold it,
  and the characters written before the terminating NUL into a buffer of \<open>n\<close> characters.
\<close>

definition vsnprintf :: "nat \<Rightarrow> string \<Rightarrow> log_arg list \<Rightarrow> (int \<times> string) result" where
  "vsnprintf n format args =
     rbind (format_text format args) (\<lambda>t.
       Inr (if INT_MAX < int (length t) then (-1, []) else (int (length t), take (n - 1) t)))"


subsection \<open>The logger\<close>

datatype LogRet = LogRetOk | LogRetError

record Logger =
  m_accumulatedString :: string

definition new_Logger :: Logger where
  "new_Logger = \<lparr>m_accumulatedString = []\<rparr>"

text \<open>
  A \<open>std::string\<close> resized to \<open>(size_t) n\<close>; no \<open>std::string\<close> holds \<open>2 ^ 63\<close> characters.
\<close>

definition resized :: "int \<Rightarrow> string result" where
  "resized n =
     (let size = unat (word_of_int n :: u64)
      in if 2 ^ 63 \<le> size then Inl LengthError else Inr (replicate size CHR 0x00))"

definition formatAndAppend :: "string \<Rightarrow> log_arg list \<Rightarrow> Logger \<Rightarrow> (int \<times> Logger) result" where
  "formatAndAppend format args s =
     rbind (vsnprintf 0 format args) (\<lambda>(requiredLength, _).
     rbind (resized requiredLength) (\<lambda>tmpStr.
     rbind (vsnprintf (length tmpStr + 1) format args) (\<lambda>(retValue, written).
       let tmpStr = written @ drop (length written) tmpStr;
           s = s\<lparr>m_accumulatedString := m_accumulatedString s @ tmpStr\<rparr>
       in Inr (retValue, s))))"

definition flush :: "log_level \<Rightarrow> Logger \<Rightarrow> Logger \<times> string" where
  "flush level s = (s\<lparr>m_accumulatedString := []\<rparr>, m_accumulatedString s @ [CHR 0x0A])"

definition Logger_log ::
  "log_level \<Rightarrow> string \<Rightarrow> log_arg list \<Rightarrow> Logger \<Rightarrow> (LogRet \<times> Logger \<times> string) result" where
  "Logger_log level format args s =
     rbind (formatAndAppend format args s) (\<lambda>(retVal, s).
       let (s, out) = flush level s
       in Inr (if 0 \<le> retVal then LogRetOk else LogRetError, s, out))"


subsection \<open>What a log call prints\<close>

lemma resized_simps:
  "0 \<le> n \<Longrightarrow> n \<le> INT_MAX \<Longrightarrow> resized n = Inr (replicate (nat n) CHR 0x00)"
  "resized (-1) = Inl LengthError"
proof -
  assume "0 \<le> n" "n \<le> INT_MAX"
  then have "unat (word_of_int n :: u64) = nat n"
    by (simp add: INT_MAX_def unat_eq_nat_uint uint_word_of_int)
  then show "resized n = Inr (replicate (nat n) CHR 0x00)"
    using \<open>n \<le> INT_MAX\<close> by (simp add: resized_def Let_def INT_MAX_def nat_le_iff)
next
  have "unat (-1 :: u64) = 2 ^ 64 - 1" by (simp add: unsigned_minus_1_eq_mask mask_eq_exp_minus_1)
  then show "resized (-1) = Inl LengthError" by (simp add: resized_def Let_def)
qed

lemma formatAndAppend_eq:
  "formatAndAppend format args s =
     rbind (format_text format args) (\<lambda>t.
       if INT_MAX < int (length t) then Inl LengthError
       else Inr (int (length t), s\<lparr>m_accumulatedString := m_accumulatedString s @ t\<rparr>))"
  by (cases "format_text format args")
     (simp_all add: formatAndAppend_def vsnprintf_def resized_simps Let_def not_less)

text \<open>
  A log call prints its formatted text, after whatever text was still in the buffer, and a line
  break, empties the buffer and returns \<open>Ok\<close>. It never returns \<open>Error\<close>: a text longer than
  \<open>INT_MAX\<close>, the only failure of \<open>vsnprintf\<close> on these formats, makes the resize of the temporary
  string throw first. A conversion without an argument of its type is undefined behaviour.
\<close>

theorem log_prints:
  "Logger_log level format args s =
    (case format_text format args of
       Inl e \<Rightarrow> Inl e
     | Inr t \<Rightarrow>
         if int (length t) \<le> INT_MAX
         then Inr (LogRetOk, s\<lparr>m_accumulatedString := []\<rparr>, m_accumulatedString s @ t @ [CHR 0x0A])
         else Inl LengthError)"
  by (cases "format_text format args")
     (simp_all add: Logger_log_def formatAndAppend_eq flush_def Let_def not_le)


text \<open>
  The buffer is shared and not locked. When another thread appends between the append and the flush of
  a call, the first flush prints both texts on one line and the second an empty one.
\<close>

lemma overlapping_log_calls:
  assumes "formatAndAppend f a s = Inr (r, s1)" "formatAndAppend f' a' s1 = Inr (r', s2)"
    and "format_text f a = Inr t" "format_text f' a' = Inr t'" "m_accumulatedString s = []"
  shows "snd (flush l s2) = t @ t' @ [CHR 0x0A]" "snd (flush l' (fst (flush l s2))) = [CHR 0x0A]"
  using assms by (auto simp: formatAndAppend_eq flush_def split: if_splits)


subsection \<open>Formats that match their arguments\<close>

text \<open>Whether a conversion may read an argument of its type.\<close>

fun reads :: "char \<Rightarrow> log_arg \<Rightarrow> bool" where
  "reads c (LogInt i) = (c = CHR ''d'')"
| "reads c (LogUnsigned u) = (c = CHR ''d'' \<and> uint u < 2 ^ 31)"
| "reads c (LogSize n) = False"
| "reads c (LogStr s) = (c = CHR ''s'')"

fun letters :: "piece list \<Rightarrow> char list" where
  "letters [] = []"
| "letters (Plain c # ps) = letters ps"
| "letters (Conversion c # ps) = c # letters ps"

definition conversions :: "string \<Rightarrow> char list" where
  "conversions format = letters (parse_format (c_str format))"

definition log_typed :: "string \<Rightarrow> log_arg list \<Rightarrow> bool" where
  "log_typed format args \<longleftrightarrow> list_all2 reads (conversions format) args"

lemma convert_reads: "ok (convert c a) \<longleftrightarrow> reads c a"
  by (cases a) simp_all

lemma format_pieces_ok: "list_all2 reads (letters ps) args \<Longrightarrow> ok (format_pieces ps args)"
  by (induction ps args rule: format_pieces.induct)
     (auto simp: ok_rbind convert_reads [symmetric] ok_iff rbind_eq_Inr)

lemma log_typed_formats: "log_typed format args \<Longrightarrow> \<exists>t. format_text format args = Inr t"
  using format_pieces_ok by (auto simp: log_typed_def conversions_def format_text_def ok_iff)

text \<open>
  With as many arguments as conversions the typing is exact: a log call with an argument of another
  type is undefined behaviour.
\<close>

lemma format_pieces_ill_typed:
  "length args = length (letters ps) \<Longrightarrow> ok (format_pieces ps args) \<Longrightarrow> list_all2 reads (letters ps) args"
  by (induction ps args rule: format_pieces.induct)
     (auto simp: ok_rbind convert_reads [symmetric] ok_iff rbind_eq_Inr)

lemma log_typed_iff:
  assumes "length args = length (conversions format)"
  shows "log_typed format args \<longleftrightarrow> ok (format_text format args)"
  using format_pieces_ok format_pieces_ill_typed assms
  by (auto simp: log_typed_def conversions_def format_text_def)

end
