(* ===== verification/EventTypes.thy ===== *)
theory EventTypes
  imports Prelude Pheromones BasicLogger MessageHandler TCPServer HiveMindBridgeImpl SendBytes
    OutboundQueue Spin HiveMindBridge BridgeSystem
begin

section \<open>The types of what the program emits\<close>

text \<open>
  A typing of the calls that leave the program: a log call has an argument of the right type for
  every conversion of its format, a serialised message is of a kind the peer can be sent, a payload
  is announced with its own size. Every operation emits typed events only, with the exception of three
  log calls that are named exactly, so every step of the bridge does.
\<close>

subsection \<open>Typed events\<close>

text \<open>
  The bridge sends requests, greetings and, as responses, only the answers of the host to user calls.
\<close>

definition message_typed :: "MessageDTO \<Rightarrow> bool" where
  "message_typed m \<longleftrightarrow>
     (case getMessage m of
        Request _ \<Rightarrow> True
      | Greeting _ \<Rightarrow> True
      | Response r \<Rightarrow>
          (case getResponse r of UserCallResponse uc \<Rightarrow> getResponseSource uc = HOST | _ \<Rightarrow> False)
      | OtherMessage _ \<Rightarrow> False)"

fun event_typed :: "event \<Rightarrow> bool" where
  "event_typed (Log level format args) = log_typed format args"
| "event_typed (SerializeToStream m) = message_typed m"
| "event_typed (BytesReceived h bytes n) = (n = word_of_nat (length bytes))"
| "event_typed _ = True"

text \<open>
  The log calls of the code whose argument does not fit their \<open>%d\<close>: the index of an unknown message is
  a \<open>size_t\<close>, the id of a greeting is unsigned and may exceed every \<open>int\<close>, and the limit on the number
  of arguments has the type the library gives it.
\<close>

definition mismatched_log :: "pheromones \<Rightarrow> event \<Rightarrow> bool" where
  "mismatched_log ph e \<longleftrightarrow>
     (\<exists>request. e = unknown_message ph request) \<or>
     (\<exists>i. 2 ^ 31 \<le> uint i \<and> e = Log Info ''Received greeting from %d'' [LogUnsigned i]) \<or>
     (\<not> reads CHR ''d'' (max_arguments_arg ph) \<and>
      e = Log Error ''Return function contains too many arguments.The limit is currently set to %d arguments''
        [max_arguments_arg ph])"

definition well_typed :: "pheromones \<Rightarrow> event \<Rightarrow> bool" where
  "well_typed ph e \<longleftrightarrow> (event_typed e \<longleftrightarrow> \<not> mismatched_log ph e)"

definition events_typed :: "pheromones \<Rightarrow> event list \<Rightarrow> bool" where
  "events_typed ph es \<longleftrightarrow> (\<forall>e \<in> set es. event_typed e \<longleftrightarrow> \<not> mismatched_log ph e)"

lemma events_typed_simps [simp]:
  "events_typed ph []"
  "events_typed ph (e # es) \<longleftrightarrow> well_typed ph e \<and> events_typed ph es"
  "events_typed ph (es @ es') \<longleftrightarrow> events_typed ph es \<and> events_typed ph es'"
  by (auto simp: events_typed_def well_typed_def)

lemma well_typed_simps [simp]:
  "well_typed ph (SerializeToStream m) \<longleftrightarrow> message_typed m"
  "well_typed ph (BytesReceived h bytes n) \<longleftrightarrow> n = word_of_nat (length bytes)"
  "well_typed ph (NeighborListUpdated h ns k)"
  "well_typed ph (NeighborUpdated h i pos)"
  "well_typed ph (ConnectHook h)"
  "well_typed ph (DisconnectHook h)"
  "well_typed ph (ShutdownFd fd)"
  "well_typed ph (CloseFd fd)"
  by (simp_all add: well_typed_def mismatched_log_def unknown_message_def)

lemma well_typed_log [simp]:
  "well_typed ph (Log l ''TCP server socket creation failed'' [])"
  "well_typed ph (Log l ''TCP server setting option failed.'' [])"
  "well_typed ph (Log l ''TCP server binding failed'' [])"
  "well_typed ph (Log l ''Listening for incoming clients on port %d...'' [LogInt i])"
  "well_typed ph (Log l ''TCP server listen failed'' [])"
  "well_typed ph (Log l ''TCP server accept failed'' [])"
  "well_typed ph (Log l ''TCP client disconnected'' [])"
  "well_typed ph (Log l ''TCP server: client disconnected'' [])"
  "well_typed ph (Log l ''No callback was defined to handle incoming bytes.'' [])"
  "well_typed ph (Log l ''A packet was skipped.'' [])"
  "well_typed ph (Log l ''Unsupported HiveMindHostApi request.'' [])"
  "well_typed ph (Log l ''No callback was defined to handle incoming GetNeighborsListResponse.'' [])"
  "well_typed ph (Log l ''No callback was defined to handle incoming GetNeighborResponse.'' [])"
  "well_typed ph (Log l ''Unsupported HiveMindHostApi response.'' [])"
  by (simp_all add: well_typed_def mismatched_log_def unknown_message_def log_typed_def conversions_def
      c_str_def)

lemma well_typed_log' [simp]:
  \<open>well_typed ph (Log l ''Function name "%s" was not registered as a callback'' [LogStr s])\<close>
  "well_typed ph (Log l ''Callback %s has thrown an exception: %s'' [LogStr s, LogStr w])"
  "well_typed ph (Log l ''Callback %s has thrown an unknown exception'' [LogStr s])"
  "well_typed ph (Log l ''Cannot handle user call response : unknown user call response type'' [])"
  "well_typed ph (Log l ''Sending bytes failed'' [])"
  "well_typed ph (Log l ''Bytes message creation failed'' [])"
  "well_typed ph (Log l ''RECEIVED VALID RESPONSE'' [])"
  "well_typed ph (Log l ''Outbound queue contains an unsupported message'' [])"
  by (simp_all add: well_typed_def mismatched_log_def unknown_message_def log_typed_def conversions_def
      c_str_def)

text \<open>The three log calls that may not fit; the first never does.\<close>

lemma well_typed_unknown [simp]: "well_typed ph (unknown_message ph request)"
  by (auto simp: well_typed_def mismatched_log_def unknown_message_def log_typed_def conversions_def
      c_str_def)

lemma well_typed_greeting [simp]:
  "well_typed ph (Log Info ''Received greeting from %d'' [LogUnsigned i])"
  by (auto simp: well_typed_def mismatched_log_def unknown_message_def log_typed_def conversions_def
      c_str_def)

lemma well_typed_limit [simp]:
  "well_typed ph (Log Error
     ''Return function contains too many arguments.The limit is currently set to %d arguments'' [max_arguments_arg ph])"
  by (auto simp: well_typed_def mismatched_log_def unknown_message_def log_typed_def conversions_def
      c_str_def)

lemma message_typed_simps [simp]:
  "getMessage m = Request r \<Longrightarrow> message_typed m"
  "getMessage m = Greeting i \<Longrightarrow> message_typed m"
  by (simp_all add: message_typed_def)

lemma call_hook_typed [simp]:
  "events_typed ph (call_hook ConnectHook h)" "events_typed ph (call_hook DisconnectHook h)"
  by (auto simp: call_hook_def split: option.split)


subsection \<open>The handlers\<close>

lemma UserCallRequestHandler_typed:
  assumes "UserCallRequestHandler_handleMessage ph msg uc s = Inr (r, s', es)"
  shows "events_typed ph es \<and> (\<exists>h. r = HandledRequest h \<and> message_typed (m_responseMessage h))"
proof -
  obtain req where "getMessage msg = Request req"
    using assms by (auto simp: UserCallRequestHandler_handleMessage_def Let_def split: message_body.splits)
  then show ?thesis
    using assms
    by (auto simp: UserCallRequestHandler_handleMessage_def handleFunctionCallRequest_def Let_def
        rbind_eq_Inr bridge_defs message_typed_def split: user_call_request.splits option.splits)
qed

lemma HostApiRequestHandler_typed:
  "HostApiRequestHandler_handleMessage msg r s = Inr (s', es) \<Longrightarrow> events_typed ph es"
  by (auto simp: HostApiRequestHandler_handleMessage_def handleBytes_def Let_def rbind_eq_Inr
      split: host_api_request.splits option.splits if_splits)

lemma HostApiResponseHandler_typed: "events_typed ph (HostApiResponseHandler_handleMessage msg r s)"
  by (auto simp: HostApiResponseHandler_handleMessage_def handleNeighborList_def handleNeighbor_def
      Let_def split: host_api_response.split option.split)

definition handled_typed :: "handled \<Rightarrow> bool" where
  "handled_typed r \<longleftrightarrow> (case r of HandledRequest h \<Rightarrow> message_typed (m_responseMessage h) | _ \<Rightarrow> True)"

lemma MessageHandler_typed:
  assumes "MessageHandler_handleMessage ph msg s = Inr (r, s', es)"
  shows "events_typed ph es \<and> handled_typed r"
proof (cases "\<exists>req uc. getMessage msg = Request req \<and> getRequest req = UserCallRequest uc")
  case True
  then obtain uc u where "UserCallRequestHandler_handleMessage ph msg uc (m_userCallRequestHandler s) = Inr (r, u, es)"
    using assms by (auto simp: MessageHandler_handleMessage_def rbind_eq_Inr)
  from UserCallRequestHandler_typed [OF this] show ?thesis by (auto simp: handled_typed_def)
next
  case False
  then show ?thesis
    using assms HostApiRequestHandler_typed HostApiResponseHandler_typed
    by (auto simp: MessageHandler_handleMessage_def Let_def rbind_eq_Inr handled_typed_def
        response_handle_def
        split: message_body.splits request_body.splits response_body.splits user_call_response.splits)
qed

lemma run_call_typed: "events_typed ph (snd (run_call i s))"
  by (auto simp: run_call_def callbackWrapper_def Let_def
      split: call_state.split option.split callback_outcome.split prod.split)


subsection \<open>The connection\<close>

lemma tcp_listen_typed: "tcp_listen l a s = (s', es) \<Longrightarrow> events_typed ph es"
  by (auto simp: tcp_listen_def Let_def split: if_splits)

lemma tcp_close_typed: "tcp_close s = Inr (s', es) \<Longrightarrow> events_typed ph es"
  by (auto simp: tcp_close_def rbind_eq_Inr)

lemma receive_calls_typed: "receive_calls rs s = Inr (s', es) \<Longrightarrow> events_typed ph es"
proof (induction rs arbitrary: s es)
  case Nil
  then show ?case by simp
next
  case (Cons c rs)
  obtain r n where c: "c = (r, n)" by fastforce
  obtain ret s1 es1 es2 where t: "tcp_receive r n s = Inr (ret, s1, es1)"
    and rs: "receive_calls rs s1 = Inr (s', es2)" and es: "es = es1 @ es2"
    using Cons.prems by (auto simp: c rbind_eq_Inr)
  have "events_typed ph es1"
    using t tcp_close_typed by (fastforce simp: tcp_receive_def Let_def rbind_eq_Inr split: if_splits)
  then show ?case using Cons.IH [OF rs] es by simp
qed

lemma deserialize_typed:
  "deserializeFromStream d b = Inr (ret, m, b', es) \<Longrightarrow> events_typed ph es"
  by (auto simp: deserializeFromStream_def rbind_eq_Inr dest: receive_calls_typed)

lemma greet_typed:
  assumes "greet d b = Inr (r, b', es)"
  shows "events_typed ph es"
proof (cases "isTCPClientConnected b")
  case True
  then obtain ret m b1 es1 where "deserializeFromStream d b = Inr (ret, m, b1, es1)"
    "es = SerializeToStream createGreetMessage # es1"
    using assms by (auto simp: greet_def Let_def rbind_eq_Inr split: option.splits)
  then show ?thesis using deserialize_typed by (auto simp: createGreetMessage_def)
next
  case False
  then show ?thesis using assms by (simp add: greet_def)
qed

lemma spin_reconnect_typed: "spin_reconnect env b = Inr (b', es) \<Longrightarrow> events_typed ph es"
  by (auto simp: spin_reconnect_def Let_def rbind_eq_Inr split: prod.splits if_splits
      dest: tcp_listen_typed tcp_close_typed greet_typed)


subsection \<open>Spins and turns\<close>

lemma spin_receive_typed:
  assumes "spin_receive ph b = Inr (b', es)"
  shows "events_typed ph es"
proof (cases "inbound b")
  case Nil
  then show ?thesis using assms by (simp add: spin_receive_Nil)
next
  case (Cons msg rest)
  then obtain r mh es1 where h: "MessageHandler_handleMessage ph msg (m_messageHandler b) = Inr (r, mh, es1)"
    using assms by (auto simp: spin_receive_Cons rbind_eq_Inr)
  then show ?thesis
    using assms Cons MessageHandler_typed [OF h]
    by (cases r) (auto simp: spin_receive_Cons Let_def handled_typed_def)
qed

lemma sendReturn_typed:
  assumes "sendReturn ph rnd h b = Inr (b', es)"
  shows "events_typed ph es"
proof -
  obtain ret where ret: "future_get (user_calls b) (getCallbackReturnContext h) = Inr ret"
    using assms by (auto simp: sendReturn_def rbind_eq_Inr)
  show ?thesis
  proof (cases ret)
    case None
    then show ?thesis using assms ret by (simp add: sendReturn_def)
  next
    case (Some r)
    then show ?thesis
      using assms ret
      by (auto simp: sendReturn_def rbind_eq_Inr Let_def createFunctionCallRequest_def case_prod_unfold
          split: if_splits)
  qed
qed

lemma sweep_typed: "sweep_requests ph rnd hs b = Inr (kept, b', es) \<Longrightarrow> events_typed ph es"
proof (induction hs arbitrary: b kept es)
  case (Cons h hs)
  then show ?case
    by (fastforce simp: rbind_eq_Inr split: option.splits if_splits dest: sendReturn_typed)
qed simp

lemma spin_typed: "spin ph rnd env b = Inr (b', es) \<Longrightarrow> events_typed ph es"
  by (auto simp: spin_def spin_connected_def rbind_eq_Inr split: if_splits
      dest: spin_receive_typed sweep_typed spin_reconnect_typed)

lemma outbound_visit_typed: "events_typed ph (snd (snd (outbound_visit h resp)))"
  by (auto simp: outbound_visit_def split: message_body.split)

lemma outboundThread_typed:
  assumes "outboundThread_step b = Inr (b', es)"
  shows "events_typed ph es"
  using assms
proof (cases rule: outboundThread_step_cases)
  case (turn q resp)
  then show ?thesis
    using outbound_visit_typed
    by (cases "outbound b") (auto simp: Let_def case_prod_unfold)
qed simp

lemma inboundThread_typed: "inboundThread_step d b = Inr (b', es) \<Longrightarrow> events_typed ph es"
  by (auto simp: inboundThread_step_def inbound_turn_def rbind_eq_Inr split: if_splits
      dest: deserialize_typed)

lemma sendBytes_loop_typed: "events_typed ph (snd (snd (sendBytes_loop ph rnd dst p n k r i b)))"
proof (induction "k - i" arbitrary: i b)
  case 0
  then show ?case by (simp add: sendBytes_loop.simps)
next
  case (Suc d)
  then have "events_typed ph (snd (snd (sendBytes_loop ph rnd dst p n k r (Suc i) b)))" for b by simp
  then show ?case
    by (simp add: sendBytes_loop.simps [of ph rnd dst p n k r i b] Let_def case_prod_unfold
        split: option.split)
qed

lemma api_step_typed: "events_typed ph (snd (snd (api_step ph rnd c b)))"
  using sendBytes_loop_typed
  by (cases c) (simp_all add: case_prod_unfold Let_def sendBytes_def)

text \<open>A mismatched log call has no text: formatting it is undefined behaviour.\<close>

lemma mismatched_log_faults:
  assumes "mismatched_log ph (Log l f args)"
  shows "format_text f args = Inl BadFormat"
proof -
  have "format_text ''Return function contains too many arguments.The limit is currently set to %d arguments'' [x] =
      Inl BadFormat" if "\<not> reads CHR ''d'' x" for x
    using that by (cases x) (auto simp: format_text_def c_str_def)
  then show ?thesis
    using assms by (auto simp: mismatched_log_def unknown_message_def format_text_def c_str_def)
qed

text \<open>
  C13. What a step emits, a spin, a call of the interface, a turn of a thread or the end of an action,
  in whatever state, is well typed with exactly three exceptions: the log call for a message of unknown
  kind, which passes a \<open>size_t\<close> to \<open>%d\<close>; that for a greeting whose id exceeds every \<open>int\<close>; and
  that for too many returned arguments, when the library's constant is not one a \<open>%d\<close> may read. The
  three are undefined behaviour in \<open>vsnprintf\<close>; every other log call has the arguments its format asks
  for and a text, only requests, greetings and the host's responses to user calls are serialised, and
  a payload is announced with its own size.
\<close>

theorem step_events_typed:
  assumes "bridge_step ph rnd b a es b'"
  shows "(\<forall>e \<in> set es. event_typed e \<longleftrightarrow> \<not> mismatched_log ph e) \<and>
    (\<forall>level format args. Log level format args \<in> set es \<longrightarrow>
      (format_text format args = Inl BadFormat \<longleftrightarrow> mismatched_log ph (Log level format args)))"
proof -
  have "events_typed ph es"
    using assms
  proof (cases rule: bridge_step.cases)
    case (api_call_step c r)
    then show ?thesis using api_step_typed [of ph rnd c b] by simp
  next
    case (finish_step i)
    then show ?thesis using run_call_typed [of ph i "user_calls b"] by (auto simp: finish_call_def split: prod.splits)
  qed (auto dest: spin_typed inboundThread_typed outboundThread_typed)
  then have typed: "\<forall>e \<in> set es. event_typed e \<longleftrightarrow> \<not> mismatched_log ph e" by (simp add: events_typed_def)
  moreover have "format_text f args = Inl BadFormat \<longleftrightarrow> mismatched_log ph (Log l f args)"
    if "Log l f args \<in> set es" for l f args
    using typed that mismatched_log_faults [of ph l f args] log_typed_formats [of f args] by fastforce
  ultimately show ?thesis by blast
qed

text \<open>A request is sent; a message of a kind the dispatcher does not know is reported.\<close>

theorem step_events_typed_witness:
  "(\<exists>b es b'. bridge_step sample_pheromones (\<lambda>n. 7) b OutboundAction es b' \<and>
    es = [SerializeToStream sample_request] \<and> (\<forall>e \<in> set es. event_typed e)) \<and>
   (\<exists>b es b' level format args. bridge_step sample_pheromones (\<lambda>n. 7) b (SpinAction sample_env) es b' \<and>
    es = [Log level format args] \<and> format_text format args = Inl BadFormat)"
proof
  let ?b = "sample_queue_bridge\<lparr>m_outboundThread := RunningThread\<rparr>"
  have "isTCPClientConnected ?b"
    using sample_bridge_simps(1) by (simp add: sample_queue_bridge_def isTCPClientConnected_def)
  then obtain b' where "outboundThread_step ?b = Inr (b', [SerializeToStream sample_request])"
    by (simp add: outboundThread_step_def outbound_turn_eq outbound_visit_def bridge_defs)
  then have step: "bridge_step sample_pheromones (\<lambda>n. 7) ?b OutboundAction [SerializeToStream sample_request] b'"
    by (simp add: bridge_step_simps)
  have "\<not> mismatched_log sample_pheromones (SerializeToStream sample_request)"
    by (simp add: mismatched_log_def unknown_message_def)
  with step_events_typed [OF step] step show "\<exists>b es b'. bridge_step sample_pheromones (\<lambda>n. 7) b OutboundAction es b' \<and>
    es = [SerializeToStream sample_request] \<and> (\<forall>e \<in> set es. event_typed e)"
    by (intro exI conjI) (assumption | simp)+
next
  let ?m = "\<lparr>getSourceId = 1, getDestinationId = 2, getMessage = OtherMessage 9\<rparr>"
  let ?b = "sample_bridge\<lparr>m_inboundQueue := push ?m (m_inboundQueue sample_bridge)\<rparr>"
  have "isTCPClientConnected ?b" using sample_bridge_simps(1) by (simp add: isTCPClientConnected_def)
  then obtain b' where spin: "spin sample_pheromones (\<lambda>n. 7) sample_env ?b =
      Inr (b', [unknown_message sample_pheromones (OtherMessage 9)])"
    by (simp add: spin_served spin_connected_def spin_receive_Cons [of _ ?m "[]"] MessageHandler_handleMessage_def Let_def)
  then have step: "bridge_step sample_pheromones (\<lambda>n. 7) ?b (SpinAction sample_env)
      [unknown_message sample_pheromones (OtherMessage 9)] b'" by (simp add: bridge_step_simps)
  obtain level format args where log: "unknown_message sample_pheromones (OtherMessage 9) = Log level format args"
    by (simp add: unknown_message_def)
  then have bad: "mismatched_log sample_pheromones (Log level format args)"
    unfolding mismatched_log_def by metis
  from step_events_typed [OF step] log bad have "format_text format args = Inl BadFormat" by simp
  with step log show "\<exists>b es b' level format args. bridge_step sample_pheromones (\<lambda>n. 7) b (SpinAction sample_env) es b' \<and>
    es = [Log level format args] \<and> format_text format args = Inl BadFormat"
    by (intro exI conjI) (assumption | simp)+
qed

end
