(* ===== verification/HelloWorld.thy ===== *)
theory HelloWorld
  imports Prelude Pheromones UserCallRequestHandler MessageHandler TCPServer HiveMindBridgeImpl Spin
    HiveMindBridge BridgeSystem BasicLogger EventTypes
begin

section \<open>The example program\<close>

text \<open>
  \<open>examples/hello-world.cpp\<close>: a bridge on port 7001 with one action and two hooks, spun in a loop,
  with the logger of \<open>BasicLogger\<close>. The bridge's log calls, the hooks and the action print through
  that logger; what a step prints is the text the model returns. The hooks of the model are numbers:
  the two lambdas the program registers are \<open>connected_hook\<close> and \<open>disconnected_hook\<close>.
\<close>

subsection \<open>The program\<close>

definition helloWorldCallback :: CallbackFunction where
  "helloWorldCallback = Some (\<lambda>args. Returns None)"

definition helloWorldCallback_log ::
  "Logger \<Rightarrow> (LogRet \<times> Logger \<times> string) result" where
  "helloWorldCallback_log s = Logger_log Info ''Hello, I am C-3PO, human-cyborg relations.'' [] s"

definition connected_hook :: hook where "connected_hook = 0"

definition disconnected_hook :: hook where "disconnected_hook = 1"

text \<open>The body of a hook.\<close>

definition run_hook :: "hook \<Rightarrow> Logger \<Rightarrow> (LogRet \<times> Logger \<times> string) result" where
  "run_hook h s =
     (if h = connected_hook then Logger_log Info ''Client connected.'' [] s
      else if h = disconnected_hook then Logger_log Info ''Client disconnected.'' [] s
      else Inr (LogRetOk, s, []))"

text \<open>\<open>main\<close> up to its loop, given the results of the socket calls.\<close>

definition hello_bridge ::
  "pheromones \<Rightarrow> (nat \<Rightarrow> int) \<Rightarrow> int \<Rightarrow> int \<Rightarrow> int \<Rightarrow> HiveMindBridgeImpl \<times> event list" where
  "hello_bridge ph rnd socket_ret setsockopt_ret bind_ret =
     (let port = 7001;
          (bridge, es) = new_HiveMindBridge port 0 socket_ret setsockopt_ret bind_ret
      in (api_calls ph rnd
            [RegisterCustomActionNoManifestCall ''helloWorld'' helloWorldCallback,
             OnConnectCall (Some connected_hook), OnDisconnectCall (Some disconnected_hook)] bridge,
          es))"

text \<open>What the events of a step print, in order.\<close>

fun prints :: "event list \<Rightarrow> Logger \<Rightarrow> (Logger \<times> string) result" where
  "prints [] s = Inr (s, [])"
| "prints (e # es) s =
     rbind (case e of
              Log level format args \<Rightarrow> Logger_log level format args s
            | ConnectHook h \<Rightarrow> run_hook h s
            | DisconnectHook h \<Rightarrow> run_hook h s
            | _ \<Rightarrow> Inr (LogRetOk, s, []))
       (\<lambda>(_, s, out). rbind (prints es s) (\<lambda>(s, out'). Inr (s, out @ out')))"

text \<open>One pass of the loop of \<open>main\<close>; the sleep at its end has no effect on the state.\<close>

definition hello_pass ::
  "pheromones \<Rightarrow> (nat \<Rightarrow> int) \<Rightarrow> accept_env \<Rightarrow> HiveMindBridgeImpl \<Rightarrow> Logger \<Rightarrow>
    (HiveMindBridgeImpl \<times> Logger \<times> MessageDTO list \<times> string) result" where
  "hello_pass ph rnd env b s =
     rbind (spin ph rnd env b) (\<lambda>(b, es).
       rbind (prints es s) (\<lambda>(s, out). Inr (b, s, serialized es, out)))"

text \<open>
  Call \<open>i\<close> runs the program's action: the one action it registers, under the name \<open>helloWorld\<close>, which is
  what the bridge then finds under that name.
\<close>

definition runs_hello :: "nat \<Rightarrow> HiveMindBridgeImpl \<Rightarrow> bool" where
  "runs_hello i b =
     (i < length (m_calls (user_calls b)) \<and>
      (case m_calls (user_calls b) ! i of
         Running name args \<Rightarrow> name = ''helloWorld'' \<and> getCallback name (callback_map b) \<noteq> None
       | Ready r \<Rightarrow> False))"

text \<open>The thread of call \<open>i\<close>: what the action prints if it is the one that runs, and what the wrapper logs.\<close>

definition hello_action ::
  "nat \<Rightarrow> HiveMindBridgeImpl \<Rightarrow> Logger \<Rightarrow> (HiveMindBridgeImpl \<times> Logger \<times> string) result" where
  "hello_action i b s =
     rbind (if runs_hello i b then helloWorldCallback_log s else Inr (LogRetOk, s, [])) (\<lambda>(_, s, out).
       let (b, es) = finish_call i b
       in rbind (prints es s) (\<lambda>(s, out'). Inr (b, s, out @ out')))"


subsection \<open>The console\<close>

text \<open>
  Typed events print: the only way a log call of the program can fail is a text of more than
  \<open>INT_MAX\<close> characters.
\<close>

lemma Logger_log_typed:
  assumes "log_typed format args" "Logger_log level format args s = Inl e"
  shows "e = LengthError"
proof -
  obtain t where "format_text format args = Inr t" using log_typed_formats [OF assms(1)] by blast
  then show ?thesis
    using assms(2) by (simp add: Logger_log_def formatAndAppend_eq flush_def Let_def split: if_splits)
qed

lemma hook_formats [simp]:
  "format_text ''Client connected.'' [] = Inr ''Client connected.''"
  "format_text ''Client disconnected.'' [] = Inr ''Client disconnected.''"
  "format_text ''Hello, I am C-3PO, human-cyborg relations.'' [] =
     Inr ''Hello, I am C-3PO, human-cyborg relations.''"
  "format_text ''Listening for incoming clients on port %d...'' [LogInt 7001] =
     Inr ''Listening for incoming clients on port 7001...''"
  by (simp_all add: format_text_def c_str_def decimal_def digits.simps as_int_def
      char_of_def bit_0)

lemma Logger_log_text:
  assumes "format_text format args = Inr t" "int (length t) \<le> INT_MAX" "m_accumulatedString s = []"
  shows "Logger_log level format args s = Inr (LogRetOk, s, t @ [CHR 0x0A])"
  using assms by (simp add: Logger_log_def formatAndAppend_eq flush_def Let_def)

lemma prints_typed:
  assumes "\<forall>ev \<in> set es. event_typed ev" "prints es s = Inl e"
  shows "e = LengthError"
  using assms
proof (induction es arbitrary: s)
  case Nil
  then show ?case by simp
next
  case (Cons ev es)
  have hook: "x = LengthError" if "run_hook h s = Inl x" for h x
    using that
    by (auto simp: run_hook_def Logger_log_def formatAndAppend_eq flush_def Let_def split: if_splits)
  show ?case
    using Cons hook Logger_log_typed
    by (cases ev) (auto simp: rbind_eq_Inl)
qed


subsection \<open>The bridge of the program\<close>

lemma hello_bridge_simps:
  fixes ph rnd so se bi
  defines "b \<equiv> fst (hello_bridge ph rnd so se bi)"
  shows "\<not> isTCPClientConnected b" "inbound b = []" "outbound b = []" "m_inboundRequestsQueue b = []"
    "m_keepAliveNbSpin b = 0" "m_calls (user_calls b) = []" "m_port (m_tcpServer b) = 7001"
    "m_onConnect (m_tcpServer b) = Some connected_hook"
    "callback_map b = snd (registerCallback ''helloWorld'' helloWorldCallback [] empty_callback_map)"
  by (simp_all add: b_def hello_bridge_def new_HiveMindBridge_def new_HiveMindBridgeImpl_def
      new_MessageHandler_def registerCustomAction_noManifest_def registerCallback_noManifest_def
      set_callback_map_def bridge_onConnect_def bridge_onDisconnect_def tcp_onConnect_def
      tcp_onDisconnect_def Let_def case_prod_unfold isTCPClientConnected_def tcp_isClientConnected_def
      new_TCPServer_def tcp_init_def)

lemma hello_bridge_wf: "bridge_wf (fst (hello_bridge ph rnd so se bi))"
  using hello_bridge_simps [of ph rnd so se bi]
  by (auto simp: bridge_wf_def user_calls_inv_def)

lemma hello_bridge_callback:
  "getCallback ''helloWorld'' (callback_map (fst (hello_bridge ph rnd so se bi))) =
     Some helloWorldCallback"
  by (simp add: hello_bridge_simps getCallback_eq)

lemma receive_calls_stay:
  "m_clientFd s \<noteq> None \<Longrightarrow> \<forall>(r, n) \<in> set rs. r \<noteq> 0 \<Longrightarrow> receive_calls rs s = Inr (s, [])"
proof (induction rs)
  case (Cons c rs)
  then show ?case by (cases c) (auto simp: tcp_receive_def)
qed simp

text \<open>The spin that accepts and greets a client which stays connected, with everything it emits.\<close>

lemma spin_accept:
  assumes "\<not> isTCPClientConnected b" "m_keepAliveNbSpin b = 0"
    and "0 \<le> listen_result env" "0 \<le> accept_result env" "stays_connected (greet_read env)"
    and "handleGreet (read_message (greet_read env)) = Some i"
  shows "spin ph rnd env b =
    Inr (b\<lparr>m_tcpServer := (m_tcpServer b)\<lparr>m_clientFd := Some (accept_result env), m_isClientConnected := True\<rparr>,
           m_inboundThread := RunningThread, m_outboundThread := RunningThread, m_swarmAgentID := i\<rparr>,
         [Log Info ''Listening for incoming clients on port %d...'' [LogInt (m_port (m_tcpServer b))]] @
         call_hook ConnectHook (m_onConnect (m_tcpServer b)) @ [SerializeToStream createGreetMessage])"
proof -
  let ?b = "b\<lparr>m_inboundThread := NoThread, m_outboundThread := NoThread\<rparr>"
  let ?s = "(m_tcpServer b)\<lparr>m_clientFd := Some (accept_result env), m_isClientConnected := True\<rparr>"
  have listen: "tcp_listen (listen_result env) (accept_result env) (m_tcpServer b) =
      (?s, [Log Info ''Listening for incoming clients on port %d...'' [LogInt (m_port (m_tcpServer b))]] @
        call_hook ConnectHook (m_onConnect (m_tcpServer b)))"
    using assms(3,4) by (simp add: tcp_listen_def Let_def)
  have "receive_calls (recv_results (greet_read env)) ?s = Inr (?s, [])"
    by (rule receive_calls_stay) (use assms(5) in \<open>simp_all add: stays_connected_def\<close>)
  then have "deserializeFromStream (greet_read env) (?b\<lparr>m_tcpServer := ?s\<rparr>) =
      Inr (read_ok (greet_read env), read_message (greet_read env), ?b\<lparr>m_tcpServer := ?s\<rparr>, [])"
    by (simp add: deserializeFromStream_def)
  then have "greet (greet_read env) (?b\<lparr>m_tcpServer := ?s\<rparr>) =
      Inr (True, ?b\<lparr>m_tcpServer := ?s, m_swarmAgentID := i\<rparr>, [SerializeToStream createGreetMessage])"
    using assms(6) by (simp add: greet_def isTCPClientConnected_def tcp_isClientConnected_def)
  then have "spin_reconnect env b =
      Inr (?b\<lparr>m_tcpServer := ?s, m_swarmAgentID := i, m_inboundThread := RunningThread,
             m_outboundThread := RunningThread\<rparr>,
        ([Log Info ''Listening for incoming clients on port %d...'' [LogInt (m_port (m_tcpServer b))]] @
          call_hook ConnectHook (m_onConnect (m_tcpServer b))) @ [SerializeToStream createGreetMessage])"
    by (simp add: spin_reconnect_eq [OF listen] start_thread_def joinable_def)
  then show ?thesis
    using assms(1,2) by (simp add: spin_def spin_keepAlive_def)
qed


subsection \<open>A session of the program\<close>

text \<open>The pass after the action has returned: nothing is sent, the call is forgotten.\<close>

lemma pass_nothing_returned:
  assumes "isTCPClientConnected b" "inbound b = []" "m_inboundRequestsQueue b = [h]"
    and "m_callbackReturnContext h = Some i" "i < length (m_calls (user_calls b))"
    and "m_calls (user_calls b) ! i = Ready None"
  shows "\<exists>b'. hello_pass ph rnd env b s = Inr (b', s, [], []) \<and> m_inboundRequestsQueue b' = []"
proof -
  have "spin_connected ph rnd b = Inr (b\<lparr>m_inboundRequestsQueue := []\<rparr>, [])"
    using assms(2-6)
    by (simp add: spin_connected_def spin_receive_Nil is_ready_def sendReturn_def future_get_def bridge_defs)
  then show ?thesis
    by (simp add: hello_pass_def spin_served [OF assms(1)])
qed

text \<open>The passes of a session, one lemma each.\<close>

lemma prints_line:
  "format_text f args = Inr t \<Longrightarrow> length t < 100 \<Longrightarrow>
   Logger_log l f args new_Logger = Inr (LogRetOk, new_Logger, t @ [CHR 0x0A])"
  by (rule Logger_log_text) (simp_all add: INT_MAX_def new_Logger_def)

lemma first_pass:
  fixes b0
  assumes "b0 = fst (hello_bridge ph rnd so se bi)"
    and "0 \<le> listen_result env" "0 \<le> accept_result env" "stays_connected (greet_read env)"
    and "getMessage (read_message (greet_read env)) = Greeting agent"
  shows "\<exists>b1. hello_pass ph rnd env b0 new_Logger = Inr (b1, new_Logger, [createGreetMessage],
      ''Listening for incoming clients on port 7001...'' @ [CHR 0x0A] @ ''Client connected.'' @ [CHR 0x0A]) \<and>
    isTCPClientConnected b1 \<and> bridge_wf b1 \<and> inbound b1 = [] \<and> m_inboundRequestsQueue b1 = [] \<and>
    m_calls (user_calls b1) = [] \<and>
    getCallback ''helloWorld'' (callback_map b1) = Some helloWorldCallback"
proof -
  note b0 = hello_bridge_simps [of ph rnd so se bi, folded assms(1)]
  have "handleGreet (read_message (greet_read env)) = Some agent"
    using assms(5) by (simp add: handleGreet_iff)
  note accept = spin_accept [OF b0(1,5) assms(2-4) this]
  let ?b1 = "b0\<lparr>m_tcpServer := (m_tcpServer b0)\<lparr>m_clientFd := Some (accept_result env), m_isClientConnected := True\<rparr>,
    m_inboundThread := RunningThread, m_outboundThread := RunningThread, m_swarmAgentID := agent\<rparr>"
  have "hello_pass ph rnd env b0 new_Logger = Inr (?b1, new_Logger, [createGreetMessage],
      ''Listening for incoming clients on port 7001...'' @ [CHR 0x0A] @ ''Client connected.'' @ [CHR 0x0A])"
    unfolding hello_pass_def accept
    by (simp add: b0(7,8) call_hook_def run_hook_def prints_line [OF hook_formats(1)] prints_line [OF hook_formats(4)])
  moreover have "isTCPClientConnected ?b1" "bridge_wf ?b1" "inbound ?b1 = []" "m_inboundRequestsQueue ?b1 = []"
    "m_calls (user_calls ?b1) = []" "getCallback ''helloWorld'' (callback_map ?b1) = Some helloWorldCallback"
    using hello_bridge_wf [of ph rnd so se bi, folded assms(1)]
      hello_bridge_callback [of ph rnd so se bi, folded assms(1)]
    by (simp_all add: isTCPClientConnected_def tcp_isClientConnected_def b0 bridge_wf_def)
  ultimately show ?thesis by blast
qed

lemma action_prints:
  assumes "m_calls (user_calls b) = [Running ''helloWorld'' args]"
    and "getCallback ''helloWorld'' (callback_map b) = Some helloWorldCallback"
  shows "hello_action 0 b new_Logger = Inr (fst (finish_call 0 b), new_Logger,
      ''Hello, I am C-3PO, human-cyborg relations.'' @ [CHR 0x0A])"
    and "m_calls (user_calls (fst (finish_call 0 b))) = [Ready None]"
proof -
  have run: "run_call 0 (user_calls b) = ((user_calls b)\<lparr>m_calls := [Ready None]\<rparr>, [])"
    using assms by (simp add: run_call_def callbackWrapper_def call_function_def helloWorldCallback_def)
  then show "hello_action 0 b new_Logger = Inr (fst (finish_call 0 b), new_Logger,
      ''Hello, I am C-3PO, human-cyborg relations.'' @ [CHR 0x0A])"
    using assms by (simp add: hello_action_def runs_hello_def helloWorldCallback_log_def prints_line [OF hook_formats(3)] finish_call_def)
  show "m_calls (user_calls (fst (finish_call 0 b))) = [Ready None]" using run by simp
qed

text \<open>
  C38. A session of the example program: \<open>main\<close> sets the bridge up without printing anything; the pass
  in which a client connects prints that it listens on port 7001 and that the client connected, and
  greets it; when a remote call of \<open>helloWorld\<close> has come in, the next pass acknowledges it silently;
  the action prints its one line; and the pass after that sends nothing, as the action returns no
  payload, and has forgotten the call.
\<close>

theorem hello_world_session:
  assumes "socket_ret \<noteq> 0" "setsockopt_ret \<noteq> -1" "0 \<le> bind_ret"
    and "0 \<le> listen_result env" "0 \<le> accept_result env" "stays_connected (greet_read env)"
    and "getMessage (read_message (greet_read env)) = Greeting agent"
    and "getFunctionName fc = ''helloWorld''"
  shows "\<exists>b0 b1 b2 b3 b4.
    hello_bridge ph rnd socket_ret setsockopt_ret bind_ret = (b0, []) \<and>
    hello_pass ph rnd env b0 new_Logger = Inr (b1, new_Logger, [createGreetMessage],
      ''Listening for incoming clients on port 7001...'' @ [CHR 0x0A] @ ''Client connected.'' @ [CHR 0x0A]) \<and>
    hello_pass ph rnd env2 (b1\<lparr>m_inboundQueue := push (call_message src dst rid smod dmod fc) (m_inboundQueue b1)\<rparr>)
      new_Logger = Inr (b2, new_Logger, [call_ack ph src dst rid smod], []) \<and>
    hello_action 0 b2 new_Logger =
      Inr (b3, new_Logger, ''Hello, I am C-3PO, human-cyborg relations.'' @ [CHR 0x0A]) \<and>
    hello_pass ph rnd env3 b3 new_Logger = Inr (b4, new_Logger, [], []) \<and>
    m_inboundRequestsQueue b4 = []"
proof -
  let ?b0 = "fst (hello_bridge ph rnd socket_ret setsockopt_ret bind_ret)"
  have begins: "hello_bridge ph rnd socket_ret setsockopt_ret bind_ret = (?b0, [])"
    using assms(1-3) by (simp add: hello_bridge_def new_HiveMindBridge_def new_TCPServer_def tcp_init_def
        Let_def case_prod_unfold)
  obtain b1 where first: "hello_pass ph rnd env ?b0 new_Logger = Inr (b1, new_Logger, [createGreetMessage],
      ''Listening for incoming clients on port 7001...'' @ [CHR 0x0A] @ ''Client connected.'' @ [CHR 0x0A])"
    and b1: "isTCPClientConnected b1" "bridge_wf b1" "inbound b1 = []" "m_inboundRequestsQueue b1 = []"
    "m_calls (user_calls b1) = []" "getCallback ''helloWorld'' (callback_map b1) = Some helloWorldCallback"
    using first_pass [OF refl assms(4-7)] by blast
  let ?b1 = "b1\<lparr>m_inboundQueue := push (call_message src dst rid smod dmod fc) (m_inboundQueue b1)\<rparr>"
  have "isTCPClientConnected ?b1" "bridge_wf ?b1" "m_inboundRequestsQueue ?b1 = []"
    "inbound ?b1 = [call_message src dst rid smod dmod fc]"
    "getCallback (getFunctionName fc) (callback_map ?b1) = Some helloWorldCallback"
    using b1 assms(8) by (simp_all add: isTCPClientConnected_def bridge_wf_def)
  from spin_call_message [OF this, of ph rnd env2] obtain b2
    where b2: "spin ph rnd env2 ?b1 = Inr (b2, [SerializeToStream (call_ack ph src dst rid smod)])"
    "isTCPClientConnected b2" "inbound b2 = []"
    "m_inboundRequestsQueue b2 = [call_handle ph src dst rid smod fc 0]"
    "m_calls (user_calls b2) = [Running ''helloWorld'' (getArguments fc)]"
    "getCallback ''helloWorld'' (callback_map b2) = Some helloWorldCallback"
    using b1(5,6) assms(8) by auto
  then have second: "hello_pass ph rnd env2 ?b1 new_Logger =
      Inr (b2, new_Logger, [call_ack ph src dst rid smod], [])"
    by (simp add: hello_pass_def)
  note action = action_prints [OF b2(5,6)]
  let ?b3 = "fst (finish_call 0 b2)"
  have "isTCPClientConnected ?b3" "inbound ?b3 = []"
    "m_inboundRequestsQueue ?b3 = [call_handle ph src dst rid smod fc 0]"
    using b2(2-4) by (simp_all add: isTCPClientConnected_def)
  from pass_nothing_returned [OF this, of 0 ph rnd env3 new_Logger] action(2)
  obtain b4 where "hello_pass ph rnd env3 ?b3 new_Logger = Inr (b4, new_Logger, [], [])"
    "m_inboundRequestsQueue b4 = []"
    by (auto simp: call_handle_def simp del: finish_call_frame(12))
  with begins first second action(1) show ?thesis by blast
qed

definition sample_hello_call :: FunctionCallRequestDTO where
  "sample_hello_call = \<lparr>getFunctionName = ''helloWorld'', getArguments = [0, 0], getArgumentsLength = 0\<rparr>"

theorem hello_world_session_witness:
  "\<exists>b0 b1. hello_bridge sample_pheromones (\<lambda>n. 0) 3 0 0 = (b0, []) \<and>
    hello_pass sample_pheromones (\<lambda>n. 0) sample_env b0 new_Logger =
      Inr (b1, new_Logger, [createGreetMessage],
        ''Listening for incoming clients on port 7001...'' @ [CHR 0x0A] @ ''Client connected.'' @ [CHR 0x0A])"
proof -
  have "0 \<le> listen_result sample_env" "0 \<le> accept_result sample_env" "stays_connected (greet_read sample_env)"
    "getMessage (read_message (greet_read sample_env)) = Greeting 42"
    "getFunctionName sample_hello_call = ''helloWorld''"
    by (simp_all add: sample_env_def stays_connected_def sample_hello_call_def)
  from hello_world_session [OF _ _ _ this, of 3 0 0 sample_pheromones "\<lambda>n. 0" sample_env 1 2 9 BUZZ HOST sample_env]
  show ?thesis by auto
qed

end
