(* ===== verification/Executions.thy ===== *)
theory Executions
  imports Prelude Pheromones Handles UserCallRequestHandler MessageHandler HiveMindBridgeImpl
    OutboundQueue Spin HiveMindBridge BridgeSystem Inbound
begin

section \<open>Executions and what they conserve\<close>

text \<open>
  An execution is a sequence of steps of \<open>bridge_step\<close> from a new bridge; its trace lists for every
  step the bridge before it, the action and the events. The locale \<open>history_invariant\<close> is what a
  relation between the trace and the bridge has to satisfy to hold along every execution. On it rest
  the two laws of the inbound side: messages are taken in the order they arrived, none lost and none
  twice, and every request of another agent is answered exactly once, in that order.
\<close>

subsection \<open>Executions\<close>

type_synonym transition = "HiveMindBridgeImpl \<times> action \<times> event list"

inductive bridge_run ::
  "pheromones \<Rightarrow> (nat \<Rightarrow> int) \<Rightarrow> transition list \<Rightarrow> HiveMindBridgeImpl \<Rightarrow> bool"
  for ph :: pheromones and rnd :: "nat \<Rightarrow> int"
where
  run_new: "initial_bridge b \<Longrightarrow> bridge_run ph rnd [] b"
| run_step: "bridge_run ph rnd tr b \<Longrightarrow> bridge_step ph rnd b a es b' \<Longrightarrow>
    bridge_run ph rnd (tr @ [(b, a, es)]) b'"

lemma bridge_run_reachable: "bridge_run ph rnd tr b \<Longrightarrow> bridge_reachable ph rnd b"
  by (induction rule: bridge_run.induct) (blast intro: bridge_reachable.intros)+

lemma reachable_bridge_run: "bridge_reachable ph rnd b \<Longrightarrow> \<exists>tr. bridge_run ph rnd tr b"
  by (induction rule: bridge_reachable.induct) (blast intro: bridge_run.intros)+

lemma bridge_run_work: "bridge_run ph rnd tr b \<Longrightarrow> work_inv b"
  by (rule work.reachable_inv [OF bridge_run_reachable])

locale history_invariant =
  fixes ph :: pheromones and rnd :: "nat \<Rightarrow> int"
    and holds :: "transition list \<Rightarrow> HiveMindBridgeImpl \<Rightarrow> bool"
  assumes initially: "initial_bridge b \<Longrightarrow> holds [] b"
    and step: "holds tr b \<Longrightarrow> work_inv b \<Longrightarrow> bridge_step ph rnd b a es b' \<Longrightarrow>
      holds (tr @ [(b, a, es)]) b'"
begin

lemma along_run: "bridge_run ph rnd tr b \<Longrightarrow> holds tr b"
proof (induction rule: bridge_run.induct)
  case (run_new b)
  then show ?case by (rule initially)
next
  case (run_step tr b a es b')
  then show ?case using step bridge_run_work by blast
qed

end


subsection \<open>What a step moves\<close>

text \<open>The message a step puts on the inbound queue, the one it takes, and what it serializes.\<close>

fun arrived :: "transition \<Rightarrow> MessageDTO list" where
  "arrived (b, InboundAction d, es) =
     (if isTCPClientConnected b \<and> read_ok d then [read_message d] else [])"
| "arrived _ = []"

fun taken :: "transition \<Rightarrow> MessageDTO list" where
  "taken (b, SpinAction env, es) = (if isTCPClientConnected b then take 1 (inbound b) else [])"
| "taken _ = []"

fun emitted :: "transition \<Rightarrow> MessageDTO list" where
  "emitted (b, a, es) = serialized es"

definition arrivals :: "transition list \<Rightarrow> MessageDTO list" where
  "arrivals tr = concat (map arrived tr)"

definition takings :: "transition list \<Rightarrow> MessageDTO list" where
  "takings tr = concat (map taken tr)"

definition emissions :: "transition list \<Rightarrow> MessageDTO list" where
  "emissions tr = concat (map emitted tr)"

lemma trace_simps [simp]:
  "arrivals [] = []" "arrivals (tr @ [t]) = arrivals tr @ arrived t"
  "takings [] = []" "takings (tr @ [t]) = takings tr @ taken t"
  "emissions [] = []" "emissions (tr @ [t]) = emissions tr @ emitted t"
  by (simp_all add: arrivals_def takings_def emissions_def)

lemma initial_bridge_simps:
  assumes "initial_bridge b"
  shows "\<not> isTCPClientConnected b" "inbound b = []" "outbound b = []" "m_inboundRequestsQueue b = []"
    "m_calls (user_calls b) = []"
  using assms by (auto simp: initial_bridge_def)

text \<open>A spin with a client, without one, and the steps that are no spin.\<close>

lemma spin_cases:
  assumes "spin ph rnd env b = Inr (b', es)"
  obtains (served) b1 where "isTCPClientConnected b" "spin_connected ph rnd b = Inr (b1, es)"
      "b' = spin_keepAlive b1"
  | (waits) b1 where "\<not> isTCPClientConnected b" "spin_reconnect env b = Inr (b1, es)"
      "b' = spin_keepAlive b1"
  using assms by (auto simp: spin_def rbind_eq_Inr split: if_splits)

lemma spin_waits_frame:
  assumes "spin_reconnect env b = Inr (b1, es)"
  shows "inbound b1 = inbound b" "m_messageHandler b1 = m_messageHandler b"
    "m_inboundRequestsQueue b1 = m_inboundRequestsQueue b"
    "m_inboundResponsesMap b1 = m_inboundResponsesMap b"
    "serialized es = (if 0 \<le> accept_result env then [createGreetMessage] else [])"
  using spin_reconnect_run [of env b] assms by auto

lemma sendBytes_loop_silent:
  "serialized (snd (snd (sendBytes_loop ph rnd dst payload n k r i b))) = []"
proof (induction "k - i" arbitrary: i b)
  case 0
  then show ?case by (simp add: sendBytes_loop.simps)
next
  case (Suc d)
  then have "serialized (snd (snd (sendBytes_loop ph rnd dst payload n k r (Suc i) b'))) = []" for b'
    by (intro Suc.hyps(1)) simp
  then show ?case
    by (simp add: sendBytes_loop.simps [of ph rnd dst payload n k r i b] Let_def case_prod_unfold
        split: option.split)
qed

lemma api_step_silent: "api_step ph rnd c b = (r, b', es) \<Longrightarrow> serialized es = []"
  by (cases c) (auto simp: Let_def case_prod_unfold sendBytes_def, metis sendBytes_loop_silent snd_conv)

lemma run_call_silent: "serialized (snd (run_call i s)) = []"
  by (auto simp: run_call_def callbackWrapper_def Let_def
      split: call_state.split option.split callback_outcome.split)

lemma finish_silent: "finish_call i b = (b', es) \<Longrightarrow> serialized es = []"
  using run_call_silent [of i "user_calls b"] by (auto simp: finish_call_def split: prod.splits)

text \<open>The outbound thread sends requests and greetings only.\<close>

lemma outbound_visit_sends:
  "\<forall>m \<in> set (serialized (snd (snd (outbound_visit h resp)))). \<not> is_response m"
  by (auto simp: outbound_visit_def split: message_body.split)

lemma outbound_turn_sends:
  assumes "outboundThread_step b = Inr (b', es)"
  shows "filter is_response (serialized es) = []" "inbound b' = inbound b"
    "m_messageHandler b' = m_messageHandler b" "m_inboundRequestsQueue b' = m_inboundRequestsQueue b"
proof -
  have "filter is_response (serialized es) = [] \<and> inbound b' = inbound b \<and>
    m_messageHandler b' = m_messageHandler b \<and> m_inboundRequestsQueue b' = m_inboundRequestsQueue b"
    using assms
  proof (cases rule: outboundThread_step_cases)
    case (turn q resp)
    then have "\<forall>m \<in> set (serialized es). \<not> is_response m"
      using outbound_visit_sends
      by (cases "outbound b") (force simp: Let_def case_prod_unfold simp del: is_response.simps)+
    then show ?thesis using turn by (simp add: filter_empty_conv del: is_response.simps)
  next
    case finished
    then show ?thesis by simp
  qed
  then show "filter is_response (serialized es) = []" "inbound b' = inbound b"
    "m_messageHandler b' = m_messageHandler b" "m_inboundRequestsQueue b' = m_inboundRequestsQueue b"
    by blast+
qed

lemma sends_only_frame:
  "sends_only b b' \<Longrightarrow> inbound b' = inbound b \<and> m_messageHandler b' = m_messageHandler b \<and>
   m_inboundRequestsQueue b' = m_inboundRequestsQueue b"
  by (auto simp: sends_only_def)

lemma api_step_frame:
  assumes "api_step ph rnd c b = (r, b', es)"
  shows "inbound b' = inbound b" "m_inboundRequestsQueue b' = m_inboundRequestsQueue b"
    "m_calls (user_calls b') = m_calls (user_calls b)"
  using api_step_cases [of b ph rnd c] sends_only_frame [of b b'] assms
  by (auto simp: configures_def)


subsection \<open>Messages are taken in the order they arrive\<close>

lemma step_inbound:
  assumes "bridge_step ph rnd b a es b'"
  shows "inbound b @ arrived (b, a, es) = taken (b, a, es) @ inbound b'"
  using assms
proof (cases rule: bridge_step.cases)
  case (spin_step env)
  from spin_step(2) show ?thesis
  proof (cases rule: spin_cases)
    case (served b1)
    then show ?thesis
      using spin_connected_frame(8) [OF served(2)] by (cases "inbound b") (simp_all add: spin_step(1))
  next
    case (waits b1)
    then show ?thesis using spin_waits_frame(1) [OF waits(2)] by (simp add: spin_step(1))
  qed
next
  case (api_call_step c r)
  then show ?thesis using api_step_frame(1) by simp
next
  case (inbound_step d)
  from inbound_step(4) show ?thesis
    by (cases rule: inboundThread_step_cases) (simp_all add: inbound_step(1) push_def)
next
  case outbound_step
  then show ?thesis using outbound_turn_sends(2) by simp
next
  case (finish_step i)
  then show ?thesis using finish_call_frame(2) [of i b] by simp
qed

interpretation inbox: history_invariant ph rnd "\<lambda>tr b. arrivals tr = takings tr @ inbound b"
  for ph :: pheromones and rnd :: "nat \<Rightarrow> int"
proof (unfold_locales, goal_cases)
  case (1 b)
  then show ?case by (simp add: initial_bridge_simps)
next
  case (2 tr b a es b')
  then show ?case using step_inbound [of ph rnd b a es b'] by simp
qed


subsection \<open>Every request is answered once\<close>

text \<open>What identifies an exchange of two agents, read off its request and off its answer.\<close>

datatype question = LengthQuestion | DescriptionQuestion | CallQuestion | OtherQuestion

record exchange =
  asker :: u32
  asked :: u32
  exchange_id :: u32
  asking_module :: UserCallTargetDTO
  subject :: question

fun request_subject :: "user_call_request \<Rightarrow> question" where
  "request_subject FunctionListLengthRequest = LengthQuestion"
| "request_subject (FunctionDescriptionRequest i) = DescriptionQuestion"
| "request_subject (FunctionCallRequest fc) = CallQuestion"
| "request_subject OtherUserCallRequest = OtherQuestion"

fun response_subject :: "user_call_response \<Rightarrow> question option" where
  "response_subject (FunctionListLengthResponse n) = Some LengthQuestion"
| "response_subject (FunctionDescriptionResponse d) = Some DescriptionQuestion"
| "response_subject (FunctionCallResponse r) = Some CallQuestion"
| "response_subject (GenericUserCallResponse g) = Some OtherQuestion"
| "response_subject OtherUserCallResponse = None"

definition question_of :: "MessageDTO \<Rightarrow> exchange option" where
  "question_of m =
     (case getMessage m of
        Request r \<Rightarrow>
          (case getRequest r of
             UserCallRequest uc \<Rightarrow>
               Some \<lparr>asker = getSourceId m, asked = getDestinationId m, exchange_id = getRequestId r,
                     asking_module = getSource uc, subject = request_subject (getUserCallRequest uc)\<rparr>
           | _ \<Rightarrow> None)
      | _ \<Rightarrow> None)"

definition answer_of :: "MessageDTO \<Rightarrow> exchange option" where
  "answer_of m =
     (case getMessage m of
        Response r \<Rightarrow>
          (case getResponse r of
             UserCallResponse uc \<Rightarrow>
               map_option
                 (\<lambda>q. \<lparr>asker = getDestinationId m, asked = getSourceId m,
                       exchange_id = getResponseRequestId r,
                       asking_module = getResponseDestination uc, subject = q\<rparr>)
                 (response_subject (getUserCallResponse uc))
           | _ \<Rightarrow> None)
      | _ \<Rightarrow> None)"

definition questions :: "MessageDTO list \<Rightarrow> exchange option list" where
  "questions ms = filter (\<lambda>q. q \<noteq> None) (map question_of ms)"

lemma questions_append [simp]: "questions (ms @ ms') = questions ms @ questions ms'"
  by (simp add: questions_def)

lemma UserCallRequestHandler_answers_question:
  assumes "UserCallRequestHandler_handleMessage ph msg uc s = Inr (HandledRequest h, s', es)"
    "getMessage msg = Request req" "getRequest req = UserCallRequest uc"
  shows "answer_of (m_responseMessage h) = question_of msg"
  using assms
  by (cases "getUserCallRequest uc")
     (auto simp: UserCallRequestHandler_handleMessage_def Let_def rbind_eq_Inr bridge_defs answer_of_def
       question_of_def split: prod.splits)

lemma handled_answers_question:
  assumes "MessageHandler_handleMessage ph msg s = Inr (r, s', es)"
  shows "map answer_of (answers [r]) = questions [msg]"
proof (cases "\<exists>req uc. getMessage msg = Request req \<and> getRequest req = UserCallRequest uc")
  case True
  then obtain req uc where m: "getMessage msg = Request req" "getRequest req = UserCallRequest uc" by blast
  then obtain u where u: "UserCallRequestHandler_handleMessage ph msg uc (m_userCallRequestHandler s) = Inr (r, u, es)"
    using assms by (auto simp: MessageHandler_handleMessage_def rbind_eq_Inr)
  then obtain h where "r = HandledRequest h" using UserCallRequestHandler_answers by blast
  then show ?thesis
    using UserCallRequestHandler_answers_question [of ph msg uc _ h u es req] u m
    by (auto simp: questions_def question_of_def)
next
  case False
  then show ?thesis
    using assms
    by (auto simp: MessageHandler_handleMessage_def Let_def rbind_eq_Inr response_handle_def questions_def
        question_of_def split: message_body.splits request_body.splits response_body.splits
        user_call_response.splits)
qed

lemma step_answers:
  assumes "bridge_step ph rnd b a es b'" "work_inv b"
  shows "map answer_of (filter is_response (serialized es)) = questions (taken (b, a, es))"
  using assms(1)
proof (cases rule: bridge_step.cases)
  case (spin_step env)
  have wf: "bridge_wf b" using assms(2) by (simp add: work_inv_def)
  from spin_step(2) show ?thesis
  proof (cases rule: spin_cases)
    case (served b1)
    then obtain b2 es1 where rcv: "spin_receive ph b = Inr (b2, es1)"
      by (auto simp: spin_connected_def rbind_eq_Inr)
    show ?thesis
    proof (cases "inbound b")
      case Nil
      then have "serialized es1 = []" using rcv by (simp add: spin_receive_Nil)
      moreover obtain es2 where "es = es1 @ es2"
        "serialized es2 = return_messages ph rnd (user_calls b2) (m_inboundRequestsQueue b2) (rand_calls b2)"
        using spin_connected_eq [OF wf rcv, of rnd] served(2) by auto
      ultimately show ?thesis
        using Nil served(1)
        by (simp add: spin_step(1) return_messages_no_response questions_def del: is_response.simps)
    next
      case (Cons msg rest)
      then obtain r mh es1' where h: "MessageHandler_handleMessage ph msg (m_messageHandler b) = Inr (r, mh, es1')"
        using rcv by (auto simp: spin_receive_Cons rbind_eq_Inr)
      then have "filter is_response (serialized es) = answers [r]"
        using spin_message [OF served(1) wf Cons h, of rnd env] spin_step(2) by auto
      then show ?thesis
        using handled_answers_question [OF h] Cons served(1)
        by (simp add: spin_step(1) del: is_response.simps)
    qed
  next
    case (waits b1)
    then show ?thesis
      using spin_waits_frame(5) [OF waits(2)]
      by (simp add: spin_step(1) createGreetMessage_def questions_def)
  qed
next
  case (api_call_step c r)
  then show ?thesis by (simp add: api_step_silent questions_def)
next
  case (inbound_step d)
  from inbound_step(4) have "serialized es = []" by (cases rule: inboundThread_step_cases) simp_all
  then show ?thesis by (simp add: inbound_step(1) questions_def)
next
  case outbound_step
  then show ?thesis by (simp add: outbound_turn_sends(1) questions_def del: is_response.simps)
next
  case (finish_step i)
  then show ?thesis by (simp add: finish_silent questions_def)
qed

interpretation answering: history_invariant ph rnd
  "\<lambda>tr b. map answer_of (filter is_response (emissions tr)) = questions (takings tr)"
  for ph :: pheromones and rnd :: "nat \<Rightarrow> int"
proof (unfold_locales, goal_cases)
  case (1 b)
  then show ?case by (simp add: questions_def)
next
  case (2 tr b a es b')
  then show ?case using step_answers [of ph rnd b a es b'] by (simp del: is_response.simps)
qed

text \<open>
  In every execution the messages read from the connection are handled in the order they came,
  each once, and those not handled yet are queued in that order. Every request for the host's actions
  among those handled has been answered by exactly one response, in the same order, to the agent and
  the module that asked, under the id of its request and of its kind; no other response was sent by
  any thread. So the questions asked are those answered followed by those waiting in the queue.
\<close>

theorem requests_answered_once:
  assumes "bridge_run ph rnd tr b"
  shows "arrivals tr = takings tr @ inbound b \<and>
    questions (arrivals tr) = map answer_of (filter is_response (emissions tr)) @ questions (inbound b)"
  using inbox.along_run [OF assms] answering.along_run [OF assms] by (simp del: is_response.simps)


subsection \<open>A concrete execution\<close>

lemma sample_connect:
  assumes "bridge_run ph rnd tr b" "\<not> isTCPClientConnected b"
  shows "\<exists>b' es. bridge_run ph rnd (tr @ [(b, SpinAction sample_env, es)]) b' \<and> isTCPClientConnected b' \<and>
    m_inboundThread b' = RunningThread \<and> m_outboundThread b' = RunningThread \<and>
    inbound b' = inbound b \<and> m_messageHandler b' = m_messageHandler b \<and>
    m_inboundRequestsQueue b' = m_inboundRequestsQueue b \<and> serialized es = [createGreetMessage] \<and>
    m_inboundResponsesMap b' = m_inboundResponsesMap b \<and> m_keepAliveNbSpin b' = m_keepAliveNbSpin b \<and>
    (m_keepAliveNbSpin b = 0 \<longrightarrow> outbound b' = outbound b)"
proof -
  obtain s es where run: "spin ph rnd sample_env b =
      Inr (spin_keepAlive (b\<lparr>m_tcpServer := s, m_inboundThread := RunningThread,
        m_outboundThread := RunningThread, m_swarmAgentID := 42\<rparr>), es)" "m_isClientConnected s"
    "serialized es = [createGreetMessage]"
    using spin_wait [OF assms(2), of ph rnd sample_env]
    by (auto simp: sample_env_def handleGreet_def stays_connected_def)
  from run(2,3) run_step [OF assms(1) spin_step [OF run(1)]] show ?thesis
    by (fastforce simp: isTCPClientConnected_def tcp_isClientConnected_def spin_keepAlive_eq keepAlive_due_def)
qed

definition arrival :: "MessageDTO \<Rightarrow> action" where
  "arrival m = InboundAction \<lparr>recv_results = [], read_ok = True, read_message = m\<rparr>"

lemma sample_arrival:
  assumes "bridge_run ph rnd tr b" "isTCPClientConnected b" "m_inboundThread b = RunningThread" "message_wf m"
  shows "bridge_run ph rnd (tr @ [(b, arrival m, [])]) (b\<lparr>m_inboundQueue := push m (m_inboundQueue b)\<rparr>)"
proof (rule run_step [OF assms(1)])
  show "bridge_step ph rnd b (arrival m) [] (b\<lparr>m_inboundQueue := push m (m_inboundQueue b)\<rparr>)"
    using assms(2-4)
    by (simp add: arrival_def bridge_step_simps inboundThread_step_def inbound_turn_def
        deserializeFromStream_def read_wf_def)
qed

definition sample_question :: MessageDTO where
  "sample_question = query_message 1 2 3 BUZZ HOST FunctionListLengthRequest"

lemma sample_answer_run:
  "\<exists>tr b. bridge_run sample_pheromones (\<lambda>n. 7) tr b \<and> inbound b = [] \<and> arrivals tr = [sample_question]"
proof -
  let ?ph = sample_pheromones and ?rnd = "\<lambda>n. 7"
  let ?b0 = "fst (new_HiveMindBridge 5000 0 3 0 0)"
  have "initial_bridge ?b0" unfolding initial_bridge_def by blast
  then have "bridge_run ?ph ?rnd [] ?b0" by (rule run_new)
  then obtain b1 es1 where r1: "bridge_run ?ph ?rnd [(?b0, SpinAction sample_env, es1)] b1"
    and b1: "isTCPClientConnected b1" "m_inboundThread b1 = RunningThread" "inbound b1 = []"
    using sample_connect [of ?ph ?rnd "[]" ?b0] by auto
  let ?b2 = "b1\<lparr>m_inboundQueue := push sample_question (m_inboundQueue b1)\<rparr>"
  have "message_wf sample_question" by (simp add: sample_question_def query_message_def message_wf_def)
  from sample_arrival [OF r1 b1(1,2) this]
  have r2: "bridge_run ?ph ?rnd ([(?b0, SpinAction sample_env, es1)] @ [(b1, arrival sample_question, [])]) ?b2" .
  have b2: "isTCPClientConnected ?b2" "inbound ?b2 = [sample_question]" "bridge_wf ?b2"
    using b1 bridge_run_work [OF r2] by (simp_all add: isTCPClientConnected_def push_def work_inv_def)
  obtain h where "MessageHandler_handleMessage ?ph sample_question (m_messageHandler ?b2) =
      Inr (HandledRequest h, m_messageHandler ?b2, [])"
    using handle_length_query [of ?ph 1 2 3 BUZZ HOST] by (auto simp: sample_question_def)
  then obtain b3 es3 where "spin ?ph ?rnd sample_env ?b2 = Inr (b3, es3)" and b3: "inbound b3 = []"
    using spin_message [OF b2(1,3,2), of ?ph _ _ _ ?rnd sample_env] by blast
  from run_step [OF r2 spin_step [OF this(1)]] obtain tr
    where r3: "bridge_run ?ph ?rnd tr b3" and arr: "arrivals tr = [sample_question]"
    using b1(1) by (auto simp: arrival_def arrivals_def)
  with r3 b3 arr show ?thesis by blast
qed

lemma sample_questions: "questions [sample_question] = [question_of sample_question]" "questions [] = []"
  by (simp_all add: questions_def question_of_def sample_question_def query_message_def)

theorem requests_answered_once_witness:
  "\<exists>tr b. bridge_run sample_pheromones (\<lambda>n. 7) tr b \<and> inbound b = [] \<and>
    map answer_of (filter is_response (emissions tr)) = [question_of sample_question]"
proof -
  obtain tr b where r: "bridge_run sample_pheromones (\<lambda>n. 7) tr b" "inbound b = []"
    "arrivals tr = [sample_question]" using sample_answer_run by blast
  with requests_answered_once [OF r(1)] have
    "map answer_of (filter is_response (emissions tr)) = [question_of sample_question]"
    by (simp add: sample_questions del: is_response.simps)
  with r show ?thesis by (intro exI conjI)
qed

end
