(* ===== verification/CallResults.thy ===== *)
theory CallResults
  imports Prelude Pheromones UserCallbackMap Handles MessageUtils UserCallRequestHandler MessageHandler
    HiveMindBridgeImpl OutboundQueue Spin HiveMindBridge BridgeSystem Inbound Executions
    "HOL-Library.Multiset"
begin

section \<open>Every started call is returned once\<close>

text \<open>
  The calls of actions along an execution. A call is started by the spin that takes its request,
  finished by its own thread, and returned by the first spin that finds it finished. \<open>call_ledger\<close>
  relates the requests that started the calls, the calls, the handles that track them, the numbers
  of the calls already returned and the messages that returned them; it holds along every execution.
\<close>

subsection \<open>Requests for calls and what is due for them\<close>

definition call_request :: "MessageDTO \<Rightarrow> (UserCallTargetDTO \<times> FunctionCallRequestDTO) option" where
  "call_request m =
     (case getMessage m of
        Request r \<Rightarrow>
          (case getRequest r of
             UserCallRequest uc \<Rightarrow>
               (case getUserCallRequest uc of
                  FunctionCallRequest fc \<Rightarrow> Some (getSource uc, fc)
                | _ \<Rightarrow> None)
           | _ \<Rightarrow> None)
      | _ \<Rightarrow> None)"

definition starts_call :: "UserCallbackMap \<Rightarrow> MessageDTO \<Rightarrow> bool" where
  "starts_call m msg \<longleftrightarrow>
     (case call_request msg of Some (smod, fc) \<Rightarrow> getCallback (getFunctionName fc) m \<noteq> None | None \<Rightarrow> False)"

text \<open>A return: who sends it, to which agent and module, and the call it makes there.\<close>

record call_return =
  return_from :: u32
  return_to :: u32
  return_module :: UserCallTargetDTO
  return_call :: FunctionCallRequestDTO

definition return_of :: "MessageDTO \<Rightarrow> call_return option" where
  "return_of m =
     (case getMessage m of
        Request r \<Rightarrow>
          (case getRequest r of
             UserCallRequest uc \<Rightarrow>
               (case getUserCallRequest uc of
                  FunctionCallRequest fc \<Rightarrow>
                    Some \<lparr>return_from = getSourceId m, return_to = getDestinationId m,
                          return_module = getDestination uc, return_call = fc\<rparr>
                | _ \<Rightarrow> None)
           | _ \<Rightarrow> None)
      | _ \<Rightarrow> None)"

text \<open>What is to be returned for the request \<open>msg\<close> whose call is in state \<open>c\<close>.\<close>

definition due_return :: "pheromones \<Rightarrow> MessageDTO \<Rightarrow> call_state \<Rightarrow> call_return option" where
  "due_return ph msg c =
     (case (call_request msg, c) of
        (Some (smod, fc), Ready (Some r)) \<Rightarrow>
          if length (getReturnArgs r) \<le> FUNCTION_CALL_ARGUMENTS_MAX_LENGTH ph
          then Some \<lparr>return_from = getDestinationId msg, return_to = getSourceId msg, return_module = smod,
                     return_call = mk_FunctionCallRequestDTO ph (c_str (getReturnFunctionName r))
                       (getReturnArgs r) (length (getReturnArgs r))\<rparr>
          else None
      | _ \<Rightarrow> None)"

definition is_request_message :: "MessageDTO \<Rightarrow> bool" where
  "is_request_message m \<longleftrightarrow> (case getMessage m of Request _ \<Rightarrow> True | _ \<Rightarrow> False)"

text \<open>The numbers of the calls that a list of handles tracks.\<close>

fun call_numbers :: "InboundRequestHandle list \<Rightarrow> nat list" where
  "call_numbers [] = []"
| "call_numbers (h # hs) =
     (case m_callbackReturnContext h of Some i \<Rightarrow> i # call_numbers hs | None \<Rightarrow> call_numbers hs)"

lemma call_numbers_append [simp]: "call_numbers (hs @ hs') = call_numbers hs @ call_numbers hs'"
  by (induction hs) (auto split: option.split)

text \<open>
  The requests that started calls in a step, the numbers of the calls the step returned, and the
  messages it returned them with.
\<close>

fun started :: "transition \<Rightarrow> MessageDTO list" where
  "started (b, a, es) = filter (starts_call (callback_map b)) (taken (b, a, es))"

fun returned_numbers :: "transition \<Rightarrow> nat list" where
  "returned_numbers (b, SpinAction env, es) =
     (if isTCPClientConnected b
      then filter (is_ready (user_calls b)) (call_numbers (m_inboundRequestsQueue b)) else [])"
| "returned_numbers _ = []"

fun return_sends :: "transition \<Rightarrow> MessageDTO list" where
  "return_sends (b, SpinAction env, es) = filter is_request_message (serialized es)"
| "return_sends _ = []"

definition starts :: "transition list \<Rightarrow> MessageDTO list" where
  "starts tr = concat (map started tr)"

definition returned_calls :: "transition list \<Rightarrow> nat list" where
  "returned_calls tr = concat (map returned_numbers tr)"

definition returns :: "transition list \<Rightarrow> MessageDTO list" where
  "returns tr = concat (map return_sends tr)"

lemma call_trace_simps [simp]:
  "starts [] = []" "starts (t # tr) = started t @ starts tr" "starts (tr @ tr') = starts tr @ starts tr'"
  "returned_calls [] = []" "returned_calls (t # tr) = returned_numbers t @ returned_calls tr"
  "returned_calls (tr @ tr') = returned_calls tr @ returned_calls tr'"
  "returns [] = []" "returns (t # tr) = return_sends t @ returns tr" "returns (tr @ tr') = returns tr @ returns tr'"
  by (simp_all add: starts_def returned_calls_def returns_def)


subsection \<open>The ledger\<close>

definition ready_call :: "call_state list \<Rightarrow> nat \<Rightarrow> bool" where
  "ready_call calls i \<longleftrightarrow> i < length calls \<and> (case calls ! i of Ready _ \<Rightarrow> True | _ \<Rightarrow> False)"

lemma is_ready_eq: "is_ready u = ready_call (m_calls u)"
  by (intro ext) (simp add: is_ready_def ready_call_def)

text \<open>A handle has the addresses of the request that started its call.\<close>

definition tracks :: "MessageDTO list \<Rightarrow> InboundRequestHandle \<Rightarrow> bool" where
  "tracks msgs h \<longleftrightarrow>
     (case m_callbackReturnContext h of
        None \<Rightarrow> True
      | Some i \<Rightarrow> i < length msgs \<and> m_msgSourceId h = Some (getSourceId (msgs ! i)) \<and>
          m_msgDestinationId h = Some (getDestinationId (msgs ! i)) \<and>
          m_sourceModule h = map_option fst (call_request (msgs ! i)) \<and> call_request (msgs ! i) \<noteq> None)"

text \<open>A running call runs what its request asked for.\<close>

definition runs_request :: "MessageDTO \<Rightarrow> call_state \<Rightarrow> bool" where
  "runs_request msg c \<longleftrightarrow>
     (case c of
        Running name args \<Rightarrow>
          \<exists>smod fc. call_request msg = Some (smod, fc) \<and> getFunctionName fc = name \<and> getArguments fc = args
      | Ready _ \<Rightarrow> True)"

lemma runs_request_Ready [simp]: "runs_request msg (Ready r)"
  by (simp add: runs_request_def)

definition due_returns :: "pheromones \<Rightarrow> MessageDTO list \<Rightarrow> call_state list \<Rightarrow> nat list \<Rightarrow> call_return option list"
where
  "due_returns ph msgs calls is = filter (\<lambda>r. r \<noteq> None) (map (\<lambda>i. due_return ph (msgs ! i) (calls ! i)) is)"

definition call_ledger ::
  "pheromones \<Rightarrow> MessageDTO list \<Rightarrow> call_state list \<Rightarrow> InboundRequestHandle list \<Rightarrow> nat list \<Rightarrow>
    MessageDTO list \<Rightarrow> bool" where
  "call_ledger ph msgs calls hs fin rets \<longleftrightarrow>
     list_all2 runs_request msgs calls \<and>
     (\<forall>h \<in> set hs. tracks msgs h) \<and>
     mset (fin @ call_numbers hs) = mset [0 ..< length calls] \<and>
     (\<forall>i \<in> set fin. ready_call calls i) \<and>
     map return_of rets = due_returns ph msgs calls fin"

lemma due_returns_cong:
  "(\<And>i. i \<in> set is \<Longrightarrow> msgs ! i = msgs' ! i \<and> calls ! i = calls' ! i) \<Longrightarrow>
   due_returns ph msgs calls is = due_returns ph msgs' calls' is"
  unfolding due_returns_def by (metis (mono_tags, lifting) map_eq_conv)

lemma due_returns_append [simp]:
  "due_returns ph msgs calls (is @ js) = due_returns ph msgs calls is @ due_returns ph msgs calls js"
  by (simp add: due_returns_def)

lemma ledger_numbers:
  assumes "call_ledger ph msgs calls hs fin rets"
  shows "set fin \<union> set (call_numbers hs) = {..< length calls}" "distinct (fin @ call_numbers hs)"
    "length msgs = length calls"
proof -
  have m: "mset (fin @ call_numbers hs) = mset [0 ..< length calls]"
    using assms by (simp add: call_ledger_def)
  from mset_eq_setD [OF m] show "set fin \<union> set (call_numbers hs) = {..< length calls}"
    by (simp add: atLeast0LessThan)
  from mset_eq_imp_distinct_iff [OF m] show "distinct (fin @ call_numbers hs)" by simp
  show "length msgs = length calls" using assms by (auto simp: call_ledger_def dest: list_all2_lengthD)
qed

lemma tracks_append: "tracks msgs h \<Longrightarrow> tracks (msgs @ msgs') h"
  by (auto simp: tracks_def nth_append split: option.splits)

text \<open>A request that starts no call, one that does, a call that finishes, and a sweep.\<close>

lemma ledger_answer:
  assumes "call_ledger ph msgs calls hs fin rets" "m_callbackReturnContext h = None"
  shows "call_ledger ph msgs calls (hs @ [h]) fin rets"
  using assms by (auto simp: call_ledger_def tracks_def)

lemma ledger_start:
  assumes led: "call_ledger ph msgs calls hs fin rets"
    and "runs_request msg c" "tracks (msgs @ [msg]) h" "m_callbackReturnContext h = Some (length calls)"
  shows "call_ledger ph (msgs @ [msg]) (calls @ [c]) (hs @ [h]) fin rets"
proof -
  have fin: "i < length calls" if "i \<in> set fin" for i using ledger_numbers(1) [OF led] that by auto
  have "due_returns ph (msgs @ [msg]) (calls @ [c]) fin = due_returns ph msgs calls fin"
    using fin ledger_numbers(3) [OF led] by (intro due_returns_cong) (simp add: nth_append)
  moreover have "ready_call (calls @ [c]) i" if "i \<in> set fin" for i
    using led that fin [OF that] by (auto simp: call_ledger_def ready_call_def nth_append)
  ultimately show ?thesis
    using led assms(2-4)
    by (auto simp: call_ledger_def tracks_append list_all2_appendI)
qed

lemma ledger_finish:
  assumes led: "call_ledger ph msgs calls hs fin rets" and "\<not> ready_call calls i"
  shows "call_ledger ph msgs (calls[i := Ready r]) hs fin rets"
proof -
  have neq: "j \<noteq> i" if "j \<in> set fin" for j using led assms(2) that by (auto simp: call_ledger_def)
  then have "due_returns ph msgs (calls[i := Ready r]) fin = due_returns ph msgs calls fin"
    by (intro due_returns_cong) (metis nth_list_update_neq)
  moreover have "ready_call (calls[i := Ready r]) j" if "j \<in> set fin" for j
    using led that neq [OF that] by (auto simp: call_ledger_def ready_call_def)
  moreover have "list_all2 runs_request msgs (calls[i := Ready r])"
    using led
    by (cases "i < length calls") (auto simp: call_ledger_def list_all2_conv_all_nth nth_list_update)
  ultimately show ?thesis using led by (auto simp: call_ledger_def)
qed

lemma call_numbers_unfinished:
  "call_numbers (filter (unfinished u) hs) = filter (\<lambda>i. \<not> is_ready u i) (call_numbers hs)"
  by (induction hs) (auto simp: unfinished_def split: option.split)

lemma ledger_sweep:
  assumes led: "call_ledger ph msgs (m_calls u) hs fin rets"
    and rets': "map return_of rets' = due_returns ph msgs (m_calls u) (filter (is_ready u) (call_numbers hs))"
  shows "call_ledger ph msgs (m_calls u) (filter (unfinished u) hs)
    (fin @ filter (is_ready u) (call_numbers hs)) (rets @ rets')"
proof -
  have "mset (filter (is_ready u) (call_numbers hs)) + mset (filter (\<lambda>i. \<not> is_ready u i) (call_numbers hs)) =
      mset (call_numbers hs)"
    by (simp add: multiset_partition [symmetric])
  then have "mset ((fin @ filter (is_ready u) (call_numbers hs)) @ call_numbers (filter (unfinished u) hs)) =
      mset (fin @ call_numbers hs)"
    by (simp add: call_numbers_unfinished)
  moreover have "\<forall>i \<in> set (filter (is_ready u) (call_numbers hs)). ready_call (m_calls u) i"
    by (simp add: is_ready_eq)
  ultimately show ?thesis using led rets' by (auto simp: call_ledger_def)
qed

lemma ready_call_cases:
  "is_ready u i \<Longrightarrow> \<exists>r. i < length (m_calls u) \<and> m_calls u ! i = Ready r"
  by (auto simp: is_ready_def split: call_state.splits)

text \<open>The messages a sweep sends are those due.\<close>

lemma return_messages_due:
  assumes "\<forall>h \<in> set hs. tracks msgs h"
  shows "map return_of (return_messages ph rnd u hs n) =
    due_returns ph msgs (m_calls u) (filter (is_ready u) (call_numbers hs))"
  using assms
proof (induction hs arbitrary: n)
  case Nil
  then show ?case by (simp add: due_returns_def)
next
  case (Cons h hs)
  show ?case
  proof (cases "\<exists>i. m_callbackReturnContext h = Some i \<and> is_ready u i")
    case True
    then obtain i r where i: "m_callbackReturnContext h = Some i" "is_ready u i" "m_calls u ! i = Ready r"
      "i < length (m_calls u)"
      using ready_call_cases by blast
    moreover obtain smod fc where "call_request (msgs ! i) = Some (smod, fc)"
      "m_msgSourceId h = Some (getSourceId (msgs ! i))"
      "m_msgDestinationId h = Some (getDestinationId (msgs ! i))" "m_sourceModule h = Some smod"
      using Cons.prems i(1) by (auto simp: tracks_def)
    ultimately show ?thesis
      using Cons.IH Cons.prems
      by (cases r) (auto simp: returned_def due_returns_def due_return_def return_message_def return_of_def
          createFunctionCallRequest_def Let_def)
  next
    case False
    then have "returned ph u h = None"
      by (fastforce simp: returned_def is_ready_def split: option.split call_state.split)
    then show ?thesis using Cons False by (auto split: option.split)
  qed
qed


subsection \<open>The ledger along executions\<close>

lemma UserCallRequestHandler_starts:
  assumes step: "UserCallRequestHandler_handleMessage ph msg uc s = Inr (r, s', es)"
    and msg: "getMessage msg = Request req" "getRequest req = UserCallRequest uc"
    and inv: "user_calls_inv s"
  shows "if starts_call (m_callbackMap s) msg
    then \<exists>h c. r = HandledRequest h \<and> m_calls s' = m_calls s @ [c] \<and> runs_request msg c \<and>
      m_callbackReturnContext h = Some (length (m_calls s)) \<and>
      (length msgs = length (m_calls s) \<longrightarrow> tracks (msgs @ [msg]) h) \<and> \<not> ready_call [c] 0
    else m_calls s' = m_calls s \<and> (\<exists>h. r = HandledRequest h \<and> m_callbackReturnContext h = None)"
proof (cases "getUserCallRequest uc")
  case (FunctionCallRequest fc)
  then show ?thesis
    using step msg
    by (cases "getCallback (getFunctionName fc) (m_callbackMap s)")
       (auto simp: UserCallRequestHandler_handleMessage_def handleFunctionCallRequest_def Let_def bridge_defs
         starts_call_def call_request_def runs_request_def tracks_def nth_append ready_call_def)
next
  case (FunctionDescriptionRequest i)
  have map: "callback_map_inv (m_callbackMap s)" using inv by (simp add: user_calls_inv_def)
  show ?thesis
    using step msg FunctionDescriptionRequest
    by (auto simp: UserCallRequestHandler_handleMessage_def Let_def bridge_defs rbind_eq_Inr
        starts_call_def call_request_def dest!: handleFunctionDescriptionRequest_state [OF map])
qed (use step msg in \<open>auto simp: UserCallRequestHandler_handleMessage_def Let_def bridge_defs
       starts_call_def call_request_def\<close>)

lemma MessageHandler_starts:
  assumes step: "MessageHandler_handleMessage ph msg s = Inr (r, s', es)"
    and inv: "message_handler_inv s"
  shows "if starts_call (m_callbackMap (m_userCallRequestHandler s)) msg
    then \<exists>h c. r = HandledRequest h \<and>
      m_calls (m_userCallRequestHandler s') = m_calls (m_userCallRequestHandler s) @ [c] \<and>
      runs_request msg c \<and> m_callbackReturnContext h = Some (length (m_calls (m_userCallRequestHandler s))) \<and>
      (length msgs = length (m_calls (m_userCallRequestHandler s)) \<longrightarrow> tracks (msgs @ [msg]) h) \<and>
      \<not> ready_call [c] 0
    else m_calls (m_userCallRequestHandler s') = m_calls (m_userCallRequestHandler s) \<and>
      (\<forall>h. r = HandledRequest h \<longrightarrow> m_callbackReturnContext h = None)"
proof (cases "\<exists>req uc. getMessage msg = Request req \<and> getRequest req = UserCallRequest uc")
  case True
  then obtain req uc where m: "getMessage msg = Request req" "getRequest req = UserCallRequest uc" by blast
  then obtain u where "UserCallRequestHandler_handleMessage ph msg uc (m_userCallRequestHandler s) = Inr (r, u, es)"
    "s' = s\<lparr>m_userCallRequestHandler := u\<rparr>"
    using step by (auto simp: MessageHandler_handleMessage_def rbind_eq_Inr)
  then show ?thesis
    using UserCallRequestHandler_starts [OF _ m, of ph "m_userCallRequestHandler s" r u es msgs] inv
    by (auto simp: message_handler_inv_def)
next
  case False
  then have "\<not> starts_call (m_callbackMap (m_userCallRequestHandler s)) msg"
    by (auto simp: starts_call_def call_request_def split: message_body.splits request_body.splits)
  then show ?thesis
    using step False
    by (auto simp: MessageHandler_handleMessage_def Let_def rbind_eq_Inr response_handle_def
        split: message_body.splits request_body.splits response_body.splits user_call_response.splits)
qed

lemma not_request_answer:
  assumes "MessageHandler_handleMessage ph msg s = Inr (HandledRequest h, s', es)"
  shows "\<not> is_request_message (m_responseMessage h)"
  using handled_request_answer [OF assms] by (auto simp: is_request_message_def split: message_body.splits)

lemma return_messages_requests:
  "filter is_request_message (return_messages ph rnd u hs n) = return_messages ph rnd u hs n"
  by (induction hs arbitrary: n)
     (auto simp: return_message_def createFunctionCallRequest_def is_request_message_def Let_def
       split: option.split)

text \<open>What a served spin takes changes the ledger by the call it starts, if it starts one.\<close>

lemma spin_receive_ledger:
  assumes led: "call_ledger ph msgs (m_calls (user_calls b)) (m_inboundRequestsQueue b) fin rets"
    and wf: "bridge_wf b" and rcv: "spin_receive ph b = Inr (b1, es)"
  shows "call_ledger ph (msgs @ filter (starts_call (callback_map b)) (take 1 (inbound b)))
      (m_calls (user_calls b1)) (m_inboundRequestsQueue b1) fin rets \<and>
    filter (is_ready (user_calls b1)) (call_numbers (m_inboundRequestsQueue b1)) =
      filter (is_ready (user_calls b)) (call_numbers (m_inboundRequestsQueue b)) \<and>
    filter is_request_message (serialized es) = []"
proof (cases "inbound b")
  case Nil
  then show ?thesis using led rcv by (simp add: spin_receive_Nil)
next
  case (Cons msg rest)
  have inv: "message_handler_inv (m_messageHandler b)"
    using wf by (simp add: bridge_wf_def message_handler_inv_def)
  obtain r mh es1 where h: "MessageHandler_handleMessage ph msg (m_messageHandler b) = Inr (r, mh, es1)"
    using rcv Cons by (auto simp: spin_receive_Cons rbind_eq_Inr)
  have none: "serialized es1 = []" using MessageHandler_preserves(5) [OF inv h] .
  have len: "length msgs = length (m_calls (user_calls b))" by (rule ledger_numbers(3) [OF led])
  note start = MessageHandler_starts [OF h inv, of msgs]
  show ?thesis
  proof (cases "starts_call (callback_map b) msg")
    case True
    then obtain g c where g: "r = HandledRequest g"
      "m_calls (m_userCallRequestHandler mh) = m_calls (user_calls b) @ [c]" "runs_request msg c"
      "m_callbackReturnContext g = Some (length (m_calls (user_calls b)))" "tracks (msgs @ [msg]) g"
      "\<not> ready_call [c] 0"
      using start len by auto
    have b1: "b1 = b\<lparr>m_messageHandler := mh, m_inboundQueue := (m_inboundQueue b)\<lparr>m_queue := rest\<rparr>,
        m_inboundRequestsQueue := m_inboundRequestsQueue b @ [g]\<rparr>"
      "serialized es = [m_responseMessage g]"
      using rcv Cons h g(1) none by (auto simp: spin_receive_Cons)
    have "filter (ready_call (m_calls (user_calls b) @ [c])) (call_numbers (m_inboundRequestsQueue b)) =
        filter (ready_call (m_calls (user_calls b))) (call_numbers (m_inboundRequestsQueue b))"
      using ledger_numbers(1) [OF led]
      by (intro filter_cong refl) (auto simp: ready_call_def nth_append)
    then show ?thesis
      using ledger_start [OF led g(3,5,4)] True Cons g b1 not_request_answer h
      by (auto simp: is_ready_eq ready_call_def)
  next
    case False
    then have m: "m_calls (m_userCallRequestHandler mh) = m_calls (user_calls b)"
      "\<forall>g. r = HandledRequest g \<longrightarrow> m_callbackReturnContext g = None"
      using start by auto
    then show ?thesis
      using rcv Cons h False none led ledger_answer not_request_answer
      by (cases r) (auto simp: spin_receive_Cons is_ready_eq)
  qed
qed


lemma step_ledger:
  assumes led: "call_ledger ph msgs (m_calls (user_calls b)) (m_inboundRequestsQueue b) fin rets"
    and work: "work_inv b" and step: "bridge_step ph rnd b a es b'"
  shows "call_ledger ph (msgs @ started (b, a, es)) (m_calls (user_calls b')) (m_inboundRequestsQueue b')
    (fin @ returned_numbers (b, a, es)) (rets @ return_sends (b, a, es))"
  using step
proof (cases rule: bridge_step.cases)
  case (spin_step env)
  have wf: "bridge_wf b" using work by (simp add: work_inv_def)
  from spin_step(2) show ?thesis
  proof (cases rule: spin_cases)
    case (served b0)
    obtain b1 es1 where rcv: "spin_receive ph b = Inr (b1, es1)"
      using served(2) by (auto simp: spin_connected_def rbind_eq_Inr)
    obtain es2 where b0: "b0 = b1\<lparr>rand_calls := rand_calls b1 + length (serialized es2),
          m_inboundRequestsQueue := filter (unfinished (user_calls b1)) (m_inboundRequestsQueue b1)\<rparr>"
      and es: "es = es1 @ es2"
      and ret: "serialized es2 = return_messages ph rnd (user_calls b1) (m_inboundRequestsQueue b1) (rand_calls b1)"
      using spin_connected_eq [OF wf rcv, of rnd] served(2) by auto
    let ?msgs = "msgs @ filter (starts_call (callback_map b)) (take 1 (inbound b))"
    note led1 = spin_receive_ledger [OF led wf rcv]
    then have "\<forall>h \<in> set (m_inboundRequestsQueue b1). tracks ?msgs h" by (simp add: call_ledger_def)
    note due = return_messages_due [OF this, of ph rnd "user_calls b1" "rand_calls b1"]
    have "filter is_request_message (serialized es2) = serialized es2"
      unfolding ret by (rule return_messages_requests)
    then show ?thesis
      using ledger_sweep [OF conjunct1 [OF led1] due] led1 served b0 es ret
      by (simp add: spin_step(1))
  next
    case (waits b1)
    then show ?thesis
      using led spin_waits_frame [OF waits(2)]
      by (simp add: spin_step(1) createGreetMessage_def is_request_message_def)
  qed
next
  case (api_call_step c r)
  then show ?thesis using led api_step_frame(2,3) by simp
next
  case (inbound_step d)
  from inbound_step(4) show ?thesis
    by (cases rule: inboundThread_step_cases) (use led in \<open>simp_all add: inbound_step(1)\<close>)
next
  case outbound_step
  then show ?thesis using led outbound_turn_sends(3,4) by simp
next
  case (finish_step i)
  have b': "b' = fst (finish_call i b)" using finish_step(2) by simp
  have "call_ledger ph msgs (m_calls (fst (run_call i (user_calls b)))) (m_inboundRequestsQueue b) fin rets"
    using led ledger_finish [OF led, of i]
    by (auto simp: run_call_def Let_def ready_call_def split: call_state.split prod.split)
  then show ?thesis by (simp add: finish_step(1) b')
qed

interpretation ledger: history_invariant ph rnd
  "\<lambda>tr b. call_ledger ph (starts tr) (m_calls (user_calls b)) (m_inboundRequestsQueue b)
     (returned_calls tr) (returns tr)"
  for ph :: pheromones and rnd :: "nat \<Rightarrow> int"
proof (unfold_locales, goal_cases)
  case (1 b)
  then show ?case by (simp add: initial_bridge_simps call_ledger_def due_returns_def)
next
  case (2 tr b a es b')
  then show ?case using step_ledger by simp
qed


text \<open>
  In every execution, whatever the order in which requests arrive, actions finish and clients come
  and go: the calls are started by the requests for registered actions, one call each, in the order
  they are taken, and a running call runs the action with the arguments asked for. Every started call
  either has been returned by exactly one spin or is tracked by exactly one handle, never both. Only
  finished calls are returned, and the function call requests sent by spins are exactly their return
  payloads, in that order: each from the agent that was called to the agent and the module that
  called; a call without a payload, or with more arguments than fit, is returned by sending nothing.
\<close>

theorem calls_returned_once:
  assumes "bridge_run ph rnd tr b"
  shows "list_all2 runs_request (starts tr) (m_calls (user_calls b)) \<and>
    mset (returned_calls tr @ call_numbers (m_inboundRequestsQueue b)) =
      mset [0 ..< length (m_calls (user_calls b))] \<and>
    (\<forall>i \<in> set (returned_calls tr). is_ready (user_calls b) i) \<and>
    map return_of (returns tr) = due_returns ph (starts tr) (m_calls (user_calls b)) (returned_calls tr)"
  using ledger.along_run [OF assms] by (simp add: call_ledger_def is_ready_eq)

text \<open>
  C22. After a spin with a client the bridge holds exactly one handle for every call that still runs,
  and no other handle. So no spin ever drops the last future of a running call, which would block it
  in the future's destructor until the action ends, and the handles of answered requests do not pile
  up.
\<close>

theorem served_spin_tracks_running:
  assumes "bridge_run ph rnd tr b" "isTCPClientConnected b" "spin ph rnd env b = Inr (b', es)"
  shows "distinct (map m_callbackReturnContext (m_inboundRequestsQueue b')) \<and>
    set (map m_callbackReturnContext (m_inboundRequestsQueue b')) =
      {Some i | i. i < length (m_calls (user_calls b')) \<and> \<not> is_ready (user_calls b') i}"
proof -
  obtain b0 where c: "spin_connected ph rnd b = Inr (b0, es)" and b': "b' = spin_keepAlive b0"
    using assms(2,3) by (auto simp: spin_served rbind_eq_Inr)
  obtain b1 es1 where rcv: "spin_receive ph b = Inr (b1, es1)"
    using c by (auto simp: spin_connected_def rbind_eq_Inr)
  have "bridge_wf b" using bridge_run_work [OF assms(1)] by (simp add: work_inv_def)
  from spin_connected_eq [OF this rcv, of rnd] c b'
  have q: "m_inboundRequestsQueue b' = filter (unfinished (user_calls b')) (m_inboundRequestsQueue b1)" by auto
  then have unf: "m_callbackReturnContext h \<noteq> None \<and>
      (\<forall>i. m_callbackReturnContext h = Some i \<longrightarrow> \<not> is_ready (user_calls b') i)"
    if "h \<in> set (m_inboundRequestsQueue b')" for h
    using that by (auto simp: unfinished_def split: option.splits)
  have "map m_callbackReturnContext hs = map Some (call_numbers hs)"
    if "\<forall>h \<in> set hs. m_callbackReturnContext h \<noteq> None" for hs
    using that by (induction hs) auto
  then have nums: "map m_callbackReturnContext (m_inboundRequestsQueue b') =
      map Some (call_numbers (m_inboundRequestsQueue b'))"
    using unf by blast
  note led = ledger.along_run [OF run_step [OF assms(1) spin_step [OF assms(3)]]]
  have notready: "\<not> is_ready (user_calls b') i" if "i \<in> set (call_numbers (m_inboundRequestsQueue b'))" for i
  proof -
    have "Some i \<in> set (map m_callbackReturnContext (m_inboundRequestsQueue b'))" using that nums by simp
    then show ?thesis using unf by force
  qed
  have "set (call_numbers (m_inboundRequestsQueue b')) =
      {i. i < length (m_calls (user_calls b')) \<and> \<not> is_ready (user_calls b') i}"
    using ledger_numbers(1) [OF led] notready led by (auto simp: call_ledger_def is_ready_eq)
  then show ?thesis
    unfolding nums using ledger_numbers(2) [OF led] by (auto simp: distinct_map)
qed


subsection \<open>A concrete execution with a call\<close>

definition sample_call_request :: MessageDTO where
  "sample_call_request = call_message 1 2 9 BUZZ HOST sample_call"

lemma sample_call_run:
  "\<exists>tr b. bridge_run sample_pheromones (\<lambda>n. 7) tr b \<and> arrivals tr = [sample_call_request] \<and>
    starts tr = [sample_call_request] \<and> returned_calls tr = [] \<and> isTCPClientConnected b \<and> inbound b = [] \<and>
    m_calls (user_calls b) = [Ready (Some \<lparr>m_args = [3, 5], m_returnFunctionName = ''back''\<rparr>)] \<and>
    m_inboundRequestsQueue b = [call_handle sample_pheromones 1 2 9 BUZZ sample_call 0]"
proof -
  let ?ph = sample_pheromones and ?rnd = "\<lambda>n. 7"
  let ?b0 = "fst (new_HiveMindBridge 5000 0 3 0 0)"
  let ?reg = "RegisterCustomActionCall ''echo'' sample_echo []"
  let ?b1 = "fst (snd (api_step ?ph ?rnd ?reg ?b0))"
  have "initial_bridge ?b0" unfolding initial_bridge_def by blast
  then have "bridge_run ?ph ?rnd [] ?b0" by (rule run_new)
  moreover have "bridge_step ?ph ?rnd ?b0 (ApiAction ?reg) [] ?b1"
    by (simp add: bridge_step_simps case_prod_unfold Let_def)
  ultimately have r1: "bridge_run ?ph ?rnd ([] @ [(?b0, ApiAction ?reg, [])]) ?b1" by (rule run_step)
  have b1: "\<not> isTCPClientConnected ?b1" "inbound ?b1 = []" "m_inboundRequestsQueue ?b1 = []"
    "m_calls (user_calls ?b1) = []" "getCallback ''echo'' (callback_map ?b1) = Some sample_echo"
    using new_bridge_simps(1) [of 5000 0 3 0 0]
    by (simp_all add: registerCustomAction_def Let_def case_prod_unfold set_callback_map_def
        getCallback_eq isTCPClientConnected_def)
  from sample_connect [OF r1 b1(1)] b1 obtain b2 tr2
    where r2: "bridge_run ?ph ?rnd tr2 b2" "starts tr2 = []" "returned_calls tr2 = []" "arrivals tr2 = []"
    and b2: "isTCPClientConnected b2" "m_inboundThread b2 = RunningThread" "inbound b2 = []"
      "m_messageHandler b2 = m_messageHandler ?b1" "m_inboundRequestsQueue b2 = []"
    by (fastforce simp: starts_def returned_calls_def arrivals_def)
  let ?b3 = "b2\<lparr>m_inboundQueue := push sample_call_request (m_inboundQueue b2)\<rparr>"
  have "message_wf sample_call_request"
    by (simp add: sample_call_request_def call_message_def message_wf_def)
  note r3 = sample_arrival [OF r2(1) b2(1,2) this]
  have b3: "isTCPClientConnected ?b3" "bridge_wf ?b3" "m_inboundRequestsQueue ?b3 = []"
    "inbound ?b3 = [call_message 1 2 9 BUZZ HOST sample_call]"
    using b2 bridge_run_work [OF r3]
    by (simp_all add: isTCPClientConnected_def push_def work_inv_def sample_call_request_def)
  have cb: "getCallback (getFunctionName sample_call) (callback_map ?b3) = Some sample_echo"
    using b1(5) b2(4) by (simp add: sample_call_def)
  obtain b4 where s4: "spin ?ph ?rnd sample_env ?b3 =
      Inr (b4, [SerializeToStream (call_ack ?ph 1 2 9 BUZZ)])"
    and b4: "isTCPClientConnected b4" "inbound b4 = []"
      "m_inboundRequestsQueue b4 = [call_handle ?ph 1 2 9 BUZZ sample_call 0]"
      "callback_map b4 = callback_map ?b3" "m_calls (user_calls b4) = [] @ [Running ''echo'' [3, 5]]"
    using spin_call_message [OF b3 cb, of ?ph ?rnd sample_env] b1(4) b2(4) by (auto simp: sample_call_def)
  note r4 = run_step [OF r3 spin_step [OF s4]]
  let ?b5 = "fst (finish_call 0 b4)"
  have "bridge_step ?ph ?rnd b4 (FinishAction 0) (snd (finish_call 0 b4)) ?b5"
    by (simp add: bridge_step_simps)
  note r5 = run_step [OF r4 this]
  have "m_calls (user_calls ?b5) = [Ready (Some \<lparr>m_args = [3, 5], m_returnFunctionName = ''back''\<rparr>)]"
    using finish_call_returns [OF b4(5), of sample_echo] b4(4) cb
    by (simp add: sample_call_def sample_echo_def call_function_def)
  moreover have "isTCPClientConnected ?b5" using b4(1) by (simp add: isTCPClientConnected_def)
  moreover have "starts_call (callback_map ?b3) sample_call_request"
    using cb by (simp add: starts_call_def sample_call_request_def call_request_def call_message_def)
  moreover let ?tr = "((tr2 @ [(b2, arrival sample_call_request, [])]) @ [(?b3, SpinAction sample_env,
        [SerializeToStream (call_ack ?ph 1 2 9 BUZZ)])]) @ [(b4, FinishAction 0, snd (finish_call 0 b4))]"
  have "arrivals ?tr = [sample_call_request]" using r2(4) b2(1) by (simp add: arrivals_def arrival_def)
  moreover have "returned_calls ?tr = []" using r2(3) b2(5) by (simp add: arrival_def)
  ultimately have "arrivals ?tr = [sample_call_request]" "starts ?tr = [sample_call_request]"
    "returned_calls ?tr = []" "isTCPClientConnected ?b5"
    "m_calls (user_calls ?b5) = [Ready (Some \<lparr>m_args = [3, 5], m_returnFunctionName = ''back''\<rparr>)]"
    using r2(2) b2(3) b3(1) by (simp_all add: arrival_def)
  then show ?thesis
    using r5 b4 by (intro exI [of _ ?tr] exI [of _ ?b5] conjI) simp_all
qed

text \<open>The spin after it returns the call.\<close>

lemma sample_return_run:
  "\<exists>tr b. bridge_run sample_pheromones (\<lambda>n. 7) tr b \<and> arrivals tr = [sample_call_request] \<and>
    starts tr = [sample_call_request] \<and> returned_calls tr = [0] \<and> inbound b = [] \<and>
    m_calls (user_calls b) = [Ready (Some \<lparr>m_args = [3, 5], m_returnFunctionName = ''back''\<rparr>)] \<and>
    m_inboundRequestsQueue b = []"
proof -
  let ?ph = sample_pheromones and ?rnd = "\<lambda>n. 7"
  let ?r = "\<lparr>m_args = [3, 5], m_returnFunctionName = ''back''\<rparr> :: CallbackReturn"
  obtain tr b where r: "bridge_run ?ph ?rnd tr b" "starts tr = [sample_call_request]" "returned_calls tr = []"
    "arrivals tr = [sample_call_request]"
    and b: "isTCPClientConnected b" "inbound b = []" "m_calls (user_calls b) = [Ready (Some ?r)]"
      "m_inboundRequestsQueue b = [call_handle ?ph 1 2 9 BUZZ sample_call 0]"
    using sample_call_run by blast
  have wf: "bridge_wf b" using bridge_run_work [OF r(1)] by (simp add: work_inv_def)
  obtain es b' where s: "spin ?ph ?rnd sample_env b = Inr (b', es)"
    and b': "m_calls (user_calls b') = [Ready (Some ?r)]" "inbound b' = []" "m_inboundRequestsQueue b' = []"
    using spin_connected_eq [OF wf spin_receive_Nil [OF b(2)], of ?ph ?rnd] b(2-4)
    by (auto simp: spin_served [OF b(1)] unfinished_def is_ready_def call_handle_def)
  from run_step [OF r(1) spin_step [OF s]] r b b' show ?thesis
    by (intro exI [of _ "tr @ [(b, SpinAction sample_env, es)]"] exI [of _ b'])
       (simp add: call_handle_def is_ready_def)
qed

text \<open>What is due for it.\<close>

definition sample_return :: call_return where
  "sample_return = \<lparr>return_from = 2, return_to = 1, return_module = BUZZ,
     return_call = \<lparr>getFunctionName = ''back'', getArguments = [3, 5], getArgumentsLength = 2\<rparr>\<rparr>"

lemma sample_due:
  "due_return sample_pheromones sample_call_request
     (Ready (Some \<lparr>m_args = [3, 5], m_returnFunctionName = ''back''\<rparr>)) = Some sample_return"
  by (simp add: due_return_def sample_call_request_def call_request_def call_message_def bridge_defs
      sample_pheromones_def c_str_def sample_return_def)

theorem calls_returned_once_witness:
  "\<exists>tr b. bridge_run sample_pheromones (\<lambda>n. 7) tr b \<and> returned_calls tr = [0] \<and>
    map return_of (returns tr) = [Some sample_return]"
proof -
  obtain tr b where r: "bridge_run sample_pheromones (\<lambda>n. 7) tr b" "starts tr = [sample_call_request]"
    "returned_calls tr = [0]"
    "m_calls (user_calls b) = [Ready (Some \<lparr>m_args = [3, 5], m_returnFunctionName = ''back''\<rparr>)]"
    using sample_return_run by blast
  from calls_returned_once [OF r(1)] r(2-4) have "map return_of (returns tr) = [Some sample_return]"
    by (simp add: due_returns_def sample_due)
  with r show ?thesis by (intro exI conjI)
qed

theorem served_spin_tracks_running_witness:
  "\<exists>b b' es. spin sample_pheromones (\<lambda>n. 7) sample_env b = Inr (b', es) \<and>
    length (m_inboundRequestsQueue b) = 1 \<and> set (map m_callbackReturnContext (m_inboundRequestsQueue b')) = {}"
proof -
  let ?ph = sample_pheromones and ?rnd = "\<lambda>n. 7"
  obtain tr b r where r: "bridge_run ?ph ?rnd tr b"
    and b: "isTCPClientConnected b" "inbound b = []" "m_calls (user_calls b) = [Ready r]"
      "length (m_inboundRequestsQueue b) = 1"
    using sample_call_run by fastforce
  have wf: "bridge_wf b" using bridge_run_work [OF r] by (simp add: work_inv_def)
  obtain es b' where s: "spin ?ph ?rnd sample_env b = Inr (b', es)" "m_calls (user_calls b') = [Ready r]"
    using spin_connected_eq [OF wf spin_receive_Nil [OF b(2)], of ?ph ?rnd] b(3)
    by (auto simp: spin_served [OF b(1)])
  from served_spin_tracks_running [OF r b(1) s(1)] s(2)
  have "set (map m_callbackReturnContext (m_inboundRequestsQueue b')) = {}" by (auto simp: is_ready_def)
  with s(1) b(4) show ?thesis by blast
qed

end
