(* ===== verification/CallbackRegistry.thy ===== *)
theory CallbackRegistry
  imports Prelude Pheromones UserCallbackMap "HOL-Library.AList"
begin

section \<open>The registry as a list\<close>

text \<open>
  The abstract specification of \<open>IUserCallbackMap\<close>: a registry is the list of the actions in the order
  of their first registration, each with the callback and the manifest registered last. \<open>spec_step\<close>
  says what a call returns and does to the list, \<open>registry_step\<close> is the call on the map and the
  vector of names the class keeps, and the class answers every sequence of calls as the list does.
\<close>

subsection \<open>The calls of the interface\<close>

datatype registry_call =
    RegisterCallback string CallbackFunction CallbackArgsManifest
  | RegisterCallbackNoManifest string CallbackFunction
  | GetCallback string
  | GetLength
  | GetManifestAt u32
  | GetNameAt u32

datatype registry_result =
    Overwritten bool
  | Callback "CallbackFunction option"
  | Length u32
  | Manifest "CallbackArgsManifest option"
  | Name "string option"

fun registry_step :: "registry_call \<Rightarrow> UserCallbackMap \<Rightarrow> (registry_result \<times> UserCallbackMap) result" where
  "registry_step (RegisterCallback name callback manifest) m =
     (let (r, m) = registerCallback name callback manifest m in Inr (Overwritten r, m))"
| "registry_step (RegisterCallbackNoManifest name callback) m =
     (let (r, m) = registerCallback_noManifest name callback m in Inr (Overwritten r, m))"
| "registry_step (GetCallback name) m = Inr (Callback (getCallback name m), m)"
| "registry_step GetLength m = Inr (Length (getLength m), m)"
| "registry_step (GetManifestAt index) m =
     rbind (getManifestAt index m) (\<lambda>(r, m). Inr (Manifest r, m))"
| "registry_step (GetNameAt index) m = rbind (getNameAt index m) (\<lambda>r. Inr (Name r, m))"

text \<open>The results of a sequence of calls, up to the first one that faults.\<close>

fun registry_results :: "registry_call list \<Rightarrow> UserCallbackMap \<Rightarrow> registry_result list \<times> fault option" where
  "registry_results [] m = ([], None)"
| "registry_results (c # cs) m =
     (case registry_step c m of
        Inl e \<Rightarrow> ([], Some e)
      | Inr (r, m) \<Rightarrow> (let (rs, e) = registry_results cs m in (r # rs, e)))"


subsection \<open>The specification\<close>

type_synonym registry = "(string \<times> CallbackFunction \<times> CallbackArgsManifest) list"

definition spec_at :: "u32 \<Rightarrow> registry \<Rightarrow> ((string \<times> CallbackFunction \<times> CallbackArgsManifest) option) result"
where
  "spec_at i r =
     (if unat i < length r then Inr (Some (r ! unat i))
      else if unat i = length r then Inl OutOfBounds else Inr None)"

fun spec_step :: "registry_call \<Rightarrow> registry \<Rightarrow> (registry_result \<times> registry) result" where
  "spec_step (RegisterCallback n f a) r = Inr (Overwritten (n \<in> fst ` set r), AList.update n (f, a) r)"
| "spec_step (RegisterCallbackNoManifest n f) r =
     Inr (Overwritten (n \<in> fst ` set r), AList.update n (f, []) r)"
| "spec_step (GetCallback n) r = Inr (Callback (map_option fst (map_of r n)), r)"
| "spec_step GetLength r = Inr (Length (word_of_nat (length r)), r)"
| "spec_step (GetManifestAt i) r =
     rbind (spec_at i r) (\<lambda>e. Inr (Manifest (map_option (\<lambda>(n, f, a). a) e), r))"
| "spec_step (GetNameAt i) r = rbind (spec_at i r) (\<lambda>e. Inr (Name (map_option fst e), r))"

fun spec_results :: "registry_call list \<Rightarrow> registry \<Rightarrow> registry_result list \<times> fault option" where
  "spec_results [] r = ([], None)"
| "spec_results (c # cs) r =
     (case spec_step c r of
        Inl e \<Rightarrow> ([], Some e)
      | Inr (x, r) \<Rightarrow> (let (xs, e) = spec_results cs r in (x # xs, e)))"


subsection \<open>The class implements it\<close>

definition entry :: "UserCallbackMap \<Rightarrow> string \<Rightarrow> string \<times> CallbackFunction \<times> CallbackArgsManifest" where
  "entry m n = (n, m_function (the (m_callbacks m n)), m_manifest (the (m_callbacks m n)))"

definition registry_of :: "UserCallbackMap \<Rightarrow> registry" where
  "registry_of m = map (entry m) (m_callbackNames m)"

lemma registry_of_simps [simp]:
  "length (registry_of m) = length (m_callbackNames m)"
  "fst ` set (registry_of m) = set (m_callbackNames m)"
  "map fst (registry_of m) = m_callbackNames m"
  by (auto simp: registry_of_def entry_def image_image o_def)

lemma update_entries:
  "distinct ns \<Longrightarrow> AList.update n v (map (\<lambda>k. (k, g k)) ns) =
     map (\<lambda>k. (k, (g(n := v)) k)) (if n \<in> set ns then ns else ns @ [n])"
  by (induction ns) auto

lemma registry_of_register:
  assumes "callback_map_inv m"
  shows "registry_of (snd (registerCallback n f a m)) = AList.update n (f, a) (registry_of m)"
proof -
  let ?g = "\<lambda>m k. (m_function (the (m_callbacks m k)), m_manifest (the (m_callbacks m k)))"
  have entry: "entry m' = (\<lambda>k. (k, ?g m' k))" for m' by (intro ext) (simp add: entry_def)
  have "m_callbackNames (snd (registerCallback n f a m)) =
      (if n \<in> set (m_callbackNames m) then m_callbackNames m else m_callbackNames m @ [n])"
    using assms by (simp add: cbm.names_register)
  then show ?thesis
    using assms update_entries [of "m_callbackNames m" n "(f, a)" "?g m"]
    unfolding registry_of_def entry by (auto simp: callback_map_inv_def)
qed

lemma map_of_entries: "map_of (map (\<lambda>k. (k, g k)) ns) n = (if n \<in> set ns then Some (g n) else None)"
  by (induction ns) auto

lemma registry_of_lookup:
  assumes "callback_map_inv m"
  shows "map_option fst (map_of (registry_of m) n) = getCallback n m"
proof -
  have "entry m = (\<lambda>k. (k, m_function (the (m_callbacks m k)), m_manifest (the (m_callbacks m k))))"
    by (intro ext) (simp add: entry_def)
  then show ?thesis
    using assms
    by (auto simp: registry_of_def map_of_entries getCallback_eq callback_map_inv_def domIff)
qed

lemma registry_of_nth:
  "i < length (m_callbackNames m) \<Longrightarrow> registry_of m ! i = entry m (m_callbackNames m ! i)"
  by (simp add: registry_of_def)

lemma registry_step_refines:
  assumes inv: "callback_map_inv m"
  shows "case spec_step c (registry_of m) of
      Inl e \<Rightarrow> registry_step c m = Inl e
    | Inr (r, s) \<Rightarrow> \<exists>m'. registry_step c m = Inr (r, m') \<and> registry_of m' = s \<and> callback_map_inv m'"
proof (cases c)
  case (RegisterCallback n f a)
  then show ?thesis
    using inv registry_of_register [OF inv] cbm.overwrites [OF inv] registerCallback_inv
    by (auto simp: Let_def case_prod_unfold)
next
  case (RegisterCallbackNoManifest n f)
  then show ?thesis
    using inv registry_of_register [OF inv] cbm.overwrites [OF inv] registerCallback_inv
    by (auto simp: Let_def case_prod_unfold registerCallback_noManifest_def)
next
  case (GetManifestAt i)
  then show ?thesis
    using inv getManifestAt_fault_iff [of i m OutOfBounds] getManifestAt_inside [OF inv, of i]
      getManifestAt_beyond [of m i] nth_mem [of "unat i" "m_callbackNames m"]
    by (auto simp: spec_at_def registry_of_nth entry_def callback_map_inv_def not_less domIff)
next
  case (GetNameAt i)
  then show ?thesis
    using inv getNameAt_fault_iff [of i m OutOfBounds] getNameAt_inside [of i m] getNameAt_beyond [of m i]
    by (auto simp: spec_at_def registry_of_nth entry_def not_less)
qed (use inv in \<open>simp_all add: registry_of_lookup getLength_def\<close>)

lemma registry_results_refine:
  "callback_map_inv m \<Longrightarrow> registry_results cs m = spec_results cs (registry_of m)"
proof (induction cs arbitrary: m)
  case (Cons c cs)
  show ?case
  proof (cases "spec_step c (registry_of m)")
    case (Inl e)
    then show ?thesis using registry_step_refines [OF Cons.prems, of c] by simp
  next
    case (Inr x)
    obtain r s where x: "x = (r, s)" by fastforce
    then obtain m' where "registry_step c m = Inr (r, m')" "registry_of m' = s" "callback_map_inv m'"
      using registry_step_refines [OF Cons.prems, of c] Inr by auto
    then show ?thesis using Cons.IH Inr x by auto
  qed
qed simp

text \<open>
  C28. The registry refines its specification: a new \<open>UserCallbackMap\<close> answers every sequence of calls
  of its interface as the list of actions in the order of their first registration does. So the last
  callback and manifest registered under a name are those found, a name keeps its index for ever, the
  length counts every name once, and a call leaves the defined behaviour of C++ exactly when it asks
  for the index that equals the number of actions.
\<close>

theorem registry_refines_list:
  "registry_results cs empty_callback_map = spec_results cs []"
  using registry_results_refine [OF callback_map_inv_empty, of cs]
  by (simp add: registry_of_def empty_callback_map_def)

end
