(* ===== verification/MessageBuilders.thy ===== *)
theory MessageBuilders
  imports Prelude Pheromones UserCallbackMap Handles MessageUtils UserCallRequestHandler HostApiRequestHandler
    MessageHandler HiveMindBridgeImpl Spin Inbound
begin

section \<open>Built messages and how they are understood\<close>

text \<open>
  \<open>MessageUtils\<close> offers one function per kind of message, also to the user of the library. The handler
  of user calls does not use them for its answers; this theory shows which answers are those the
  functions build, and what the dispatcher of a bridge that receives a built message makes of it.
\<close>

subsection \<open>The functions of \<open>MessageUtils\<close>\<close>

datatype build_call =
    CreateResponseMessage u32 u32 u32 UserCallTargetDTO GenericResponseStatusDTO string
  | CreateFunctionListLengthResponseMessage u32 u32 u32 UserCallTargetDTO u32
  | CreateFunctionDescriptionResponseMessage u32 u32 u32 UserCallTargetDTO FunctionDescriptionDTO
  | CreateFunctionCallRequest u32 u32 u32 UserCallTargetDTO string CallbackArgs
  | CreateFunctionCallRequestNoArgs u32 u32 u32 UserCallTargetDTO string
  | CreateBytesMessage u32 u32 u32 u32 u32 bool "u8 list" u16
  | CreateGreetMessage

text \<open>The message a call creates; only \<open>createBytesMessage\<close> may create none.\<close>

fun build :: "pheromones \<Rightarrow> build_call \<Rightarrow> MessageDTO option" where
  "build ph (CreateResponseMessage responseId src dst target status ackMessage) =
     Some (createResponseMessage ph responseId src dst target status ackMessage)"
| "build ph (CreateFunctionListLengthResponseMessage responseId src dst target n) =
     Some (createFunctionListLengthResponseMessage responseId src dst target n)"
| "build ph (CreateFunctionDescriptionResponseMessage responseId src dst target description) =
     Some (createFunctionDescriptionResponseMessage responseId src dst target description)"
| "build ph (CreateFunctionCallRequest src dst requestId target callbackName args) =
     Some (createFunctionCallRequest ph src dst requestId target callbackName args)"
| "build ph (CreateFunctionCallRequestNoArgs src dst requestId target callbackName) =
     Some (createFunctionCallRequest_noArgs ph src dst requestId target callbackName)"
| "build ph (CreateBytesMessage src dst requestId byteReqId packetNumber lastPacket payload n) =
     createBytesMessage ph src dst requestId byteReqId packetNumber lastPacket payload n"
| "build ph CreateGreetMessage = Some createGreetMessage"


subsection \<open>The answers to user calls\<close>

text \<open>
  The call of \<open>MessageUtils\<close> that builds the answer to a request of kind \<open>q\<close>; there is none for the
  answers that only carry an error.
\<close>

definition answer_build ::
  "pheromones \<Rightarrow> UserCallbackMap \<Rightarrow> u32 \<Rightarrow> u32 \<Rightarrow> u32 \<Rightarrow> UserCallTargetDTO \<Rightarrow> user_call_request \<Rightarrow>
    build_call option" where
  "answer_build ph m src dst rid smod q =
     (case q of
        FunctionListLengthRequest \<Rightarrow>
          Some (CreateFunctionListLengthResponseMessage rid dst src smod
            (word_of_nat (length (m_callbackNames m))))
      | FunctionDescriptionRequest i \<Rightarrow>
          if unat i < length (m_callbackNames m) then
            let name = m_callbackNames m ! unat i; args = describe_args ph (the (manifest_of_name m name))
            in Some (CreateFunctionDescriptionResponseMessage rid dst src smod
                 (mk_FunctionDescriptionDTO ph (c_str name) args (length args)))
          else None
      | FunctionCallRequest fc \<Rightarrow>
          Some (if getCallback (getFunctionName fc) m \<noteq> None
            then CreateResponseMessage rid dst src smod Ok []
            else CreateResponseMessage rid dst src smod BadRequest ''Unknown function.'')
      | OtherUserCallRequest \<Rightarrow> None)"

text \<open>The answers without a function of their own: an index out of bounds, a request of unknown kind.\<close>

definition error_answer ::
  "pheromones \<Rightarrow> u32 \<Rightarrow> u32 \<Rightarrow> u32 \<Rightarrow> UserCallTargetDTO \<Rightarrow> user_call_request \<Rightarrow> MessageDTO" where
  "error_answer ph src dst rid smod q =
     \<lparr>getSourceId = dst, getDestinationId = src,
      getMessage = Response \<lparr>getResponseRequestId = rid, getResponse = UserCallResponse
        \<lparr>getResponseSource = HOST, getResponseDestination = smod,
         getUserCallResponse =
           (if q = OtherUserCallRequest
            then GenericUserCallResponse (mk_GenericResponseDTO ph Unknown ''Unknown UserCallRequest'')
            else FunctionDescriptionResponse
              (DescriptionError (mk_GenericResponseDTO ph BadRequest ''Index out of bounds.'')))\<rparr>\<rparr>\<rparr>"

lemma error_answer_not_built: "build ph c \<noteq> Some (error_answer ph src dst rid smod q)"
  by (cases c) (auto simp: error_answer_def createResponseMessage_def createFunctionListLengthResponseMessage_def
      createFunctionDescriptionResponseMessage_def createFunctionCallRequest_def
      createFunctionCallRequest_noArgs_def createBytesMessage_def createGreetMessage_def Let_def)

lemma description_answer:
  assumes inv: "callback_map_inv (m_callbackMap u)"
    and h: "UserCallRequestHandler_handleMessage ph (query_message src dst rid smod dmod (FunctionDescriptionRequest i))
      \<lparr>getSource = smod, getDestination = dmod, getUserCallRequest = FunctionDescriptionRequest i\<rparr> u =
      Inr (HandledRequest h, u', es)"
  shows "case answer_build ph (m_callbackMap u) src dst rid smod (FunctionDescriptionRequest i) of
      Some c \<Rightarrow> build ph c = Some (m_responseMessage h)
    | None \<Rightarrow> m_responseMessage h = error_answer ph src dst rid smod (FunctionDescriptionRequest i)"
proof (cases "unat i < length (m_callbackNames (m_callbackMap u))")
  case True
  then show ?thesis
    using h handleFunctionDescriptionRequest_inside [OF inv True]
    by (auto simp: UserCallRequestHandler_handleMessage_def query_message_def answer_build_def
        createFunctionDescriptionResponseMessage_def bridge_defs describe_args_map Let_def)
next
  case False
  then have "length (m_callbackNames (m_callbackMap u)) \<noteq> unat i"
    using h by (auto simp: UserCallRequestHandler_handleMessage_def query_message_def description_request_index_fault Let_def)
  then show ?thesis
    using h False
    by (auto simp: UserCallRequestHandler_handleMessage_def query_message_def answer_build_def error_answer_def
        handleFunctionDescriptionRequest_beyond bridge_defs Let_def)
qed

text \<open>
  C36. Every answer to a user call. The handler puts its answers together by hand; for a list length, a
  description inside the bounds and a call, known or not, the answer is the one that the matching
  function of \<open>MessageUtils\<close> builds for the request's id, with source and destination swapped and
  addressed to the module that asked. The two other answers, the \<open>BadRequest\<close> to a description out of
  bounds and the answer to a request of unknown kind, are the ones of \<open>error_answer\<close>, which no function of
  \<open>MessageUtils\<close> builds.
\<close>

theorem answers_are_built:
  assumes "callback_map_inv (m_callbackMap (m_userCallRequestHandler s))"
    and "MessageHandler_handleMessage ph (query_message src dst rid smod dmod q) s =
      Inr (HandledRequest h, s', es)"
  shows "case answer_build ph (m_callbackMap (m_userCallRequestHandler s)) src dst rid smod q of
      Some c \<Rightarrow> build ph c = Some (m_responseMessage h)
    | None \<Rightarrow> m_responseMessage h = error_answer ph src dst rid smod q \<and>
        (\<forall>c. build ph c \<noteq> Some (m_responseMessage h))"
proof -
  obtain u' where h: "UserCallRequestHandler_handleMessage ph (query_message src dst rid smod dmod q)
      \<lparr>getSource = smod, getDestination = dmod, getUserCallRequest = q\<rparr> (m_userCallRequestHandler s) =
      Inr (HandledRequest h, u', es)"
    using assms(2) by (auto simp: MessageHandler_handleMessage_def query_message_def rbind_eq_Inr)
  show ?thesis
  proof (cases q)
    case (FunctionDescriptionRequest i)
    from description_answer [OF assms(1) h [unfolded this]] show ?thesis
      using error_answer_not_built FunctionDescriptionRequest by (auto split: option.splits)
  next
    case (FunctionCallRequest fc)
    then show ?thesis
      using h
      by (cases "getCallback (getFunctionName fc) (m_callbackMap (m_userCallRequestHandler s))")
         (auto simp: UserCallRequestHandler_handleMessage_def query_message_def
            handleFunctionCallRequest_def answer_build_def createResponseMessage_def bridge_defs Let_def c_str_def)
  next
    case OtherUserCallRequest
    then have "m_responseMessage h = error_answer ph src dst rid smod q"
      using h by (auto simp: UserCallRequestHandler_handleMessage_def query_message_def error_answer_def
          bridge_defs Let_def)
    then show ?thesis using OtherUserCallRequest error_answer_not_built by (simp add: answer_build_def)
  qed (use h in \<open>auto simp: UserCallRequestHandler_handleMessage_def query_message_def
       handleFunctionListLengthRequest_def getLength_def answer_build_def
       createFunctionListLengthResponseMessage_def bridge_defs Let_def\<close>)
qed


subsection \<open>What a receiver makes of a built message\<close>

text \<open>
  C37. What the dispatcher of a receiver makes of each kind of built message. Of a built response exactly
  the id of the request and the status become a response handle; a built greeting greets with id 0 and
  is otherwise only logged; a built call of a registered action starts that action, on an array whose
  first entries are the arguments given and whose length is the library's limit, and is acknowledged; a
  built packet goes to the accumulator of its transfer, unless the payload is larger than a packet, when
  no message is built. The responses to the two discovery requests are built too, but a bridge that
  receives one only logs a warning: a bridge answers discovery and cannot ask.
\<close>

theorem built_messages_understood:
  fixes name :: string and s :: MessageHandler
  assumes "status_laws ph" "call_laws ph" "length args \<le> FUNCTION_CALL_ARGUMENTS_MAX_LENGTH ph"
  defines "fc \<equiv> mk_FunctionCallRequestDTO ph (c_str name) args (length args)"
    and "u \<equiv> m_userCallRequestHandler s"
  assumes "getCallback (getFunctionName fc) (m_callbackMap u) = Some f"
  shows "(\<exists>details. MessageHandler_handleMessage ph (createResponseMessage ph i src dst t st info) s =
        Inr (HandledResponse (mk_InboundResponseHandle i st details), s, [])) \<and>
    handleGreet createGreetMessage = Some 0 \<and>
    MessageHandler_handleMessage ph createGreetMessage s =
      Inr (NoHandle, s, [Log Info ''Received greeting from %d'' [LogUnsigned 0]]) \<and>
    (\<exists>h xs. MessageHandler_handleMessage ph (createFunctionCallRequest ph src dst i t name args) s =
        Inr (HandledRequest h,
          s\<lparr>m_userCallRequestHandler := u\<lparr>m_calls := m_calls u @ [Running (getFunctionName fc) xs]\<rparr>\<rparr>, []) \<and>
      m_responseMessage h = createResponseMessage ph i dst src HOST Ok [] \<and>
      take (length args) xs = args \<and> length xs = FUNCTION_CALL_ARGUMENTS_MAX_LENGTH ph) \<and>
    (case createBytesMessage ph src dst i r k l p n of
       Some m \<Rightarrow> MessageHandler_handleMessage ph m s =
         rbind (handleBytes m (mk_BytesDTO ph r k l p n) (m_hmRequestHandler s))
           (\<lambda>(q, es). Inr (NoHandle, s\<lparr>m_hmRequestHandler := q\<rparr>, es))
     | None \<Rightarrow> PAYLOAD_MAX_SIZE ph < unat n) \<and>
    (\<forall>m \<in> {createFunctionListLengthResponseMessage i src dst t len,
        createFunctionDescriptionResponseMessage i src dst t d}.
      MessageHandler_handleMessage ph m s = Inr (NoHandle, s,
        [Log Warn ''Cannot handle user call response : unknown user call response type'' []]))"
proof (intro conjI, goal_cases)
  case 1
  then show ?case
    using assms(1)
    by (auto simp: createResponseMessage_def MessageHandler_handleMessage_def response_handle_def Let_def
        status_laws_def)
next
  case 4
  have call: "createFunctionCallRequest ph src dst i t name args = call_message src dst i HOST t fc"
    by (simp add: createFunctionCallRequest_def call_message_def fc_def Let_def)
  have ack: "m_responseMessage (call_handle ph src dst i HOST fc c) = createResponseMessage ph i dst src HOST Ok []" for c
    by (simp add: call_handle_def call_ack_def createResponseMessage_def c_str_def Let_def)
  have "length (getArguments fc) = FUNCTION_CALL_ARGUMENTS_MAX_LENGTH ph" "take (length args) (getArguments fc) = args"
    using call_laws_mk [OF assms(2,3) order_refl] by (simp_all add: fc_def)
  then show ?case
    unfolding call call_message_handled [OF assms(6) [unfolded u_def]]
    by (intro exI conjI, (simp add: ack u_def)+)
next
  case 5
  then show ?case
    by (auto simp: createBytesMessage_def MessageHandler_handleMessage_def Let_def
        HostApiRequestHandler_handleMessage_def)
next
  case 6
  then show ?case
    by (auto simp: createFunctionListLengthResponseMessage_def createFunctionDescriptionResponseMessage_def
        MessageHandler_handleMessage_def Let_def)
qed (simp_all add: createGreetMessage_def handleGreet_def MessageHandler_handleMessage_def)

text \<open>A call that is answered with a built message, and a description request that is not.\<close>

theorem answers_are_built_witness:
  "(\<exists>h s' es. MessageHandler_handleMessage sample_pheromones
      (query_message 1 2 9 BUZZ HOST (FunctionCallRequest sample_call)) (m_messageHandler sample_echo_bridge) =
      Inr (HandledRequest h, s', es) \<and>
    build sample_pheromones (CreateResponseMessage 9 2 1 BUZZ Ok []) = Some (m_responseMessage h)) \<and>
   (\<exists>h s' es. MessageHandler_handleMessage sample_pheromones
      (query_message 1 2 9 BUZZ HOST (FunctionDescriptionRequest 7)) (m_messageHandler sample_echo_bridge) =
      Inr (HandledRequest h, s', es) \<and>
    (\<forall>c. build sample_pheromones c \<noteq> Some (m_responseMessage h)))"
proof
  let ?s = "m_messageHandler sample_echo_bridge"
  have inv: "callback_map_inv (m_callbackMap (m_userCallRequestHandler ?s))"
    using sample_echo_wf by (simp add: bridge_wf_def user_calls_inv_def)
  have cb: "getCallback (getFunctionName sample_call) (m_callbackMap (m_userCallRequestHandler ?s)) =
      Some sample_echo"
    by (simp add: sample_call_def)
  have "query_message 1 2 9 BUZZ HOST (FunctionCallRequest sample_call) =
      call_message 1 2 9 BUZZ HOST sample_call"
    by (simp add: query_message_def call_message_def)
  with call_message_handled [OF cb] obtain h s' where h: "MessageHandler_handleMessage sample_pheromones
      (query_message 1 2 9 BUZZ HOST (FunctionCallRequest sample_call)) ?s = Inr (HandledRequest h, s', [])"
    by metis
  have "answer_build sample_pheromones (m_callbackMap (m_userCallRequestHandler ?s)) 1 2 9 BUZZ
      (FunctionCallRequest sample_call) = Some (CreateResponseMessage 9 2 1 BUZZ Ok [])"
    using cb by (simp add: answer_build_def)
  with answers_are_built [OF inv h] h show "\<exists>h s' es. MessageHandler_handleMessage sample_pheromones
      (query_message 1 2 9 BUZZ HOST (FunctionCallRequest sample_call)) ?s = Inr (HandledRequest h, s', es) \<and>
    build sample_pheromones (CreateResponseMessage 9 2 1 BUZZ Ok []) = Some (m_responseMessage h)"
    by (intro exI conjI) (assumption | simp)+
next
  let ?s = "m_messageHandler sample_echo_bridge" and ?q = "query_message 1 2 9 BUZZ HOST (FunctionDescriptionRequest 7)"
  have inv: "callback_map_inv (m_callbackMap (m_userCallRequestHandler ?s))"
    using sample_echo_wf by (simp add: bridge_wf_def user_calls_inv_def)
  obtain h where h: "MessageHandler_handleMessage sample_pheromones ?q ?s = Inr (HandledRequest h, ?s, [])"
    by (simp add: MessageHandler_handleMessage_def UserCallRequestHandler_handleMessage_def query_message_def
        handleFunctionDescriptionRequest_beyond Let_def)
  have "answer_build sample_pheromones (m_callbackMap (m_userCallRequestHandler ?s)) 1 2 9 BUZZ
      (FunctionDescriptionRequest 7) = None" by (simp add: answer_build_def)
  with answers_are_built [OF inv h] have "\<forall>c. build sample_pheromones c \<noteq> Some (m_responseMessage h)" by (auto split: option.splits)
  with h show "\<exists>h s' es. MessageHandler_handleMessage sample_pheromones ?q ?s =
      Inr (HandledRequest h, s', es) \<and> (\<forall>c. build sample_pheromones c \<noteq> Some (m_responseMessage h))" by blast
qed

text \<open>A response, a call with one argument and a packet of two bytes.\<close>

theorem built_messages_understood_witness:
  "(\<exists>details. MessageHandler_handleMessage sample_pheromones
      (createResponseMessage sample_pheromones 9 2 1 BUZZ BadRequest ''no'') (m_messageHandler sample_echo_bridge) =
    Inr (HandledResponse (mk_InboundResponseHandle 9 BadRequest details), m_messageHandler sample_echo_bridge, [])) \<and>
   (\<exists>h s' xs. MessageHandler_handleMessage sample_pheromones
      (createFunctionCallRequest sample_pheromones 2 1 9 BUZZ ''echo'' [3]) (m_messageHandler sample_echo_bridge) =
      Inr (HandledRequest h, s', []) \<and>
    m_calls (m_userCallRequestHandler s') = [Running ''echo'' xs] \<and> take 1 xs = [3] \<and> length xs = 2) \<and>
   (\<exists>m. createBytesMessage sample_pheromones 2 1 9 5 0 True [1, 2] 2 = Some m \<and>
    MessageHandler_handleMessage sample_pheromones m (m_messageHandler sample_echo_bridge) =
      rbind (handleBytes m (mk_BytesDTO sample_pheromones 5 0 True [1, 2] 2)
          (m_hmRequestHandler (m_messageHandler sample_echo_bridge)))
        (\<lambda>(q, es). Inr (NoHandle, (m_messageHandler sample_echo_bridge)\<lparr>m_hmRequestHandler := q\<rparr>, es)))"
proof -
  let ?ph = sample_pheromones and ?s = "m_messageHandler sample_echo_bridge"
  have max: "FUNCTION_CALL_ARGUMENTS_MAX_LENGTH ?ph = 2" by (simp add: sample_pheromones_def)
  have name: "getFunctionName (mk_FunctionCallRequestDTO ?ph (c_str ''echo'') [3] (length [3])) = ''echo''"
    by (simp add: sample_pheromones_def c_str_def)
  have calls: "m_calls (m_userCallRequestHandler ?s) = []"
    and len: "length [3 :: nat] \<le> FUNCTION_CALL_ARGUMENTS_MAX_LENGTH ?ph" by (simp_all add: max)
  have cb: "getCallback (getFunctionName (mk_FunctionCallRequestDTO ?ph (c_str ''echo'') [3] (length [3])))
      (m_callbackMap (m_userCallRequestHandler ?s)) = Some sample_echo" unfolding name by simp
  obtain m where m: "createBytesMessage ?ph 2 1 9 5 0 True [1, 2] 2 = Some m"
    by (simp add: createBytesMessage_def sample_pheromones_def Let_def)
  note understood = built_messages_understood [OF sample_status_laws sample_call_laws len cb]
  have resp: "\<exists>details. MessageHandler_handleMessage ?ph (createResponseMessage ?ph 9 2 1 BUZZ BadRequest ''no'') ?s =
      Inr (HandledResponse (mk_InboundResponseHandle 9 BadRequest details), ?s, [])"
    using understood by blast
  obtain h xs where "MessageHandler_handleMessage ?ph (createFunctionCallRequest ?ph 2 1 9 BUZZ ''echo'' [3]) ?s =
      Inr (HandledRequest h, ?s\<lparr>m_userCallRequestHandler := (m_userCallRequestHandler ?s)
        \<lparr>m_calls := m_calls (m_userCallRequestHandler ?s) @ [Running ''echo'' xs]\<rparr>\<rparr>, [])"
    "take (length [3 :: nat]) xs = [3]" "length xs = 2"
    using understood unfolding name max by blast
  then have call: "\<exists>h s' xs. MessageHandler_handleMessage ?ph (createFunctionCallRequest ?ph 2 1 9 BUZZ ''echo'' [3]) ?s =
      Inr (HandledRequest h, s', []) \<and>
    m_calls (m_userCallRequestHandler s') = [Running ''echo'' xs] \<and> take 1 xs = [3] \<and> length xs = 2"
    using calls by (intro exI conjI) (assumption | simp)+
  have "MessageHandler_handleMessage ?ph m ?s = rbind (handleBytes m (mk_BytesDTO ?ph 5 0 True [1, 2] 2)
      (m_hmRequestHandler ?s)) (\<lambda>(q, es). Inr (NoHandle, ?s\<lparr>m_hmRequestHandler := q\<rparr>, es))"
    using understood [where r = 5 and k = 0 and l = True and p = "[1, 2]" and n = 2 and src = 2 and dst = 1
        and i = 9] m by simp
  with resp call m show ?thesis by blast
qed

end
