(* ===== verification/SpinThread.thy ===== *)
theory SpinThread
  imports Prelude Pheromones ThreadSafeQueue Handles MessageUtils UserCallRequestHandler MessageHandler
    TCPServer HiveMindBridgeImpl Spin
begin

section \<open>A spin, one access at a time\<close>

text \<open>
  \<open>spin\<close> takes a call of \<open>HiveMindBridgeImpl::spin\<close> as one step. Here the call is cut into the
  accesses it makes to what it shares with the other threads: the connection, the queues, which are
  locked for each call by itself, the map of responses, the futures of the running actions and the
  stream. \<open>m_inboundRequestsQueue\<close> is the spin's own; the loop over it advances an iterator and
  erases elements in place. Run without interference the cut call is \<open>spin\<close>.
\<close>

subsection \<open>The call\<close>

text \<open>Where the call is, with the local variables that are live there.\<close>

datatype spin_pc =
    SpinCall accept_env              \<comment> \<open>\<open>isTCPClientConnected()\<close>\<close>
  | SEmpty                           \<comment> \<open>\<open>!m_inboundQueue.empty()\<close>\<close>
  | SFront                           \<comment> \<open>\<open>m_inboundQueue.front()\<close>\<close>
  | SHandle MessageDTO               \<comment> \<open>\<open>m_messageHandler.handleMessage\<close>\<close>
  | SPop handled                     \<comment> \<open>\<open>m_inboundQueue.pop()\<close>\<close>
  | SStore handled                   \<comment> \<open>the handle is kept, a request answered\<close>
  | SSweep nat                       \<comment> \<open>the loop over \<open>m_inboundRequestsQueue\<close>, at its iterator\<close>
  | SReturn nat                      \<comment> \<open>\<open>sendReturn(*result)\<close>\<close>
  | SJoinInbound accept_env          \<comment> \<open>\<open>m_inboundThread.join()\<close>\<close>
  | SJoinOutbound accept_env         \<comment> \<open>\<open>m_outboundThread.join()\<close>\<close>
  | SListen accept_env               \<comment> \<open>\<open>m_tcpServer.listen()\<close>\<close>
  | SGreet accept_env                \<comment> \<open>\<open>greet()\<close>, up to the greeting sent\<close>
  | SAwaitGreet accept_env           \<comment> \<open>\<open>greet()\<close>, the answer\<close>
  | SStartInbound                    \<comment> \<open>\<open>m_inboundThread = std::thread\<close>\<close>
  | SStartOutbound                   \<comment> \<open>\<open>m_outboundThread = std::thread\<close>\<close>
  | SClose                           \<comment> \<open>\<open>m_tcpServer.close()\<close>\<close>
  | SKeepAlive                       \<comment> \<open>the test of the keep-alive counter\<close>
  | SKeepQueue                       \<comment> \<open>\<open>queueAndSend\<close> of a greeting: the connection\<close>
  | SKeepPush                        \<comment> \<open>\<open>queueAndSend\<close> of a greeting: \<open>m_outboundQueue.push\<close>\<close>
  | SKeepCount                       \<comment> \<open>\<open>m_keepAliveCounter++\<close>\<close>
  | SpinDone

definition erase_request :: "nat \<Rightarrow> HiveMindBridgeImpl \<Rightarrow> HiveMindBridgeImpl" where
  "erase_request j b = b\<lparr>m_inboundRequestsQueue :=
     take j (m_inboundRequestsQueue b) @ drop (Suc j) (m_inboundRequestsQueue b)\<rparr>"

fun spin_micro ::
  "pheromones \<Rightarrow> (nat \<Rightarrow> int) \<Rightarrow> spin_pc \<Rightarrow> HiveMindBridgeImpl \<Rightarrow>
    (spin_pc \<times> HiveMindBridgeImpl \<times> event list) result" where
  "spin_micro ph rnd (SpinCall env) b =
     Inr (if isTCPClientConnected b then SEmpty else SJoinInbound env, b, [])"
| "spin_micro ph rnd SEmpty b = Inr (if \<not> empty (m_inboundQueue b) then SFront else SSweep 0, b, [])"
| "spin_micro ph rnd SFront b = rbind (front (m_inboundQueue b)) (\<lambda>message. Inr (SHandle message, b, []))"
| "spin_micro ph rnd (SHandle message) b =
     rbind (MessageHandler_handleMessage ph message (m_messageHandler b)) (\<lambda>(vHandle, mh, es).
       Inr (SPop vHandle, b\<lparr>m_messageHandler := mh\<rparr>, es))"
| "spin_micro ph rnd (SPop vHandle) b =
     rbind (pop (m_inboundQueue b)) (\<lambda>q. Inr (SStore vHandle, b\<lparr>m_inboundQueue := q\<rparr>, []))"
| "spin_micro ph rnd (SStore vHandle) b =
     (case vHandle of
        HandledRequest handle \<Rightarrow>
          Inr (SSweep 0, b\<lparr>m_inboundRequestsQueue := m_inboundRequestsQueue b @ [handle]\<rparr>,
               [SerializeToStream (getRequestResponse handle)])
      | HandledResponse handle \<Rightarrow>
          Inr (SSweep 0, b\<lparr>m_inboundResponsesMap :=
                 (m_inboundResponsesMap b)(getResponseId handle \<mapsto> handle)\<rparr>, [])
      | NoHandle \<Rightarrow> Inr (SSweep 0, b, []))"
| "spin_micro ph rnd (SSweep j) b =
     (if j < length (m_inboundRequestsQueue b) then
        case getCallbackReturnContext (m_inboundRequestsQueue b ! j) of
          Some i \<Rightarrow> Inr (if is_ready (user_calls b) i then SReturn j else SSweep (Suc j), b, [])
        | None \<Rightarrow> Inr (SSweep j, erase_request j b, [])
      else Inr (SKeepAlive, b, []))"
| "spin_micro ph rnd (SReturn j) b =
     rbind (read_at (m_inboundRequestsQueue b) j) (\<lambda>result.
     rbind (sendReturn ph rnd result b) (\<lambda>(b, es). Inr (SSweep j, erase_request j b, es)))"
| "spin_micro ph rnd (SJoinInbound env) b =
     Inr (SJoinOutbound env,
          if joinable (m_inboundThread b) then b\<lparr>m_inboundThread := join (m_inboundThread b)\<rparr> else b, [])"
| "spin_micro ph rnd (SJoinOutbound env) b =
     Inr (SListen env,
          if joinable (m_outboundThread b) then b\<lparr>m_outboundThread := join (m_outboundThread b)\<rparr> else b, [])"
| "spin_micro ph rnd (SListen env) b =
     (let (s, es) = tcp_listen (listen_result env) (accept_result env) (m_tcpServer b)
      in Inr (SGreet env, b\<lparr>m_tcpServer := s\<rparr>, es))"
| "spin_micro ph rnd (SGreet env) b =
     (if isTCPClientConnected b then Inr (SAwaitGreet env, b, [SerializeToStream createGreetMessage])
      else Inr (SClose, b, []))"
| "spin_micro ph rnd (SAwaitGreet env) b =
     rbind (deserializeFromStream (greet_read env) b) (\<lambda>(_, greetResponse, b, es).
       case handleGreet greetResponse of
         Some swarmAgentId \<Rightarrow> Inr (SStartInbound, b\<lparr>m_swarmAgentID := swarmAgentId\<rparr>, es)
       | None \<Rightarrow> Inr (SClose, b, es))"
| "spin_micro ph rnd SStartInbound b =
     rbind (start_thread (m_inboundThread b)) (\<lambda>t. Inr (SStartOutbound, b\<lparr>m_inboundThread := t\<rparr>, []))"
| "spin_micro ph rnd SStartOutbound b =
     rbind (start_thread (m_outboundThread b)) (\<lambda>t. Inr (SKeepAlive, b\<lparr>m_outboundThread := t\<rparr>, []))"
| "spin_micro ph rnd SClose b =
     rbind (tcp_close (m_tcpServer b)) (\<lambda>(s, es). Inr (SKeepAlive, b\<lparr>m_tcpServer := s\<rparr>, es))"
| "spin_micro ph rnd SKeepAlive b =
     (if 0 < m_keepAliveNbSpin b then
        if m_keepAliveNbSpin b \<le> m_keepAliveCounter b
        then Inr (SKeepQueue, b\<lparr>m_keepAliveCounter := 0\<rparr>, [])
        else Inr (SKeepCount, b, [])
      else Inr (SpinDone, b, []))"
| "spin_micro ph rnd SKeepQueue b = Inr (if isTCPClientConnected b then SKeepPush else SKeepCount, b, [])"
| "spin_micro ph rnd SKeepPush b =
     Inr (SKeepCount, b\<lparr>m_outboundQueue :=
            push (mk_OutboundRequestHandle createGreetMessage) (m_outboundQueue b)\<rparr>, [])"
| "spin_micro ph rnd SKeepCount b =
     Inr (SpinDone, b\<lparr>m_keepAliveCounter := m_keepAliveCounter b + 1\<rparr>, [])"
| "spin_micro ph rnd SpinDone b = Inr (SpinDone, b, [])"


subsection \<open>The call without interference\<close>

fun spin_alone ::
  "pheromones \<Rightarrow> (nat \<Rightarrow> int) \<Rightarrow> nat \<Rightarrow> spin_pc \<Rightarrow> HiveMindBridgeImpl \<Rightarrow>
    (spin_pc \<times> HiveMindBridgeImpl \<times> event list) result" where
  "spin_alone ph rnd 0 pc b = Inr (pc, b, [])"
| "spin_alone ph rnd (Suc n) pc b =
     rbind (spin_micro ph rnd pc b) (\<lambda>(pc, b, es).
       rbind (spin_alone ph rnd n pc b) (\<lambda>(pc, b, es'). Inr (pc, b, es @ es')))"

lemma spin_alone_done: "spin_alone ph rnd n SpinDone b = Inr (SpinDone, b, [])"
  by (induction n) simp_all

text \<open>With at least \<open>k\<close> accesses the call returns \<open>r\<close>: a fault, or the bridge and the events.\<close>

definition finishes ::
  "pheromones \<Rightarrow> (nat \<Rightarrow> int) \<Rightarrow> nat \<Rightarrow> spin_pc \<Rightarrow> HiveMindBridgeImpl \<Rightarrow>
    (HiveMindBridgeImpl \<times> event list) result \<Rightarrow> bool" where
  "finishes ph rnd k pc b r \<longleftrightarrow>
     (\<forall>n \<ge> k. spin_alone ph rnd n pc b = rbind r (\<lambda>(b', es). Inr (SpinDone, b', es)))"

lemma finishes_done: "finishes ph rnd k SpinDone b (Inr (b, []))"
  by (simp add: finishes_def spin_alone_done)

lemma finishes_SucI:
  assumes "\<And>n. k \<le> n \<Longrightarrow> spin_alone ph rnd (Suc n) pc b = rbind r (\<lambda>(b', es). Inr (SpinDone, b', es))"
  shows "finishes ph rnd (Suc k) pc b r"
  unfolding finishes_def
proof (intro allI impI)
  fix n assume "Suc k \<le> n"
  then obtain n' where "n = Suc n'" "k \<le> n'" by (auto dest: Suc_le_D)
  then show "spin_alone ph rnd n pc b = rbind r (\<lambda>(b', es). Inr (SpinDone, b', es))" using assms by blast
qed

lemma finishes_fault: "spin_micro ph rnd pc b = Inl e \<Longrightarrow> finishes ph rnd (Suc k) pc b (Inl e)"
  by (rule finishes_SucI) simp

lemma finishes_step:
  assumes "spin_micro ph rnd pc b = Inr (pc', b', es)" "finishes ph rnd k pc' b' r"
  shows "finishes ph rnd (Suc k) pc b (rbind r (\<lambda>(b'', es'). Inr (b'', es @ es')))"
proof (rule finishes_SucI)
  fix n assume "k \<le> n"
  then show "spin_alone ph rnd (Suc n) pc b =
      rbind (rbind r (\<lambda>(b'', es'). Inr (b'', es @ es'))) (\<lambda>(b', es). Inr (SpinDone, b', es))"
    using assms by (cases r) (auto simp: finishes_def)
qed

lemma finishes_silent:
  assumes "spin_micro ph rnd pc b = Inr (pc', b', [])" "finishes ph rnd k pc' b' r"
  shows "finishes ph rnd (Suc k) pc b r"
proof -
  have "rbind r (\<lambda>(b'', es'). Inr (b'', [] @ es')) = r" by (cases r) auto
  then show ?thesis using finishes_step [OF assms] by simp
qed

lemma finishes_mono: "finishes ph rnd k pc b r \<Longrightarrow> k \<le> k' \<Longrightarrow> finishes ph rnd k' pc b r"
  by (simp add: finishes_def)

lemma keepAlive_finishes: "finishes ph rnd 4 SKeepAlive b (Inr (spin_keepAlive b, []))"
proof (cases "0 < m_keepAliveNbSpin b")
  case False
  have "finishes ph rnd (Suc 3) SKeepAlive b (Inr (spin_keepAlive b, []))"
    by (rule finishes_silent [where pc' = SpinDone and b' = b])
       (use False finishes_done in \<open>simp_all add: spin_keepAlive_def\<close>)
  then show ?thesis by simp
next
  case True
  note on = this
  have count: "finishes ph rnd (Suc k) SKeepCount c
      (Inr (c\<lparr>m_keepAliveCounter := m_keepAliveCounter c + 1\<rparr>, []))" for c k
    by (rule finishes_silent [OF _ finishes_done]) simp
  show ?thesis
  proof (cases "m_keepAliveNbSpin b \<le> m_keepAliveCounter b")
    case False
    have "finishes ph rnd (Suc (Suc 2)) SKeepAlive b
        (Inr (b\<lparr>m_keepAliveCounter := m_keepAliveCounter b + 1\<rparr>, []))"
      by (rule finishes_silent [OF _ count]) (use on False in simp)
    then show ?thesis using on False by (simp add: spin_keepAlive_def)
  next
    case True
    let ?b = "b\<lparr>m_keepAliveCounter := 0\<rparr>"
    let ?p = "?b\<lparr>m_outboundQueue := push (mk_OutboundRequestHandle createGreetMessage) (m_outboundQueue b)\<rparr>"
    have "finishes ph rnd (Suc (Suc (Suc (Suc 0)))) SKeepAlive b
        (Inr ((if isTCPClientConnected b then ?p else ?b)\<lparr>m_keepAliveCounter := 1\<rparr>, []))"
    proof (rule finishes_silent)
      show "spin_micro ph rnd SKeepAlive b = Inr (SKeepQueue, ?b, [])" using on True by simp
      have con: "isTCPClientConnected ?b = isTCPClientConnected b" by (simp add: isTCPClientConnected_def)
      show "finishes ph rnd (Suc (Suc (Suc 0))) SKeepQueue ?b
          (Inr ((if isTCPClientConnected b then ?p else ?b)\<lparr>m_keepAliveCounter := 1\<rparr>, []))"
      proof (cases "isTCPClientConnected b")
        case True
        have "finishes ph rnd (Suc (Suc 0)) SKeepPush ?b (Inr (?p\<lparr>m_keepAliveCounter := 1\<rparr>, []))"
          by (rule finishes_silent) (use count [of 0 ?p] in simp_all)
        then show ?thesis using finishes_silent [of ph rnd SKeepQueue ?b SKeepPush ?b] True con by simp
      next
        case False
        have "finishes ph rnd (Suc (Suc 0)) SKeepCount ?b (Inr (?b\<lparr>m_keepAliveCounter := 1\<rparr>, []))"
          using count [of "Suc 0" ?b] by simp
        then show ?thesis using finishes_silent [of ph rnd SKeepQueue ?b SKeepCount ?b] False con by simp
      qed
    qed
    then show ?thesis
      using on True
      by (simp add: spin_keepAlive_def queueAndSend_def isTCPClientConnected_def eval_nat_numeral Let_def
          split: if_splits)
  qed
qed


text \<open>The loop: erasing in place gives the handles that \<open>sweep_requests\<close> keeps.\<close>

lemma sendReturn_queue:
  "sendReturn ph rnd h (b\<lparr>m_inboundRequestsQueue := q\<rparr>) =
     rbind (sendReturn ph rnd h b) (\<lambda>(b', es). Inr (b'\<lparr>m_inboundRequestsQueue := q\<rparr>, es))"
  by (cases "future_get (user_calls b) (getCallbackReturnContext h)"; cases "getMessageDestinationId h";
      cases "getMessageSourceId h"; cases "getSourceModule h")
     (simp_all add: sendReturn_def Let_def nextRandomId_def split: option.split)

lemma sweep_requests_queue:
  "sweep_requests ph rnd hs (b\<lparr>m_inboundRequestsQueue := q\<rparr>) =
     rbind (sweep_requests ph rnd hs b)
       (\<lambda>(kept, b', es). Inr (kept, b'\<lparr>m_inboundRequestsQueue := q\<rparr>, es))"
proof (induction hs arbitrary: b)
  case Nil
  then show ?case by simp
next
  case (Cons h hs)
  have ret: "rbind (sendReturn ph rnd h (b\<lparr>m_inboundRequestsQueue := q\<rparr>)) (\<lambda>(b, es).
        rbind (sweep_requests ph rnd hs b) (\<lambda>(kept, b, es'). Inr (kept, b, es @ es'))) =
      rbind (rbind (sendReturn ph rnd h b) (\<lambda>(b, es).
        rbind (sweep_requests ph rnd hs b) (\<lambda>(kept, b, es'). Inr (kept, b, es @ es'))))
       (\<lambda>(kept, b', es). Inr (kept, b'\<lparr>m_inboundRequestsQueue := q\<rparr>, es))"
  proof (cases "sendReturn ph rnd h b")
    case (Inr x)
    obtain b1 es1 where "x = (b1, es1)" by fastforce
    then show ?thesis
      using Inr Cons.IH [of b1]
      by (cases "sweep_requests ph rnd hs b1") (auto simp: sendReturn_queue)
  qed (simp add: sendReturn_queue)
  have skip: "rbind (sweep_requests ph rnd hs (b\<lparr>m_inboundRequestsQueue := q\<rparr>))
        (\<lambda>(kept, b, es'). Inr (h # kept, b, es')) =
      rbind (rbind (sweep_requests ph rnd hs b) (\<lambda>(kept, b, es'). Inr (h # kept, b, es')))
       (\<lambda>(kept, b', es). Inr (kept, b'\<lparr>m_inboundRequestsQueue := q\<rparr>, es))"
    using Cons.IH [of b] by (cases "sweep_requests ph rnd hs b") auto
  show ?case using ret skip Cons.IH [of b] by (simp split: option.split)
qed

lemma erase_at_iterator:
  "m_inboundRequestsQueue b = kept @ h # rest \<Longrightarrow>
   erase_request (length kept) b = b\<lparr>m_inboundRequestsQueue := kept @ rest\<rparr>"
  by (simp add: erase_request_def)

lemma sendReturn_keeps_queue:
  "sendReturn ph rnd h b = Inr (b', es) \<Longrightarrow> m_inboundRequestsQueue b' = m_inboundRequestsQueue b"
  by (auto simp: sendReturn_def rbind_eq_Inr Let_def nextRandomId_def split: option.splits if_splits)

lemma sweep_finishes:
  "m_inboundRequestsQueue b = kept @ rest \<Longrightarrow>
   finishes ph rnd (2 * length rest + 5) (SSweep (length kept)) b
     (rbind (sweep_requests ph rnd rest b) (\<lambda>(kept', b', es).
        Inr (spin_keepAlive (b'\<lparr>m_inboundRequestsQueue := kept @ kept'\<rparr>), es)))"
proof (induction rest arbitrary: kept b)
  case Nil
  have "b\<lparr>m_inboundRequestsQueue := kept\<rparr> = b" using Nil by (cases b) simp
  moreover have "finishes ph rnd (Suc 4) (SSweep (length kept)) b (Inr (spin_keepAlive b, []))"
    by (rule finishes_silent [OF _ keepAlive_finishes]) (simp add: Nil)
  ultimately show ?case by simp
next
  case (Cons h rest)
  let ?k = "2 * length rest + 5"
  let ?b = "b\<lparr>m_inboundRequestsQueue := kept @ rest\<rparr>"
  let ?r = "\<lambda>b. rbind (sweep_requests ph rnd rest b) (\<lambda>(kept', b', es).
    Inr (spin_keepAlive (b'\<lparr>m_inboundRequestsQueue := kept @ kept'\<rparr>), es))"
  have erased: "finishes ph rnd ?k (SSweep (length kept)) (c\<lparr>m_inboundRequestsQueue := kept @ rest\<rparr>) (?r c)"
    for c
  proof -
    have "?r (c\<lparr>m_inboundRequestsQueue := kept @ rest\<rparr>) = ?r c"
      by (simp add: sweep_requests_queue rbind_assoc case_prod_unfold)
    then show ?thesis using Cons.IH [of "c\<lparr>m_inboundRequestsQueue := kept @ rest\<rparr>" kept] by simp
  qed
  have "finishes ph rnd (Suc (Suc ?k)) (SSweep (length kept)) b
    (rbind (sweep_requests ph rnd (h # rest) b) (\<lambda>(kept', b', es).
        Inr (spin_keepAlive (b'\<lparr>m_inboundRequestsQueue := kept @ kept'\<rparr>), es)))"
  proof (cases "getCallbackReturnContext h")
    case None
    have "finishes ph rnd (Suc ?k) (SSweep (length kept)) b (?r b)"
      by (rule finishes_silent [OF _ erased]) (simp add: Cons.prems None erase_at_iterator)
    then show ?thesis using None by (simp add: finishes_mono)
  next
    case (Some i)
    note ctx = this
    show ?thesis
    proof (cases "is_ready (user_calls b) i")
      case False
      have "finishes ph rnd ?k (SSweep (Suc (length kept))) b
          (rbind (sweep_requests ph rnd rest b) (\<lambda>(kept', b', es).
            Inr (spin_keepAlive (b'\<lparr>m_inboundRequestsQueue := kept @ h # kept'\<rparr>), es)))"
        using Cons.IH [of b "kept @ [h]"] Cons.prems by simp
      from finishes_silent [OF _ this, of "SSweep (length kept)" b]
      have "finishes ph rnd (Suc ?k) (SSweep (length kept)) b
          (rbind (sweep_requests ph rnd rest b) (\<lambda>(kept', b', es).
            Inr (spin_keepAlive (b'\<lparr>m_inboundRequestsQueue := kept @ h # kept'\<rparr>), es)))"
        using ctx False Cons.prems by simp
      then show ?thesis
        using ctx False by (simp add: finishes_mono rbind_assoc case_prod_unfold)
    next
      case True
      have test: "spin_micro ph rnd (SSweep (length kept)) b = Inr (SReturn (length kept), b, [])"
        using ctx True Cons.prems by simp
      show ?thesis
      proof (cases "sendReturn ph rnd h b")
        case (Inl e)
        have "finishes ph rnd (Suc (Suc 0)) (SSweep (length kept)) b (Inl e)"
          by (rule finishes_silent [OF test finishes_fault]) (simp add: Cons.prems Inl read_at_def)
        then show ?thesis using ctx True Inl by (simp add: finishes_mono)
      next
        case (Inr x)
        obtain b1 es1 where x: "x = (b1, es1)" by fastforce
        have b1: "m_inboundRequestsQueue b1 = kept @ h # rest"
          using sendReturn_keeps_queue Inr x Cons.prems by fastforce
        have "spin_micro ph rnd (SReturn (length kept)) b =
            Inr (SSweep (length kept), b1\<lparr>m_inboundRequestsQueue := kept @ rest\<rparr>, es1)"
          using Inr x b1 Cons.prems by (simp add: erase_at_iterator read_at_def)
        from finishes_silent [OF test finishes_step [OF this erased]]
        show ?thesis
          using ctx True Inr x by (simp add: rbind_assoc case_prod_unfold)
      qed
    qed
  qed
  then show ?case by simp
qed


abbreviation swept :: "pheromones \<Rightarrow> (nat \<Rightarrow> int) \<Rightarrow> HiveMindBridgeImpl \<Rightarrow>
    (HiveMindBridgeImpl \<times> event list) result" where
  "swept ph rnd b \<equiv> rbind (sweep_requests ph rnd (m_inboundRequestsQueue b) b) (\<lambda>(kept, b', es).
     Inr (spin_keepAlive (b'\<lparr>m_inboundRequestsQueue := kept\<rparr>), es))"

lemma swept_finishes:
  "2 * length (m_inboundRequestsQueue b) + 5 \<le> k \<Longrightarrow> finishes ph rnd k (SSweep 0) b (swept ph rnd b)"
  using sweep_finishes [of b "[]"] by (auto intro: finishes_mono)

lemma served_finishes:
  fixes b
  defines "k \<equiv> 2 * length (m_inboundRequestsQueue b) + 7"
  shows "finishes ph rnd (k + 5) SEmpty b
    (rbind (spin_connected ph rnd b) (\<lambda>(b, es). Inr (spin_keepAlive b, es)))"
proof (cases "inbound b")
  case Nil
  have "finishes ph rnd (Suc k) SEmpty b (swept ph rnd b)"
    by (rule finishes_silent [OF _ swept_finishes]) (simp_all add: Nil empty_iff k_def)
  then show ?thesis
    using Nil by (simp add: spin_connected_def spin_receive_Nil rbind_assoc case_prod_unfold finishes_mono)
next
  case (Cons msg rest)
  have "finishes ph rnd (Suc (Suc (Suc k + 2))) SEmpty b
      (rbind (spin_connected ph rnd b) (\<lambda>(b, es). Inr (spin_keepAlive b, es)))"
  proof (rule finishes_silent)
    show "spin_micro ph rnd SEmpty b = Inr (SFront, b, [])" using Cons by (simp add: empty_iff)
    show "finishes ph rnd (Suc (Suc k + 2)) SFront b
      (rbind (spin_connected ph rnd b) (\<lambda>(b, es). Inr (spin_keepAlive b, es)))"
    proof (rule finishes_silent)
      show "spin_micro ph rnd SFront b = Inr (SHandle msg, b, [])" using Cons by (simp add: front_def)
      show "finishes ph rnd (Suc k + 2) (SHandle msg) b
        (rbind (spin_connected ph rnd b) (\<lambda>(b, es). Inr (spin_keepAlive b, es)))"
      proof (cases "MessageHandler_handleMessage ph msg (m_messageHandler b)")
        case (Inl e)
        then have "spin_connected ph rnd b = Inl e"
          using Cons by (simp add: spin_connected_def spin_receive_Cons)
        then show ?thesis using finishes_fault [of ph rnd "SHandle msg" b e "k + 2"] Inl by simp
      next
        case (Inr x)
        obtain r mh es1 where x: "x = (r, mh, es1)" by (metis prod_cases3)
        let ?b = "b\<lparr>m_messageHandler := mh, m_inboundQueue := (m_inboundQueue b)\<lparr>m_queue := rest\<rparr>\<rparr>"
        have pop: "spin_micro ph rnd (SPop r) (b\<lparr>m_messageHandler := mh\<rparr>) = Inr (SStore r, ?b, [])"
          using Cons by (simp add: pop_def)
        obtain b' es2 where st: "spin_micro ph rnd (SStore r) ?b = Inr (SSweep 0, b', es2)"
          and rcv: "spin_receive ph b = Inr (b', es1 @ es2)"
          and len: "length (m_inboundRequestsQueue b') \<le> Suc (length (m_inboundRequestsQueue b))"
          using Cons Inr x by (cases r) (auto simp: spin_receive_Cons bridge_defs)
        have "finishes ph rnd k (SSweep 0) b' (swept ph rnd b')"
          by (rule swept_finishes) (use len in \<open>simp add: k_def\<close>)
        from finishes_step [OF _ finishes_silent [OF pop finishes_step [OF st this]],
            of "SHandle msg" b es1]
        show ?thesis
          using Inr x by (simp add: spin_connected_def rcv rbind_assoc case_prod_unfold)
      qed
    qed
  qed
  then show ?thesis by (simp add: numeral_eq_Suc)
qed

lemma close_finishes:
  "finishes ph rnd 5 SClose c
    (rbind (tcp_close (m_tcpServer c)) (\<lambda>(s, es). Inr (spin_keepAlive (c\<lparr>m_tcpServer := s\<rparr>), es)))"
proof (cases "tcp_close (m_tcpServer c)")
  case (Inl e)
  then show ?thesis using finishes_fault [of ph rnd SClose c e 4] by simp
next
  case (Inr x)
  then show ?thesis
    using finishes_step [OF _ keepAlive_finishes, of ph rnd SClose c "c\<lparr>m_tcpServer := fst x\<rparr>" "snd x"]
    by (cases x) simp
qed

lemma start_finishes:
  "finishes ph rnd 6 SStartInbound c
    (rbind (start_thread (m_inboundThread c)) (\<lambda>t. rbind (start_thread (m_outboundThread c)) (\<lambda>t'.
      Inr (spin_keepAlive (c\<lparr>m_inboundThread := t, m_outboundThread := t'\<rparr>), []))))"
proof (cases "start_thread (m_inboundThread c)")
  case (Inl e)
  then show ?thesis using finishes_fault [of ph rnd SStartInbound c e 5] by simp
next
  case (Inr t)
  let ?c = "c\<lparr>m_inboundThread := t\<rparr>"
  have "finishes ph rnd 5 SStartOutbound ?c (rbind (start_thread (m_outboundThread c)) (\<lambda>t'.
      Inr (spin_keepAlive (c\<lparr>m_inboundThread := t, m_outboundThread := t'\<rparr>), [])))"
  proof (cases "start_thread (m_outboundThread c)")
    case (Inl e)
    then show ?thesis using finishes_fault [of ph rnd SStartOutbound ?c e 4] by simp
  next
    case (Inr t')
    then show ?thesis
      using finishes_silent [OF _ keepAlive_finishes, of ph rnd SStartOutbound ?c "?c\<lparr>m_outboundThread := t'\<rparr>"]
      by simp
  qed
  then show ?thesis using finishes_silent [of ph rnd SStartInbound c SStartOutbound ?c 5] Inr by simp
qed

text \<open>What follows the greeting: the threads start, or the connection is closed.\<close>

definition after_greet :: "bool \<times> HiveMindBridgeImpl \<times> event list \<Rightarrow> (HiveMindBridgeImpl \<times> event list) result"
where
  "after_greet = (\<lambda>(greeted, c, es).
     if greeted then rbind (start_thread (m_inboundThread c)) (\<lambda>t.
       rbind (start_thread (m_outboundThread c)) (\<lambda>t'.
         Inr (spin_keepAlive (c\<lparr>m_inboundThread := t, m_outboundThread := t'\<rparr>), es)))
     else rbind (tcp_close (m_tcpServer c)) (\<lambda>(s, es').
       Inr (spin_keepAlive (c\<lparr>m_tcpServer := s\<rparr>), es @ es')))"

lemma greet_finishes:
  "finishes ph rnd 8 (SGreet env) b (rbind (greet (greet_read env) b) after_greet)"
proof (cases "isTCPClientConnected b")
  case False
  then show ?thesis
    using finishes_mono [OF finishes_silent [OF _ close_finishes, of ph rnd "SGreet env" b b]]
    by (simp add: greet_def after_greet_def)
next
  case True
  have test: "spin_micro ph rnd (SGreet env) b = Inr (SAwaitGreet env, b, [SerializeToStream createGreetMessage])"
    using True by simp
  show ?thesis
  proof (cases "deserializeFromStream (greet_read env) b")
    case (Inl e)
    then have "finishes ph rnd 7 (SAwaitGreet env) b (Inl e)"
      using finishes_fault [of ph rnd "SAwaitGreet env" b e 6] by simp
    from finishes_step [OF test this] show ?thesis using True Inl by (simp add: greet_def)
  next
    case (Inr x)
    obtain f m c es1 where x: "x = (f, m, c, es1)" by (metis prod_cases4)
    show ?thesis
    proof (cases "handleGreet m")
      case None
      then have "spin_micro ph rnd (SAwaitGreet env) b = Inr (SClose, c, es1)" using Inr x by simp
      from finishes_step [OF test finishes_step [OF this finishes_mono [OF close_finishes, of 6]]]
      show ?thesis
        using True Inr x None by (simp add: greet_def after_greet_def rbind_assoc case_prod_unfold)
    next
      case (Some i)
      then have "spin_micro ph rnd (SAwaitGreet env) b =
          Inr (SStartInbound, c\<lparr>m_swarmAgentID := i\<rparr>, es1)" using Inr x by simp
      from finishes_step [OF test finishes_step [OF this start_finishes]]
      show ?thesis
        using True Inr x Some by (simp add: greet_def after_greet_def rbind_assoc case_prod_unfold)
    qed
  qed
qed

lemma waits_finishes:
  "finishes ph rnd 12 (SJoinInbound env) b
    (rbind (spin_reconnect env b) (\<lambda>(b, es). Inr (spin_keepAlive b, es)))"
proof -
  let ?b = "b\<lparr>m_inboundThread := NoThread, m_outboundThread := NoThread\<rparr>"
  obtain s es where l: "tcp_listen (listen_result env) (accept_result env) (m_tcpServer b) = (s, es)"
    by fastforce
  let ?b1 = "?b\<lparr>m_tcpServer := s\<rparr>"
  have join: "spin_micro ph rnd (SJoinInbound env) b = Inr (SJoinOutbound env, b\<lparr>m_inboundThread := NoThread\<rparr>, [])"
    "spin_micro ph rnd (SJoinOutbound env) (b\<lparr>m_inboundThread := NoThread\<rparr>) = Inr (SListen env, ?b, [])"
    by (cases b; simp add: joinable_def join_def)+
  have "spin_micro ph rnd (SListen env) ?b = Inr (SGreet env, ?b1, es)" using l by simp
  from finishes_silent [OF join(1) finishes_silent [OF join(2) finishes_step [OF this greet_finishes]]]
  have "finishes ph rnd 11 (SJoinInbound env) b
      (rbind (rbind (greet (greet_read env) ?b1) after_greet) (\<lambda>(b'', es'). Inr (b'', es @ es')))" by simp
  moreover have "rbind (rbind (greet (greet_read env) ?b1) after_greet) (\<lambda>(b'', es'). Inr (b'', es @ es')) =
      rbind (spin_reconnect env b) (\<lambda>(b, es). Inr (spin_keepAlive b, es))"
    unfolding spin_reconnect_eq [OF l] rbind_assoc after_greet_def
    by (intro arg_cong [where f = "rbind _"] ext) (auto simp: rbind_assoc case_prod_unfold)
  ultimately show ?thesis by (simp add: finishes_mono)
qed

lemma cut_spin:
  assumes "2 * length (m_inboundRequestsQueue b) + 13 \<le> n"
  shows "spin_alone ph rnd n (SpinCall env) b = rbind (spin ph rnd env b) (\<lambda>(b', es). Inr (SpinDone, b', es))"
proof -
  have "finishes ph rnd (2 * length (m_inboundRequestsQueue b) + 13) (SpinCall env) b (spin ph rnd env b)"
  proof (cases "isTCPClientConnected b")
    case True
    from finishes_silent [OF _ served_finishes, of ph rnd "SpinCall env" b b] True
    show ?thesis by (simp add: spin_def add.commute)
  next
    case False
    from finishes_silent [OF _ waits_finishes, of ph rnd "SpinCall env" b env b] False
    show ?thesis by (simp add: spin_def finishes_mono)
  qed
  then show ?thesis using assms by (simp add: finishes_def)
qed

text \<open>
  C9. Without interference the cut call is the spin of the model: after at most \<open>2 n + 13\<close> accesses, with
  \<open>n\<close> handles queued, it has faulted exactly where \<open>spin\<close> faults, or is done and has made exactly its
  change and emitted exactly its events. In particular erasing handles in place, with the iterator
  that \<open>erase\<close> returns, keeps exactly the handles of the running calls.
\<close>

theorem spin_alone_spin:
  assumes "2 * length (m_inboundRequestsQueue b) + 13 \<le> n"
  shows "spin_alone ph rnd n (SpinCall env) b = rbind (spin ph rnd env b) (\<lambda>(b', es). Inr (SpinDone, b', es))"
  by (rule cut_spin [OF assms])

theorem spin_alone_spin_witness:
  "\<exists>b'. spin_alone sample_pheromones (\<lambda>n. 0) 13 (SpinCall sample_env) sample_call_bridge =
    Inr (SpinDone, b', [SerializeToStream (call_ack sample_pheromones 1 2 9 BUZZ)])"
proof -
  have "getCallback (getFunctionName sample_call) (callback_map sample_call_bridge) = Some sample_echo"
    by (simp add: sample_call_def)
  from spin_call_message [OF sample_call_simps(1,2,4,3) this, of sample_pheromones "\<lambda>n. 0" sample_env]
  obtain b' where "spin sample_pheromones (\<lambda>n. 0) sample_env sample_call_bridge =
      Inr (b', [SerializeToStream (call_ack sample_pheromones 1 2 9 BUZZ)])" by blast
  then show ?thesis
    using spin_alone_spin [of sample_call_bridge 13 sample_pheromones "\<lambda>n. 0" sample_env]
    by (simp del: spin_alone.simps)
qed

end
