(* ===== verification/Concurrency.thy ===== *)
theory Concurrency
  imports Prelude Pheromones ThreadSafeQueue Handles UserCallRequestHandler MessageHandler TCPServer
    HiveMindBridgeImpl OutboundQueue Spin HiveMindBridge BridgeSystem Inbound OutboundThread Executions
    CallResults SpinThread
begin

section \<open>All threads, one access at a time\<close>

text \<open>
  The program as its threads run: the thread that calls \<open>spin\<close>, the inbound thread, the outbound
  thread, the threads of the running actions, and users that call the interface. Every access to
  shared state is a step of its own and the steps of different threads interleave in any order; a join
  waits until the joined thread has returned. \<open>rely\<close> is what the other threads may do between two
  accesses of a spin; the theory shows which accesses can fault and that every join ends.
\<close>

subsection \<open>The inbound thread\<close>

datatype inbound_pc =
    RLoop                    \<comment> \<open>\<open>while (isTCPClientConnected())\<close>\<close>
  | RRead                    \<comment> \<open>\<open>m_deserializer.deserializeFromStream(message)\<close>\<close>
  | RPush MessageDTO         \<comment> \<open>\<open>m_inboundQueue.push(message)\<close>\<close>
  | RReturned

fun inbound_micro ::
  "stream_read \<Rightarrow> inbound_pc \<Rightarrow> HiveMindBridgeImpl \<Rightarrow> (inbound_pc \<times> HiveMindBridgeImpl \<times> event list) result"
where
  "inbound_micro d RLoop b =
     (if isTCPClientConnected b then Inr (RRead, b, [])
      else Inr (RReturned, b\<lparr>m_inboundThread := FinishedThread\<rparr>, []))"
| "inbound_micro d RRead b =
     rbind (deserializeFromStream d b) (\<lambda>(success, message, b, es).
       Inr (if success then RPush message else RLoop, b, es))"
| "inbound_micro d (RPush message) b =
     Inr (RLoop, b\<lparr>m_inboundQueue := push message (m_inboundQueue b)\<rparr>, [])"
| "inbound_micro d RReturned b = Inr (RReturned, b, [])"

text \<open>Alone, the three accesses of a turn make the turn of the model.\<close>

lemma inbound_alone_turn:
  assumes "isTCPClientConnected b" "inboundThread_step d b = Inr (b', es)"
  shows "\<exists>pc b1. inbound_micro d RLoop b = Inr (RRead, b, []) \<and> inbound_micro d RRead b = Inr (pc, b1, es) \<and>
    (if read_ok d then pc = RPush (read_message d) \<and> inbound_micro d pc b1 = Inr (RLoop, b', [])
     else pc = RLoop \<and> b1 = b')"
proof -
  obtain s where s: "receive_calls (recv_results d) (m_tcpServer b) = Inr (s, es)"
    and "b' = (if read_ok d
      then b\<lparr>m_tcpServer := s, m_inboundQueue := push (read_message d) (m_inboundQueue b)\<rparr>
      else b\<lparr>m_tcpServer := s\<rparr>)"
    using assms
    by (auto simp: inboundThread_step_def inbound_turn_def deserializeFromStream_def rbind_eq_Inr
        split: if_splits)
  then show ?thesis
    using assms(1)
    by (intro exI [of _ "if read_ok d then RPush (read_message d) else RLoop"]
        exI [of _ "b\<lparr>m_tcpServer := s\<rparr>"]) (simp add: deserializeFromStream_def)
qed


subsection \<open>The threads together\<close>

record threads =
  bridge :: HiveMindBridgeImpl
  at_spin :: spin_pc
  at_inbound :: inbound_pc
  at_outbound :: outbound_pc

datatype thread_action =
    SpinCalls accept_env
  | SpinAccess
  | InboundAccess stream_read
  | OutboundAccess
  | UserCall api_call
  | ActionEnds nat

text \<open>A join waits while the thread runs.\<close>

fun join_waits :: "spin_pc \<Rightarrow> HiveMindBridgeImpl \<Rightarrow> bool" where
  "join_waits (SJoinInbound env) b = (m_inboundThread b = RunningThread)"
| "join_waits (SJoinOutbound env) b = (m_outboundThread b = RunningThread)"
| "join_waits _ b = False"

inductive thread_step ::
  "pheromones \<Rightarrow> (nat \<Rightarrow> int) \<Rightarrow> threads \<Rightarrow> thread_action \<Rightarrow> event list \<Rightarrow> threads \<Rightarrow> bool"
  for ph :: pheromones and rnd :: "nat \<Rightarrow> int"
where
  spin_calls: "at_spin t = SpinDone \<Longrightarrow>
    thread_step ph rnd t (SpinCalls env) [] (t\<lparr>at_spin := SpinCall env\<rparr>)"
| spin_access: "\<not> join_waits (at_spin t) (bridge t) \<Longrightarrow>
    spin_micro ph rnd (at_spin t) (bridge t) = Inr (pc, b, es) \<Longrightarrow>
    thread_step ph rnd t SpinAccess es
      (t\<lparr>bridge := b, at_spin := pc,
         at_inbound := if at_spin t = SStartInbound then RLoop else at_inbound t,
         at_outbound := if at_spin t = SStartOutbound then AtLoop else at_outbound t\<rparr>)"
| inbound_access: "m_inboundThread (bridge t) = RunningThread \<Longrightarrow> read_wf d \<Longrightarrow>
    inbound_micro d (at_inbound t) (bridge t) = Inr (pc, b, es) \<Longrightarrow>
    thread_step ph rnd t (InboundAccess d) es (t\<lparr>bridge := b, at_inbound := pc\<rparr>)"
| outbound_access: "m_outboundThread (bridge t) = RunningThread \<Longrightarrow>
    outbound_micro (at_outbound t) (bridge t) = Inr (pc, b, es) \<Longrightarrow>
    thread_step ph rnd t OutboundAccess es (t\<lparr>bridge := b, at_outbound := pc\<rparr>)"
| user_call: "api_step ph rnd c (bridge t) = (r, b, es) \<Longrightarrow>
    thread_step ph rnd t (UserCall c) es (t\<lparr>bridge := b\<rparr>)"
| action_ends: "finish_call i (bridge t) = (b, es) \<Longrightarrow>
    thread_step ph rnd t (ActionEnds i) es (t\<lparr>bridge := b\<rparr>)"

definition initial_threads :: "threads \<Rightarrow> bool" where
  "initial_threads t \<longleftrightarrow>
     initial_bridge (bridge t) \<and> at_spin t = SpinDone \<and> at_inbound t = RReturned \<and> at_outbound t = Returned"

type_synonym access = "threads \<times> thread_action \<times> event list"

inductive thread_run :: "pheromones \<Rightarrow> (nat \<Rightarrow> int) \<Rightarrow> access list \<Rightarrow> threads \<Rightarrow> bool"
  for ph :: pheromones and rnd :: "nat \<Rightarrow> int"
where
  run_starts: "initial_threads t \<Longrightarrow> thread_run ph rnd [] t"
| run_accesses: "thread_run ph rnd tr t \<Longrightarrow> thread_step ph rnd t a es t' \<Longrightarrow>
    thread_run ph rnd (tr @ [(t, a, es)]) t'"


subsection \<open>What the other threads may do between two accesses of a spin\<close>

definition rely :: "HiveMindBridgeImpl \<Rightarrow> HiveMindBridgeImpl \<Rightarrow> bool" where
  "rely b b' \<longleftrightarrow>
     (\<exists>ms. inbound b' = inbound b @ ms) \<and>
     m_inboundRequestsQueue b' = m_inboundRequestsQueue b \<and>
     length (m_calls (user_calls b')) = length (m_calls (user_calls b)) \<and>
     (\<forall>i. is_ready (user_calls b) i \<longrightarrow> is_ready (user_calls b') i) \<and>
     m_clientFd (m_tcpServer b') = m_clientFd (m_tcpServer b) \<and>
     (isTCPClientConnected b' \<longrightarrow> isTCPClientConnected b) \<and>
     (m_inboundThread b = NoThread \<longrightarrow> m_inboundThread b' = NoThread) \<and>
     (m_outboundThread b = NoThread \<longrightarrow> m_outboundThread b' = NoThread)"

lemma relyI:
  assumes "\<exists>ms. inbound b' = inbound b @ ms" "m_inboundRequestsQueue b' = m_inboundRequestsQueue b"
    "m_calls (user_calls b') = m_calls (user_calls b)"
    "m_clientFd (m_tcpServer b') = m_clientFd (m_tcpServer b)"
    "isTCPClientConnected b' \<Longrightarrow> isTCPClientConnected b"
    "m_inboundThread b = NoThread \<Longrightarrow> m_inboundThread b' = NoThread"
    "m_outboundThread b = NoThread \<Longrightarrow> m_outboundThread b' = NoThread"
  shows "rely b b'"
  using assms by (auto simp: rely_def is_ready_def)

lemma inbound_micro_cases:
  assumes "inbound_micro d pc b = Inr (pc', b', es)"
  obtains (test) "pc = RLoop" "isTCPClientConnected b" "pc' = RRead" "b' = b" "es = []"
  | (leave) "pc = RLoop" "\<not> isTCPClientConnected b" "pc' = RReturned"
      "b' = b\<lparr>m_inboundThread := FinishedThread\<rparr>" "es = []"
  | (reads) s where "pc = RRead" "b' = b\<lparr>m_tcpServer := s\<rparr>" "m_clientFd s = m_clientFd (m_tcpServer b)"
      "m_isClientConnected s \<longrightarrow> isTCPClientConnected b" "serialized es = []"
      "pc' = (if read_ok d then RPush (read_message d) else RLoop)"
  | (pushes) m where "pc = RPush m" "pc' = RLoop" "b' = b\<lparr>m_inboundQueue := push m (m_inboundQueue b)\<rparr>"
      "es = []"
  | (stays) "pc = RReturned" "pc' = RReturned" "b' = b" "es = []"
proof (cases pc)
  case RLoop
  show ?thesis
  proof (cases "isTCPClientConnected b")
    case True
    then show ?thesis using assms RLoop by (intro test) simp_all
  next
    case False
    then show ?thesis using assms RLoop by (intro leave) simp_all
  qed
next
  case (RPush m)
  then show ?thesis using assms by (intro pushes [of m]) simp_all
next
  case RReturned
  then show ?thesis using assms by (intro stays) simp_all
next
  case RRead
  then obtain s where s: "receive_calls (recv_results d) (m_tcpServer b) = Inr (s, es)"
    "b' = b\<lparr>m_tcpServer := s\<rparr>" "pc' = (if read_ok d then RPush (read_message d) else RLoop)"
    using assms by (auto simp: deserializeFromStream_def rbind_eq_Inr)
  from receive_calls_frame [OF s(1)] show ?thesis
    by (intro reads [OF RRead s(2)]) (auto simp: s(3) isTCPClientConnected_def tcp_isClientConnected_def)
qed

lemma inbound_micro_rely:
  assumes "inbound_micro d pc b = Inr (pc', b', es)" "m_inboundThread b = RunningThread"
  shows "rely b b'"
  using assms(1)
  by (cases rule: inbound_micro_cases)
     (use assms(2) in \<open>auto intro!: relyI simp: isTCPClientConnected_def tcp_isClientConnected_def push_def\<close>)

lemma outbound_micro_frame:
  assumes "outbound_micro pc b = Inr (pc', b', es)"
  shows "\<exists>q m t. b' = b\<lparr>m_outboundQueue := q, m_inboundResponsesMap := m, m_outboundThread := t\<rparr> \<and>
    t = (if pc = AtLoop \<and> \<not> isTCPClientConnected b then FinishedThread else m_outboundThread b)"
  using assms
  by (cases b; cases pc)
     (auto simp: Let_def rbind_eq_Inr split: if_splits message_body.splits option.splits prod.splits)

lemma outbound_micro_rely:
  assumes "outbound_micro pc b = Inr (pc', b', es)" "m_outboundThread b = RunningThread"
  shows "rely b b'"
  using outbound_micro_frame [OF assms(1)] assms(2)
  by (auto intro!: relyI simp: isTCPClientConnected_def)

lemma api_step_rely:
  assumes "api_step ph rnd c b = (r, b', es)"
  shows "rely b b'"
  using api_step_cases [of b ph rnd c] assms
  by (auto simp: sends_only_def configures_def isTCPClientConnected_def tcp_isClientConnected_def intro!: relyI)

lemma run_call_ready: "is_ready s i \<Longrightarrow> is_ready (fst (run_call j s)) i"
  by (auto simp: is_ready_def run_call_def Let_def nth_list_update
      split: call_state.splits prod.splits if_splits)

lemma finish_rely: "rely b (fst (finish_call i b))"
  by (simp add: rely_def run_call_ready run_call_frame isTCPClientConnected_def)


subsection \<open>What holds at each access\<close>

text \<open>What a spin knows where it is; the steps of the other threads leave it true.\<close>

definition no_threads :: "HiveMindBridgeImpl \<Rightarrow> bool" where
  "no_threads b \<longleftrightarrow> m_inboundThread b = NoThread \<and> m_outboundThread b = NoThread"

definition has_client_fd :: "HiveMindBridgeImpl \<Rightarrow> bool" where
  "has_client_fd b \<longleftrightarrow> m_clientFd (m_tcpServer b) \<noteq> None"

fun spin_knows :: "spin_pc \<Rightarrow> HiveMindBridgeImpl \<Rightarrow> bool" where
  "spin_knows SFront b = (inbound b \<noteq> [])"
| "spin_knows (SHandle m) b = (inbound b \<noteq> [] \<and> hd (inbound b) = m)"
| "spin_knows (SPop r) b = (inbound b \<noteq> [] \<and> map answer_of (answers [r]) = questions [hd (inbound b)])"
| "spin_knows (SReturn j) b =
     (j < length (m_inboundRequestsQueue b) \<and>
      (\<exists>i. m_callbackReturnContext (m_inboundRequestsQueue b ! j) = Some i \<and> is_ready (user_calls b) i))"
| "spin_knows (SJoinInbound env) b = (\<not> isTCPClientConnected b)"
| "spin_knows (SJoinOutbound env) b = (\<not> isTCPClientConnected b \<and> m_inboundThread b = NoThread)"
| "spin_knows (SListen env) b = no_threads b"
| "spin_knows (SGreet env) b = (no_threads b \<and> has_client_fd b)"
| "spin_knows (SAwaitGreet env) b = (no_threads b \<and> has_client_fd b)"
| "spin_knows SStartInbound b = (no_threads b \<and> has_client_fd b)"
| "spin_knows SStartOutbound b = (m_outboundThread b = NoThread \<and> has_client_fd b)"
| "spin_knows SClose b = (no_threads b \<and> has_client_fd b)"
| "spin_knows _ b = True"

lemma spin_knows_stable: "spin_knows pc b \<Longrightarrow> rely b b' \<Longrightarrow> spin_knows pc b'"
  by (cases pc) (auto simp: rely_def no_threads_def has_client_fd_def)

text \<open>The handle a spin holds before it queues it.\<close>

fun in_hand :: "spin_pc \<Rightarrow> InboundRequestHandle list" where
  "in_hand (SPop (HandledRequest h)) = [h]"
| "in_hand (SStore (HandledRequest h)) = [h]"
| "in_hand _ = []"

definition threads_ok :: "threads \<Rightarrow> bool" where
  "threads_ok t \<longleftrightarrow>
     (m_inboundThread (bridge t) = RunningThread \<longleftrightarrow> at_inbound t \<noteq> RReturned) \<and>
     (m_inboundThread (bridge t) \<noteq> NoThread \<longrightarrow> has_client_fd (bridge t)) \<and>
     (at_inbound t = RRead \<longrightarrow> isTCPClientConnected (bridge t)) \<and>
     (\<exists>g. interleaved_inv (at_outbound t) (bridge t) g)"


subsection \<open>The accesses of a spin keep it\<close>

lemma sendReturn_frame:
  "sendReturn ph rnd h b = Inr (b', es) \<Longrightarrow> \<exists>n. b' = b\<lparr>rand_calls := n\<rparr>"
  by (cases b) (auto simp: sendReturn_def rbind_eq_Inr Let_def nextRandomId_def split: option.splits if_splits)

lemma sendReturn_erase:
  assumes "spin_micro ph rnd (SReturn j) b = Inr (pc', b', es)"
  shows "\<exists>n. pc' = SSweep j \<and> b' = erase_request j (b\<lparr>rand_calls := n\<rparr>)"
  using assms by (auto simp: rbind_eq_Inr dest!: sendReturn_frame)

lemma deserialize_frame:
  assumes "deserializeFromStream d b = Inr (f, m, b', es)"
  shows "\<exists>s. b' = b\<lparr>m_tcpServer := s\<rparr> \<and> m_clientFd s = m_clientFd (m_tcpServer b) \<and> serialized es = []"
  using assms receive_calls_frame by (fastforce simp: deserializeFromStream_def rbind_eq_Inr)

lemma spin_micro_knows:
  assumes step: "spin_micro ph rnd pc b = Inr (pc', b', es)" and knows: "spin_knows pc b"
  shows "spin_knows pc' b'"
proof (cases pc)
  case SEmpty
  then show ?thesis using step by (auto simp: empty_iff split: if_splits)
next
  case SFront
  then show ?thesis using step knows by (cases "inbound b") (auto simp: front_def)
next
  case (SHandle m)
  then obtain r mh where "MessageHandler_handleMessage ph m (m_messageHandler b) = Inr (r, mh, es)"
    "pc' = SPop r" "b' = b\<lparr>m_messageHandler := mh\<rparr>"
    using step by (auto simp: rbind_eq_Inr)
  then show ?thesis using knows SHandle handled_answers_question by auto
next
  case (SPop r)
  then show ?thesis using step by (auto simp: rbind_eq_Inr)
next
  case (SStore r)
  then show ?thesis using step by (auto split: handled.splits)
next
  case (SSweep j)
  then show ?thesis using step by (auto simp: bridge_defs split: if_splits option.splits)
next
  case (SReturn j)
  then show ?thesis using step sendReturn_erase by fastforce
next
  case (SJoinInbound env)
  then show ?thesis
    using step knows by (auto simp: joinable_def join_def isTCPClientConnected_def)
next
  case (SJoinOutbound env)
  then show ?thesis using step knows by (auto simp: joinable_def join_def no_threads_def)
next
  case (SListen env)
  then show ?thesis
    using step knows by (auto simp: tcp_listen_def Let_def no_threads_def has_client_fd_def split: if_splits)
next
  case (SAwaitGreet env)
  then obtain f m b1 where d: "deserializeFromStream (greet_read env) b = Inr (f, m, b1, es)"
    and pc': "if handleGreet m = None then pc' = SClose \<and> b' = b1
      else pc' = SStartInbound \<and> b' = b1\<lparr>m_swarmAgentID := the (handleGreet m)\<rparr>"
    using step by (auto simp: rbind_eq_Inr split: option.splits)
  show ?thesis
    using deserialize_frame [OF d] pc' knows SAwaitGreet
    by (auto simp: no_threads_def has_client_fd_def split: if_splits)
next
  case SStartInbound
  then show ?thesis
    using step knows by (auto simp: rbind_eq_Inr no_threads_def has_client_fd_def)
qed (use step knows in \<open>auto simp: rbind_eq_Inr split: if_splits\<close>)

text \<open>Which accesses change the connection, the threads and the outbound queue.\<close>

lemma spin_micro_frame:
  assumes "spin_micro ph rnd pc b = Inr (pc', b', es)"
  shows "m_tcpServer b' = m_tcpServer b \<or> (\<exists>env. pc = SListen env \<or> pc = SAwaitGreet env) \<or> pc = SClose"
    and "m_inboundThread b' = m_inboundThread b \<or> (\<exists>env. pc = SJoinInbound env) \<or> pc = SStartInbound"
    and "m_outboundThread b' = m_outboundThread b \<or> (\<exists>env. pc = SJoinOutbound env) \<or> pc = SStartOutbound"
    and "outbound b' = outbound b @
      (if pc = SKeepPush then [mk_OutboundRequestHandle createGreetMessage] else [])"
proof -
  have "(m_tcpServer b' = m_tcpServer b \<or> (\<exists>env. pc = SListen env \<or> pc = SAwaitGreet env) \<or> pc = SClose) \<and>
    (m_inboundThread b' = m_inboundThread b \<or> (\<exists>env. pc = SJoinInbound env) \<or> pc = SStartInbound) \<and>
    (m_outboundThread b' = m_outboundThread b \<or> (\<exists>env. pc = SJoinOutbound env) \<or> pc = SStartOutbound) \<and>
    outbound b' = outbound b @ (if pc = SKeepPush then [mk_OutboundRequestHandle createGreetMessage] else [])"
  proof (cases pc)
    case (SReturn j)
    then show ?thesis using sendReturn_erase assms by (fastforce simp: erase_request_def)
  next
    case (SAwaitGreet env)
    then show ?thesis
      using assms deserialize_frame by (fastforce simp: rbind_eq_Inr split: option.splits)
  next
    case (SListen env)
    then show ?thesis using assms by (auto simp: Let_def split: prod.splits)
  qed (use assms in \<open>auto simp: rbind_eq_Inr erase_request_def push_def split: if_splits handled.splits option.splits\<close>)
  then show "m_tcpServer b' = m_tcpServer b \<or> (\<exists>env. pc = SListen env \<or> pc = SAwaitGreet env) \<or> pc = SClose"
    "m_inboundThread b' = m_inboundThread b \<or> (\<exists>env. pc = SJoinInbound env) \<or> pc = SStartInbound"
    "m_outboundThread b' = m_outboundThread b \<or> (\<exists>env. pc = SJoinOutbound env) \<or> pc = SStartOutbound"
    "outbound b' = outbound b @ (if pc = SKeepPush then [mk_OutboundRequestHandle createGreetMessage] else [])"
    by blast+
qed


lemma erase_request_simps [simp]:
  "user_calls (erase_request j b) = user_calls b" "inbound (erase_request j b) = inbound b"
  "m_messageHandler (erase_request j b) = m_messageHandler b"
  "m_tcpServer (erase_request j b) = m_tcpServer b" "m_inboundThread (erase_request j b) = m_inboundThread b"
  by (simp_all add: erase_request_def)

lemma erase_request_subset:
  "h \<in> set (m_inboundRequestsQueue (erase_request j b)) \<Longrightarrow> h \<in> set (m_inboundRequestsQueue b)"
  by (auto simp: erase_request_def dest: in_set_takeD in_set_dropD)

text \<open>The handles a spin holds, on the queue or in its hand.\<close>

definition spin_handles :: "spin_pc \<Rightarrow> HiveMindBridgeImpl \<Rightarrow> InboundRequestHandle list" where
  "spin_handles pc b = m_inboundRequestsQueue b @ in_hand pc"

definition spin_work :: "spin_pc \<Rightarrow> HiveMindBridgeImpl \<Rightarrow> bool" where
  "spin_work pc b \<longleftrightarrow>
     user_calls_inv (user_calls b) \<and>
     (\<forall>h \<in> set (spin_handles pc b). handle_wf (length (m_calls (user_calls b))) h) \<and>
     (\<forall>m \<in> set (inbound b). message_wf m)"

lemma in_hand_handled: "in_hand (SPop r) = (case r of HandledRequest h \<Rightarrow> [h] | _ \<Rightarrow> [])"
  by (cases r) simp_all

lemma spin_micro_work:
  assumes step: "spin_micro ph rnd pc b = Inr (pc', b', es)" and work: "spin_work pc b"
  shows "spin_work pc' b'"
proof (cases pc)
  case (SHandle m)
  then obtain r mh where h: "MessageHandler_handleMessage ph m (m_messageHandler b) = Inr (r, mh, es)"
    "pc' = SPop r" "b' = b\<lparr>m_messageHandler := mh\<rparr>"
    using step by (auto simp: rbind_eq_Inr)
  have "message_handler_inv (m_messageHandler b)" using work by (simp add: spin_work_def message_handler_inv_def)
  note pres = MessageHandler_preserves [OF this h(1)]
  have "length (m_calls (user_calls b)) \<le> length (m_calls (m_userCallRequestHandler mh))" using pres(3) by auto
  then have "handle_wf (length (m_calls (m_userCallRequestHandler mh))) g"
    if "g \<in> set (m_inboundRequestsQueue b)" for g
    using work handle_wf_mono that by (auto simp: spin_work_def spin_handles_def)
  moreover have "\<forall>g \<in> set (in_hand (SPop r)). handle_wf (length (m_calls (m_userCallRequestHandler mh))) g"
    using pres(4) by (auto simp: in_hand_handled handled_wf_def split: handled.splits)
  ultimately show ?thesis
    using work pres(1) h(2,3) by (auto simp: spin_work_def spin_handles_def message_handler_inv_def)
next
  case (SPop r)
  then show ?thesis
    using step work
    by (cases "inbound b"; cases r) (auto simp: rbind_eq_Inr pop_def spin_work_def spin_handles_def)
next
  case (SStore r)
  then show ?thesis using step work by (cases r) (auto simp: spin_work_def spin_handles_def)
next
  case (SSweep j)
  then show ?thesis
    using step work
    by (auto simp: spin_work_def spin_handles_def dest: erase_request_subset split: if_splits option.splits)
next
  case (SReturn j)
  then obtain n where "pc' = SSweep j" "b' = erase_request j (b\<lparr>rand_calls := n\<rparr>)"
    using step sendReturn_erase by blast
  then show ?thesis
    using work SReturn by (auto simp: spin_work_def spin_handles_def dest: erase_request_subset)
next
  case (SAwaitGreet env)
  then show ?thesis
    using step work deserialize_frame
    by (fastforce simp: rbind_eq_Inr spin_work_def spin_handles_def split: option.splits)
qed (use step work in \<open>auto simp: rbind_eq_Inr spin_work_def spin_handles_def case_prod_unfold Let_def
       split: if_splits\<close>)

lemma spin_work_stable:
  assumes "spin_work pc b" "rely b b'" "user_calls_inv (user_calls b')" "\<forall>m \<in> set (inbound b'). message_wf m"
  shows "spin_work pc b'"
  using assms by (simp add: spin_work_def spin_handles_def rely_def)

definition all_ok :: "threads \<Rightarrow> bool" where
  "all_ok t \<longleftrightarrow>
     spin_knows (at_spin t) (bridge t) \<and> spin_work (at_spin t) (bridge t) \<and>
     (\<forall>m. at_inbound t = RPush m \<longrightarrow> message_wf m) \<and> threads_ok t"

lemma initial_ok: "initial_threads t \<Longrightarrow> all_ok t"
  unfolding all_ok_def
proof (intro conjI, goal_cases)
  case 1
  then show ?case by (simp add: initial_threads_def)
next
  case 2
  then show ?case
    using work.reachable_inv [OF reach_init, of "bridge t"]
    by (auto simp: initial_threads_def spin_work_def spin_handles_def work_inv_def bridge_wf_def)
next
  case 3
  then show ?case by (simp add: initial_threads_def)
next
  case 4
  then have "interleaved_inv Returned (bridge t) \<lparr>g_queued = {#}, g_sent = {#}, g_discarded = {#}\<rparr>"
    by (auto simp: initial_threads_def interleaved_inv_def initial_bridge_def)
  then show ?case using 4 by (auto simp: initial_threads_def threads_ok_def initial_bridge_def)
qed

lemma interleaved_inv_flag:
  "interleaved_inv pc b g \<Longrightarrow> outbound b' = outbound b \<Longrightarrow> m_outboundThread b' = m_outboundThread b \<Longrightarrow>
   interleaved_inv pc b' g"
  by (simp add: interleaved_inv_def)

lemma spin_access_sender:
  assumes inv: "interleaved_inv pco b g" and knows: "spin_knows pc b" and "\<not> join_waits pc b"
    and step: "spin_micro ph rnd pc b = Inr (pc', b', es)"
  shows "interleaved_inv (if pc = SStartOutbound then AtLoop else pco) b'
    (g\<lparr>g_queued := g_queued g + (if pc = SKeepPush then {#createGreetMessage#} else {#})\<rparr>)"
proof (cases "(\<exists>env. pc = SJoinOutbound env) \<or> pc = SStartOutbound")
  case True
  then show ?thesis
  proof
    assume "\<exists>env. pc = SJoinOutbound env"
    then show ?thesis
      using inv step assms(3) by (auto simp: interleaved_inv_def joinable_def join_def split: if_splits)
  next
    assume pc: "pc = SStartOutbound"
    then have "pco = Returned" using inv knows by (auto simp: interleaved_inv_def)
    then show ?thesis
      using inv step pc by (auto simp: interleaved_inv_def rbind_eq_Inr start_thread_def split: if_splits)
  qed
next
  case False
  then have "m_outboundThread b' = m_outboundThread b" using spin_micro_frame(3) [OF step] by blast
  then show ?thesis
    using spin_micro_frame(4) [OF step] inv False
    by (auto simp: interleaved_inv_def pc_inv_append mk_OutboundRequestHandle_def)
qed

lemma spin_access_ok:
  assumes ok: "all_ok t" and free: "\<not> join_waits (at_spin t) (bridge t)"
    and step: "spin_micro ph rnd (at_spin t) (bridge t) = Inr (pc, b, es)"
  shows "all_ok (t\<lparr>bridge := b, at_spin := pc,
         at_inbound := if at_spin t = SStartInbound then RLoop else at_inbound t,
         at_outbound := if at_spin t = SStartOutbound then AtLoop else at_outbound t\<rparr>)"
proof -
  have knows: "spin_knows (at_spin t) (bridge t)" and th: "threads_ok t"
    using ok by (simp_all add: all_ok_def)
  obtain g where "interleaved_inv (at_outbound t) (bridge t) g" using th by (auto simp: threads_ok_def)
  note sender = spin_access_sender [OF this knows free step]
  note frame = spin_micro_frame [OF step]
  have knows': "spin_knows pc b" by (rule spin_micro_knows [OF step knows])
  have "threads_ok (t\<lparr>bridge := b, at_spin := pc,
         at_inbound := if at_spin t = SStartInbound then RLoop else at_inbound t,
         at_outbound := if at_spin t = SStartOutbound then AtLoop else at_outbound t\<rparr>)"
  proof (cases "(\<exists>env. at_spin t = SJoinInbound env \<or> at_spin t = SListen env \<or> at_spin t = SAwaitGreet env) \<or>
      at_spin t = SStartInbound \<or> at_spin t = SClose")
    case False
    then have "m_tcpServer b = m_tcpServer (bridge t)" "m_inboundThread b = m_inboundThread (bridge t)"
      using frame(1,2) by blast+
    then show ?thesis
      using sender th False by (auto simp: threads_ok_def has_client_fd_def isTCPClientConnected_def)
  next
    case True
    then consider (start) "at_spin t = SStartInbound" | (join) env where "at_spin t = SJoinInbound env"
      | (server) "at_spin t \<noteq> SStartInbound" "\<not> (\<exists>env. at_spin t = SJoinInbound env)" by blast
    then show ?thesis
    proof cases
      case start
      then have "m_inboundThread b = RunningThread" "m_tcpServer b = m_tcpServer (bridge t)"
        "has_client_fd (bridge t)"
        using step knows by (auto simp: rbind_eq_Inr start_thread_def split: if_splits)
      then show ?thesis using sender start by (auto simp: threads_ok_def has_client_fd_def)
    next
      case join
      then have "m_inboundThread b = NoThread" "m_tcpServer b = m_tcpServer (bridge t)"
        "m_inboundThread (bridge t) \<noteq> RunningThread"
        using step free by (auto simp: joinable_def join_def split: if_splits)
      then show ?thesis using sender join th by (auto simp: threads_ok_def)
    next
      case server
      then have "no_threads (bridge t)" "at_spin t \<noteq> SStartOutbound"
        "m_inboundThread b = m_inboundThread (bridge t)"
        using True knows frame(2) by auto
      then show ?thesis using sender th server(1) by (auto simp: threads_ok_def no_threads_def)
    qed
  qed
  then show ?thesis
    using ok knows' spin_micro_work [OF step] by (auto simp: all_ok_def)
qed


lemma others_work:
  assumes ok: "all_ok t" and rely: "rely (bridge t) b"
    and "user_calls_inv (user_calls b)" "\<forall>m \<in> set (inbound b). message_wf m"
  shows "spin_knows (at_spin t) b" "spin_work (at_spin t) b"
  using ok rely spin_knows_stable spin_work_stable [OF _ rely assms(3,4)] by (auto simp: all_ok_def)

lemma inbound_access_ok:
  assumes ok: "all_ok t" and run: "m_inboundThread (bridge t) = RunningThread" and wf: "read_wf d"
    and step: "inbound_micro d (at_inbound t) (bridge t) = Inr (pc, b, es)"
  shows "all_ok (t\<lparr>bridge := b, at_inbound := pc\<rparr>)"
proof -
  have th: "threads_ok t" and hand: "\<forall>m. at_inbound t = RPush m \<longrightarrow> message_wf m"
    and old: "user_calls_inv (user_calls (bridge t))" "\<forall>m \<in> set (inbound (bridge t)). message_wf m"
    using ok by (auto simp: all_ok_def spin_work_def)
  obtain g where g: "interleaved_inv (at_outbound t) (bridge t) g" using th by (auto simp: threads_ok_def)
  have "user_calls_inv (user_calls b) \<and> (\<forall>m \<in> set (inbound b). message_wf m) \<and>
    (\<forall>m. pc = RPush m \<longrightarrow> message_wf m) \<and> threads_ok (t\<lparr>bridge := b, at_inbound := pc\<rparr>)"
    using step
  proof (cases rule: inbound_micro_cases)
    case test
    then show ?thesis using th old by (auto simp: threads_ok_def)
  next
    case leave
    then have "interleaved_inv (at_outbound t) b g" using g interleaved_inv_flag by simp
    then show ?thesis using th old leave run by (auto simp: threads_ok_def has_client_fd_def)
  next
    case (reads s)
    then have "interleaved_inv (at_outbound t) b g" using g interleaved_inv_flag by simp
    then show ?thesis using th old reads run wf by (auto simp: threads_ok_def has_client_fd_def read_wf_def)
  next
    case (pushes m)
    then have "interleaved_inv (at_outbound t) b g" using g interleaved_inv_flag by simp
    then show ?thesis using th old pushes run hand by (auto simp: threads_ok_def has_client_fd_def)
  next
    case stays
    then show ?thesis using th old by (auto simp: threads_ok_def)
  qed
  then show ?thesis using others_work [OF ok inbound_micro_rely [OF step run]] by (simp add: all_ok_def)
qed

lemma outbound_access_ok:
  assumes ok: "all_ok t" and run: "m_outboundThread (bridge t) = RunningThread"
    and step: "outbound_micro (at_outbound t) (bridge t) = Inr (pc, b, es)"
  shows "all_ok (t\<lparr>bridge := b, at_outbound := pc\<rparr>)"
proof -
  have th: "threads_ok t" and old: "user_calls_inv (user_calls (bridge t))"
    "\<forall>m \<in> set (inbound (bridge t)). message_wf m" "\<forall>m. at_inbound t = RPush m \<longrightarrow> message_wf m"
    using ok by (auto simp: all_ok_def spin_work_def)
  obtain g where "interleaved_inv (at_outbound t) (bridge t) g" using th by (auto simp: threads_ok_def)
  from micro_inv [OF this run step] have "\<exists>g. interleaved_inv pc b g" by blast
  moreover obtain q m x where
    b: "b = (bridge t)\<lparr>m_outboundQueue := q, m_inboundResponsesMap := m, m_outboundThread := x\<rparr>"
    using outbound_micro_frame [OF step] by blast
  ultimately have "threads_ok (t\<lparr>bridge := b, at_outbound := pc\<rparr>)"
    using th by (auto simp: threads_ok_def has_client_fd_def isTCPClientConnected_def)
  then show ?thesis
    using others_work [OF ok outbound_micro_rely [OF step run]] old b by (simp add: all_ok_def)
qed

lemma user_step_ok:
  assumes ok: "all_ok t" and rely: "rely (bridge t) b" and app: "appends_only (bridge t) b"
    and "user_calls_inv (user_calls b)" "inbound b = inbound (bridge t)"
    and "isTCPClientConnected b = isTCPClientConnected (bridge t)"
    and "m_inboundThread b = m_inboundThread (bridge t)"
  shows "all_ok (t\<lparr>bridge := b\<rparr>)"
proof -
  have th: "threads_ok t" and old: "\<forall>m \<in> set (inbound b). message_wf m"
    "\<forall>m. at_inbound t = RPush m \<longrightarrow> message_wf m"
    using ok assms(5) by (auto simp: all_ok_def spin_work_def)
  obtain g where "interleaved_inv (at_outbound t) (bridge t) g" using th by (auto simp: threads_ok_def)
  from interleaved_inv_appends [OF this app] have "\<exists>g. interleaved_inv (at_outbound t) b g" by blast
  then have "threads_ok (t\<lparr>bridge := b\<rparr>)"
    using th rely assms(6,7) by (auto simp: threads_ok_def has_client_fd_def rely_def)
  then show ?thesis using others_work [OF ok rely assms(4) old(1)] old(2) by (simp add: all_ok_def)
qed

lemma api_step_thread_frame:
  assumes "api_step ph rnd c b = (r, b', es)"
  shows "m_inboundThread b' = m_inboundThread b" "isTCPClientConnected b' = isTCPClientConnected b"
    "user_calls_inv (user_calls b) \<Longrightarrow> user_calls_inv (user_calls b')"
  using api_step_cases [of b ph rnd c] assms
  by (auto simp: sends_only_def configures_def isTCPClientConnected_def tcp_isClientConnected_def)

lemma thread_step_ok:
  assumes "thread_step ph rnd t a es t'" "all_ok t"
  shows "all_ok t'"
  using assms(1)
proof (cases rule: thread_step.cases)
  case (spin_calls env)
  then show ?thesis using assms(2) by (simp add: all_ok_def threads_ok_def spin_work_def spin_handles_def)
next
  case (spin_access pc b)
  then show ?thesis using spin_access_ok [OF assms(2)] by simp
next
  case (inbound_access d pc b)
  then show ?thesis using inbound_access_ok [OF assms(2)] by simp
next
  case (outbound_access pc b)
  then show ?thesis using outbound_access_ok [OF assms(2)] by simp
next
  case (user_call c r b)
  have "user_calls_inv (user_calls (bridge t))" using assms(2) by (simp add: all_ok_def spin_work_def)
  then have "all_ok (t\<lparr>bridge := b\<rparr>)"
    using user_call(3) api_appends [of "bridge t" ph rnd c] api_step_thread_frame [OF user_call(3)]
      api_step_frame(1) [OF user_call(3)] user_step_ok [OF assms(2) api_step_rely [OF user_call(3)]]
    by simp
  then show ?thesis by (simp add: user_call(2))
next
  case (action_ends i b)
  then have b: "b = fst (finish_call i (bridge t))" by simp
  have "user_calls_inv (user_calls (bridge t))" using assms(2) by (simp add: all_ok_def spin_work_def)
  then have "all_ok (t\<lparr>bridge := b\<rparr>)"
    using user_step_ok [OF assms(2) finish_rely [of "bridge t" i] finish_appends] run_call_inv
    unfolding b by (simp add: isTCPClientConnected_def)
  then show ?thesis by (simp add: action_ends(2))
qed

lemma thread_run_ok: "thread_run ph rnd tr t \<Longrightarrow> all_ok t"
proof (induction rule: thread_run.induct)
  case (run_starts t)
  then show ?case by (rule initial_ok)
next
  case (run_accesses tr t a es t')
  then show ?case by (blast intro: thread_step_ok)
qed

end
