(* ===== verification/ThreadRuns.thy ===== *)
theory ThreadRuns
  imports Prelude Pheromones Handles UserCallRequestHandler MessageHandler HiveMindBridgeImpl OutboundQueue
    Spin HiveMindBridge BridgeSystem Inbound OutboundThread Executions CallResults SpinThread Concurrency
    "HOL-Library.Multiset" "HOL-Library.Sublist"
begin

section \<open>What the interleaved threads conserve\<close>

text \<open>
  The conservation laws of \<open>Executions\<close>, \<open>CallResults\<close> and \<open>OutboundThread\<close>, here for all threads at
  once and one access at a time: messages read are handled in order and once, requests are answered
  once, started calls are returned once, queued messages are sent once. What a thread has in hand
  between two accesses appears in the laws.
\<close>

subsection \<open>What an access moves\<close>

fun read_in :: "access \<Rightarrow> MessageDTO list" where
  "read_in (t, InboundAccess d, es) = (if at_inbound t = RRead \<and> read_ok d then [read_message d] else [])"
| "read_in _ = []"

fun popped_in :: "access \<Rightarrow> MessageDTO list" where
  "popped_in (t, SpinAccess, es) = (case at_spin t of SPop r \<Rightarrow> take 1 (inbound (bridge t)) | _ \<Rightarrow> [])"
| "popped_in _ = []"

fun sent_in :: "access \<Rightarrow> MessageDTO list" where
  "sent_in (t, a, es) = serialized es"

fun started_in :: "access \<Rightarrow> MessageDTO list" where
  "started_in (t, SpinAccess, es) =
     (case at_spin t of SHandle m \<Rightarrow> filter (starts_call (callback_map (bridge t))) [m] | _ \<Rightarrow> [])"
| "started_in _ = []"

fun returned_in :: "access \<Rightarrow> nat list" where
  "returned_in (t, SpinAccess, es) =
     (case at_spin t of SReturn j \<Rightarrow> call_numbers [m_inboundRequestsQueue (bridge t) ! j] | _ \<Rightarrow> [])"
| "returned_in _ = []"

fun return_sends_in :: "access \<Rightarrow> MessageDTO list" where
  "return_sends_in (t, SpinAccess, es) = (case at_spin t of SReturn j \<Rightarrow> serialized es | _ \<Rightarrow> [])"
| "return_sends_in _ = []"

definition along :: "(access \<Rightarrow> 'a list) \<Rightarrow> access list \<Rightarrow> 'a list" where
  "along f tr = concat (map f tr)"

lemma along_simps [simp]: "along f [] = []" "along f (tr @ tr') = along f tr @ along f tr'" "along f (x # tr) = f x @ along f tr"
  by (simp_all add: along_def)

text \<open>The messages of the outbound side: queued, sent and given up by an access.\<close>

fun queued_in :: "pheromones \<Rightarrow> (nat \<Rightarrow> int) \<Rightarrow> access \<Rightarrow> MessageDTO multiset" where
  "queued_in ph rnd (t, SpinAccess, es) = (if at_spin t = SKeepPush then {#createGreetMessage#} else {#})"
| "queued_in ph rnd (t, UserCall c, es) = queued_by (bridge t) (fst (snd (api_step ph rnd c (bridge t))))"
| "queued_in ph rnd _ = {#}"

fun sent_out_in :: "access \<Rightarrow> MessageDTO multiset" where
  "sent_out_in (t, OutboundAccess, es) = mset (serialized es)"
| "sent_out_in _ = {#}"

fun discarded_in :: "access \<Rightarrow> MessageDTO multiset" where
  "discarded_in (t, OutboundAccess, es) = discards (at_outbound t) (bridge t)"
| "discarded_in _ = {#}"

definition total :: "(access \<Rightarrow> MessageDTO multiset) \<Rightarrow> access list \<Rightarrow> MessageDTO multiset" where
  "total f tr = sum_list (map f tr)"

lemma total_simps [simp]: "total f [] = {#}" "total f (tr @ tr') = total f tr + total f tr'" "total f (x # tr) = f x + total f tr"
  by (simp_all add: total_def)


subsection \<open>Laws along an interleaving\<close>

locale access_invariant =
  fixes ph :: pheromones and rnd :: "nat \<Rightarrow> int"
    and holds :: "access list \<Rightarrow> threads \<Rightarrow> bool"
  assumes initially: "initial_threads t \<Longrightarrow> holds [] t"
    and step: "holds tr t \<Longrightarrow> all_ok t \<Longrightarrow> thread_step ph rnd t a es t' \<Longrightarrow> holds (tr @ [(t, a, es)]) t'"
begin

lemma along_run: "thread_run ph rnd tr t \<Longrightarrow> holds tr t"
proof (induction rule: thread_run.induct)
  case (run_starts t)
  then show ?case by (rule initially)
next
  case (run_accesses tr t a es t')
  then show ?case using step thread_run_ok by blast
qed

end

lemma initial_threads_simps:
  assumes "initial_threads t"
  shows "at_spin t = SpinDone" "at_inbound t = RReturned" "at_outbound t = Returned" "inbound (bridge t) = []"
    "outbound (bridge t) = []" "m_inboundRequestsQueue (bridge t) = []" "m_calls (user_calls (bridge t)) = []"
  using assms initial_bridge_simps [of "bridge t"] by (auto simp: initial_threads_def)


subsection \<open>Messages are handled in the order they are read\<close>

fun pushing :: "inbound_pc \<Rightarrow> MessageDTO list" where
  "pushing (RPush m) = [m]"
| "pushing _ = []"

lemma spin_micro_inbound:
  assumes "spin_micro ph rnd pc b = Inr (pc', b', es)"
  shows "inbound b = (case pc of SPop r \<Rightarrow> take 1 (inbound b) | _ \<Rightarrow> []) @ inbound b'"
proof (cases pc)
  case (SPop r)
  then show ?thesis using assms by (cases "inbound b") (auto simp: rbind_eq_Inr pop_def)
next
  case (SReturn j)
  then show ?thesis using sendReturn_erase assms by fastforce
next
  case (SAwaitGreet env)
  then show ?thesis using assms deserialize_frame by (fastforce simp: rbind_eq_Inr split: option.splits)
next
  case (SListen env)
  then show ?thesis using assms by (auto simp: Let_def split: prod.splits)
qed (use assms in \<open>auto simp: rbind_eq_Inr split: if_splits handled.splits option.splits\<close>)

lemma step_reads:
  assumes "thread_step ph rnd t a es t'" "all_ok t"
  shows "inbound (bridge t) @ pushing (at_inbound t) @ read_in (t, a, es) =
    popped_in (t, a, es) @ inbound (bridge t') @ pushing (at_inbound t')"
  using assms(1)
proof (cases rule: thread_step.cases)
  case (spin_access pc b)
  have "at_inbound t = RReturned" if "at_spin t = SStartInbound"
    using assms(2) that by (auto simp: all_ok_def threads_ok_def no_threads_def)
  then show ?thesis
    using spin_micro_inbound [OF spin_access(4)]
    by (cases "at_spin t = SStartInbound") (auto simp: spin_access(1,2) simp del: append.assoc)
next
  case (inbound_access d pc b)
  from inbound_access(5) show ?thesis
    by (cases rule: inbound_micro_cases) (simp_all add: inbound_access(1,2) push_def)
next
  case (outbound_access pc b)
  then show ?thesis using outbound_micro_frame [OF outbound_access(4)] by auto
next
  case (user_call c r b)
  then show ?thesis using api_step_frame(1) by simp
next
  case (action_ends i b)
  then show ?thesis using finish_call_frame(2) [of i "bridge t"] by simp
qed simp

interpretation reading: access_invariant ph rnd
  "\<lambda>tr t. along read_in tr = along popped_in tr @ inbound (bridge t) @ pushing (at_inbound t)"
  for ph :: pheromones and rnd :: "nat \<Rightarrow> int"
proof (unfold_locales, goal_cases)
  case (1 t)
  then show ?case by (simp add: initial_threads_simps)
next
  case (2 tr t a es t')
  then show ?case using step_reads [of ph rnd t a es t'] by simp
qed


subsection \<open>Every request is answered once\<close>

text \<open>What a spin sends at an access.\<close>

lemma spin_micro_sends:
  assumes step: "spin_micro ph rnd pc b = Inr (pc', b', es)" and work: "spin_work pc b" and knows: "spin_knows pc b"
  shows "serialized es =
    (case pc of
       SStore r \<Rightarrow> answers [r]
     | SReturn j \<Rightarrow> return_messages ph rnd (user_calls b) [m_inboundRequestsQueue b ! j] (rand_calls b)
     | SGreet env \<Rightarrow> if isTCPClientConnected b then [createGreetMessage] else []
     | _ \<Rightarrow> [])"
proof (cases pc)
  case (SHandle m)
  then obtain r mh where h: "MessageHandler_handleMessage ph m (m_messageHandler b) = Inr (r, mh, es)"
    using step by (auto simp: rbind_eq_Inr)
  have "message_handler_inv (m_messageHandler b)" using work by (simp add: spin_work_def message_handler_inv_def)
  then show ?thesis using SHandle MessageHandler_preserves(5) [OF _ h] by simp
next
  case (SStore r)
  then show ?thesis using step by (cases r) (auto simp: bridge_defs)
next
  case (SReturn j)
  then obtain i where j: "j < length (m_inboundRequestsQueue b)"
    and i: "m_callbackReturnContext (m_inboundRequestsQueue b ! j) = Some i" "is_ready (user_calls b) i"
    using knows by auto
  have "handle_wf (length (m_calls (user_calls b))) (m_inboundRequestsQueue b ! j)"
    using work j by (simp add: spin_work_def spin_handles_def)
  from sendReturn_eq [OF this i, of ph rnd] show ?thesis
    using SReturn step j by (auto simp: rbind_eq_Inr read_at_def)
next
  case (SListen env)
  then show ?thesis using step by (auto simp: tcp_listen_def Let_def split: if_splits)
next
  case (SAwaitGreet env)
  then show ?thesis using step deserialize_frame by (fastforce simp: rbind_eq_Inr split: option.splits)
next
  case SClose
  then show ?thesis using step by (auto simp: tcp_close_def rbind_eq_Inr split: option.splits)
qed (use step in \<open>auto simp: rbind_eq_Inr split: if_splits option.splits\<close>)

text \<open>The answer a spin has in hand until it sends it.\<close>

fun answering :: "spin_pc \<Rightarrow> MessageDTO list" where
  "answering (SStore r) = answers [r]"
| "answering _ = []"

lemma answering_eq: "answering pc = (case pc of SStore r \<Rightarrow> answers [r] | _ \<Rightarrow> [])"
  by (cases pc) simp_all

lemma spin_micro_answers:
  assumes step: "spin_micro ph rnd pc b = Inr (pc', b', es)" and work: "spin_work pc b" and knows: "spin_knows pc b"
    and resp: "\<forall>m \<in> set (answering pc). is_response m"
  shows "map answer_of (answering pc) @ questions (case pc of SPop r \<Rightarrow> take 1 (inbound b) | _ \<Rightarrow> []) =
    map answer_of (filter is_response (serialized es)) @ map answer_of (answering pc')"
proof (cases pc)
  case (SPop r)
  then have "map answer_of (answering pc') = questions (take 1 (inbound b))"
    using step knows by (cases "inbound b") (auto simp: rbind_eq_Inr)
  then show ?thesis using SPop spin_micro_sends [OF step work knows] by simp
next
  case (SStore r)
  moreover have "answering pc' = []" using step SStore by (cases r) auto
  ultimately show ?thesis
    using spin_micro_sends [OF step work knows] resp
    by (simp add: questions_def filter_id_conv del: is_response.simps)
next
  case (SReturn j)
  then obtain n where "pc' = SSweep j" using step sendReturn_erase by blast
  then show ?thesis
    using SReturn spin_micro_sends [OF step work knows]
    by (simp add: return_messages_no_response questions_def del: is_response.simps return_messages.simps)
next
  case (SGreet env)
  then show ?thesis
    using spin_micro_sends [OF step work knows] step
    by (auto simp: createGreetMessage_def questions_def split: if_splits)
next
  case (SAwaitGreet env)
  then show ?thesis
    using spin_micro_sends [OF step work knows] step
    by (auto simp: questions_def rbind_eq_Inr split: option.splits)
next
  case (SListen env)
  then show ?thesis
    using spin_micro_sends [OF step work knows] step
    by (auto simp: questions_def Let_def split: prod.splits)
qed (use spin_micro_sends [OF step work knows] step in
      \<open>auto simp: rbind_eq_Inr questions_def split: if_splits option.splits handled.splits\<close>)

lemma outbound_micro_sends:
  assumes "outbound_micro pc b = Inr (pc', b', es)" "pc_inv pc (outbound b)"
  shows "filter is_response (serialized es) = []"
  using assms
  by (cases pc) (auto simp: Let_def rbind_eq_Inr bridge_defs handle_kinds
      split: if_splits message_body.splits option.splits prod.splits)

lemma step_answering:
  assumes step: "thread_step ph rnd t a es t'" and ok: "all_ok t"
    and resp: "\<forall>m \<in> set (answering (at_spin t)). is_response m"
  shows "map answer_of (answering (at_spin t)) @ questions (popped_in (t, a, es)) =
    map answer_of (filter is_response (serialized es)) @ map answer_of (answering (at_spin t'))"
  using step
proof (cases rule: thread_step.cases)
  case (spin_calls env)
  then show ?thesis by (simp add: questions_def)
next
  case (spin_access pc b)
  then show ?thesis
    using spin_micro_answers [OF spin_access(4) _ _ resp] ok by (simp add: all_ok_def del: is_response.simps)
next
  case (inbound_access d pc b)
  from inbound_access(5) have "serialized es = []" by (cases rule: inbound_micro_cases) simp_all
  then show ?thesis using inbound_access by (simp add: questions_def)
next
  case (outbound_access pc b)
  have "pc_inv (at_outbound t) (outbound (bridge t))"
    using ok by (auto simp: all_ok_def threads_ok_def interleaved_inv_def)
  from outbound_micro_sends [OF outbound_access(4) this] show ?thesis
    using outbound_access by (simp add: questions_def del: is_response.simps)
next
  case (user_call c r b)
  then show ?thesis using api_step_silent [of ph rnd c "bridge t"] by (simp add: questions_def)
next
  case (action_ends i b)
  then show ?thesis using finish_silent [of i "bridge t"] by (simp add: questions_def)
qed

lemma answer_is_response: "answer_of m \<noteq> None \<Longrightarrow> is_response m"
  by (auto simp: answer_of_def split: message_body.splits)

lemma questions_not_None: "None \<notin> set (questions ms)"
  by (auto simp: questions_def)

interpretation answered: access_invariant ph rnd
  "\<lambda>tr t. questions (along popped_in tr) =
     map answer_of (filter is_response (along sent_in tr)) @ map answer_of (answering (at_spin t))"
  for ph :: pheromones and rnd :: "nat \<Rightarrow> int"
proof (unfold_locales, goal_cases)
  case (1 t)
  then show ?case by (simp add: initial_threads_simps questions_def)
next
  case (2 tr t a es t')
  have "None \<notin> set (map answer_of (answering (at_spin t)))"
    using questions_not_None [of "along popped_in tr"] unfolding 2(1) by auto
  then have "\<forall>m \<in> set (answering (at_spin t)). is_response m"
    using answer_is_response by (metis image_eqI list.set_map)
  from step_answering [OF 2(3,2) this] 2(1) show ?case by (simp del: is_response.simps)
qed


subsection \<open>Every started call is returned once\<close>

lemma call_numbers_Cons: "call_numbers (h # hs) = call_numbers [h] @ call_numbers hs"
  by (simp split: option.split)

text \<open>The ledger when one handle leaves the queue.\<close>

lemma ledger_remove:
  assumes led: "call_ledger ph msgs (m_calls u) (hs @ h # hs') fin rets"
    and ready: "\<forall>i \<in> set (call_numbers [h]). is_ready u i"
  shows "call_ledger ph msgs (m_calls u) (hs @ hs') (fin @ call_numbers [h])
    (rets @ return_messages ph rnd u [h] n)"
proof -
  have tr: "\<forall>g \<in> set [h]. tracks msgs g" using led by (simp add: call_ledger_def)
  have "filter (is_ready u) (call_numbers [h]) = call_numbers [h]" using ready by (simp add: filter_id_conv)
  with return_messages_due [OF tr, of ph rnd u n]
  have "map return_of (return_messages ph rnd u [h] n) = due_returns ph msgs (m_calls u) (call_numbers [h])"
    by simp
  moreover have "mset (fin @ call_numbers (hs @ h # hs')) =
      mset ((fin @ call_numbers [h]) @ call_numbers (hs @ hs'))"
    by (simp add: call_numbers_Cons [of h hs'] del: call_numbers.simps)
  ultimately show ?thesis
    using led ready
    by (auto simp: call_ledger_def is_ready_eq add.left_commute simp del: call_numbers.simps return_messages.simps)
qed

lemma erase_request_queue:
  assumes "j < length (m_inboundRequestsQueue b)"
  shows "\<exists>hs hs'. m_inboundRequestsQueue b = hs @ m_inboundRequestsQueue b ! j # hs' \<and>
    m_inboundRequestsQueue (erase_request j b) = hs @ hs'"
  using id_take_nth_drop [OF assms] by (auto simp: erase_request_def)

lemma erase_request_ledger:
  assumes led: "call_ledger ph msgs (m_calls (user_calls b)) (m_inboundRequestsQueue b) fin rets"
    and j: "j < length (m_inboundRequestsQueue b)"
    and ready: "\<forall>i \<in> set (call_numbers [m_inboundRequestsQueue b ! j]). is_ready (user_calls b) i"
  shows "call_ledger ph msgs (m_calls (user_calls b)) (m_inboundRequestsQueue (erase_request j b))
    (fin @ call_numbers [m_inboundRequestsQueue b ! j])
    (rets @ return_messages ph rnd (user_calls b) [m_inboundRequestsQueue b ! j] n)"
proof -
  obtain hs hs' where q: "m_inboundRequestsQueue b = hs @ m_inboundRequestsQueue b ! j # hs'"
    "m_inboundRequestsQueue (erase_request j b) = hs @ hs'"
    using erase_request_queue [OF j] by blast
  from led have "call_ledger ph msgs (m_calls (user_calls b)) (hs @ m_inboundRequestsQueue b ! j # hs') fin rets"
    using q(1) by simp
  from ledger_remove [OF this ready] show ?thesis using q(2) by simp
qed

lemma spin_micro_ledger:
  assumes step: "spin_micro ph rnd pc b = Inr (pc', b', es)" and work: "spin_work pc b" and knows: "spin_knows pc b"
    and led: "call_ledger ph msgs (m_calls (user_calls b)) (spin_handles pc b) fin rets"
  shows "call_ledger ph
    (msgs @ (case pc of SHandle m \<Rightarrow> filter (starts_call (callback_map b)) [m] | _ \<Rightarrow> []))
    (m_calls (user_calls b')) (spin_handles pc' b')
    (fin @ (case pc of SReturn j \<Rightarrow> call_numbers [m_inboundRequestsQueue b ! j] | _ \<Rightarrow> []))
    (rets @ (case pc of SReturn j \<Rightarrow> serialized es | _ \<Rightarrow> []))"
proof (cases pc)
  case (SHandle m)
  then obtain r mh where h: "MessageHandler_handleMessage ph m (m_messageHandler b) = Inr (r, mh, es)"
    "pc' = SPop r" "b' = b\<lparr>m_messageHandler := mh\<rparr>"
    using step by (auto simp: rbind_eq_Inr)
  have inv: "message_handler_inv (m_messageHandler b)"
    using work by (simp add: spin_work_def message_handler_inv_def)
  have led0: "call_ledger ph msgs (m_calls (user_calls b)) (m_inboundRequestsQueue b) fin rets"
    using led SHandle by (simp add: spin_handles_def)
  have hs: "spin_handles pc' b' = m_inboundRequestsQueue b @ (case r of HandledRequest g \<Rightarrow> [g] | _ \<Rightarrow> [])"
    using h by (simp add: spin_handles_def in_hand_handled)
  note start = MessageHandler_starts [OF h(1) inv, of msgs]
  show ?thesis
  proof (cases "starts_call (callback_map b) m")
    case True
    then obtain g c where "r = HandledRequest g"
      "m_calls (m_userCallRequestHandler mh) = m_calls (user_calls b) @ [c]" "runs_request m c"
      "m_callbackReturnContext g = Some (length (m_calls (user_calls b)))" "tracks (msgs @ [m]) g"
      using start ledger_numbers(3) [OF led] by auto
    then show ?thesis using ledger_start [OF led0] True SHandle h hs by simp
  next
    case False
    then show ?thesis
      using start led0 SHandle h hs ledger_answer by (cases r) auto
  qed
next
  case (SPop r)
  then show ?thesis using step led by (cases r) (auto simp: rbind_eq_Inr spin_handles_def)
next
  case (SStore r)
  then show ?thesis using step led by (cases r) (auto simp: spin_handles_def)
next
  case (SSweep j)
  show ?thesis
  proof (cases "j < length (m_inboundRequestsQueue b) \<and> m_callbackReturnContext (m_inboundRequestsQueue b ! j) = None")
    case True
    then have "pc' = SSweep j" "b' = erase_request j b" using SSweep step by (auto simp: bridge_defs)
    moreover have "call_ledger ph msgs (m_calls (user_calls b)) (m_inboundRequestsQueue b) fin rets"
      using led SSweep by (simp add: spin_handles_def)
    from erase_request_ledger [OF this, of j rnd 0] True
    have "call_ledger ph msgs (m_calls (user_calls b)) (m_inboundRequestsQueue (erase_request j b)) fin rets"
      by (simp add: returned_def)
    ultimately show ?thesis using SSweep by (simp add: spin_handles_def erase_request_def)
  next
    case False
    then show ?thesis
      using SSweep step led by (auto simp: spin_handles_def bridge_defs split: if_splits option.splits)
  qed
next
  case (SReturn j)
  then obtain n where b': "pc' = SSweep j" "b' = erase_request j (b\<lparr>rand_calls := n\<rparr>)"
    using step sendReturn_erase by blast
  have j: "j < length (m_inboundRequestsQueue b)"
    "\<forall>i \<in> set (call_numbers [m_inboundRequestsQueue b ! j]). is_ready (user_calls b) i"
    using knows SReturn by auto
  have "call_ledger ph msgs (m_calls (user_calls b)) (m_inboundRequestsQueue b) fin rets"
    using led SReturn by (simp add: spin_handles_def)
  from erase_request_ledger [OF this j, of rnd "rand_calls b"] show ?thesis
    using SReturn b' spin_micro_sends [OF step work knows]
    by (simp add: spin_handles_def erase_request_def del: call_numbers.simps return_messages.simps)
next
  case (SListen env)
  then show ?thesis using step led by (auto simp: spin_handles_def Let_def split: prod.splits)
next
  case (SAwaitGreet env)
  then show ?thesis
    using step led deserialize_frame by (fastforce simp: spin_handles_def rbind_eq_Inr split: option.splits)
qed (use step led in \<open>auto simp: rbind_eq_Inr spin_handles_def split: if_splits\<close>)

lemma step_call_ledger:
  assumes step: "thread_step ph rnd t a es t'" and ok: "all_ok t"
    and led: "call_ledger ph msgs (m_calls (user_calls (bridge t))) (spin_handles (at_spin t) (bridge t)) fin rets"
  shows "call_ledger ph (msgs @ started_in (t, a, es)) (m_calls (user_calls (bridge t')))
    (spin_handles (at_spin t') (bridge t')) (fin @ returned_in (t, a, es)) (rets @ return_sends_in (t, a, es))"
  using step
proof (cases rule: thread_step.cases)
  case (spin_calls env)
  then show ?thesis using led by (simp add: spin_handles_def)
next
  case (spin_access pc b)
  then show ?thesis
    using spin_micro_ledger [OF spin_access(4) _ _ led] ok
    by (simp add: all_ok_def del: filter.simps call_numbers.simps)
next
  case (inbound_access d pc b)
  from inbound_access(5) show ?thesis
    by (cases rule: inbound_micro_cases) (use inbound_access(1,2) led in \<open>simp_all add: spin_handles_def\<close>)
next
  case (outbound_access pc b)
  then show ?thesis using outbound_micro_frame [OF outbound_access(4)] led by (auto simp: spin_handles_def)
next
  case (user_call c r b)
  then show ?thesis using api_step_frame(2,3) led by (simp add: spin_handles_def)
next
  case (action_ends i b)
  then have b: "b = fst (finish_call i (bridge t))" by simp
  have "call_ledger ph msgs (m_calls (fst (run_call i (user_calls (bridge t)))))
      (spin_handles (at_spin t) (bridge t)) fin rets"
    using led ledger_finish [OF led, of i]
    by (auto simp: run_call_def Let_def ready_call_def split: call_state.split prod.split)
  then show ?thesis by (simp add: action_ends(1,2) b spin_handles_def)
qed

interpretation ledgers: access_invariant ph rnd
  "\<lambda>tr t. call_ledger ph (along started_in tr) (m_calls (user_calls (bridge t)))
     (spin_handles (at_spin t) (bridge t)) (along returned_in tr) (along return_sends_in tr)"
  for ph :: pheromones and rnd :: "nat \<Rightarrow> int"
proof (unfold_locales, goal_cases)
  case (1 t)
  then show ?case by (simp add: initial_threads_simps spin_handles_def call_ledger_def due_returns_def)
next
  case (2 tr t a es t')
  then show ?case using step_call_ledger [of ph rnd t a es t'] by simp
qed


text \<open>The requests that start calls are among the messages handled, in their order.\<close>

fun handling :: "spin_pc \<Rightarrow> HiveMindBridgeImpl \<Rightarrow> MessageDTO list" where
  "handling (SPop r) b = take 1 (inbound b)"
| "handling _ b = []"

lemma handling_stable: "spin_knows pc b \<Longrightarrow> rely b b' \<Longrightarrow> handling pc b' = handling pc b"
  by (cases pc) (auto simp: rely_def neq_Nil_conv)

lemma spin_micro_handling:
  assumes step: "spin_micro ph rnd pc b = Inr (pc', b', es)" and knows: "spin_knows pc b"
  shows "subseq (case pc of SHandle m \<Rightarrow> filter (starts_call (callback_map b)) [m] | _ \<Rightarrow> []) (handling pc' b')"
    and "handling pc b = (case pc of SPop r \<Rightarrow> take 1 (inbound b) | _ \<Rightarrow> [])"
proof -
  show "subseq (case pc of SHandle m \<Rightarrow> filter (starts_call (callback_map b)) [m] | _ \<Rightarrow> []) (handling pc' b')"
  proof (cases pc)
    case (SHandle m)
    then have "handling pc' b' = [m]"
      using step knows by (auto simp: rbind_eq_Inr neq_Nil_conv)
    then show ?thesis using SHandle by simp
  qed simp_all
  show "handling pc b = (case pc of SPop r \<Rightarrow> take 1 (inbound b) | _ \<Rightarrow> [])" by (cases pc) simp_all
qed

lemma step_handling:
  assumes step: "thread_step ph rnd t a es t'" and ok: "all_ok t"
    and sub: "subseq ms (ps @ handling (at_spin t) (bridge t))"
  shows "subseq (ms @ started_in (t, a, es)) ((ps @ popped_in (t, a, es)) @ handling (at_spin t') (bridge t'))"
proof -
  have other: "subseq ms (ps @ handling (at_spin t) b)" if "rely (bridge t) b" for b
    using handling_stable [OF _ that] sub ok by (simp add: all_ok_def)
  show ?thesis
    using step
  proof (cases rule: thread_step.cases)
    case (spin_calls env)
    then show ?thesis using sub by simp
  next
    case (spin_access pc b)
    have knows: "spin_knows (at_spin t) (bridge t)" using ok by (simp add: all_ok_def)
    note h = spin_micro_handling [OF spin_access(4) knows]
    show ?thesis
      using list_emb_append_mono [OF sub h(1)] h(2) by (simp add: spin_access(1,2))
  next
    case (inbound_access d pc b)
    then show ?thesis using other [OF inbound_micro_rely] by simp
  next
    case (outbound_access pc b)
    then show ?thesis using other [OF outbound_micro_rely] by simp
  next
    case (user_call c r b)
    then show ?thesis using other [OF api_step_rely] by simp
  next
    case (action_ends i b)
    then have "rely (bridge t) b" using finish_rely [of "bridge t" i] by simp
    then show ?thesis using action_ends other by simp
  qed
qed

interpretation handled: access_invariant ph rnd
  "\<lambda>tr t. subseq (along started_in tr) (along popped_in tr @ handling (at_spin t) (bridge t))"
  for ph :: pheromones and rnd :: "nat \<Rightarrow> int"
proof (unfold_locales, goal_cases)
  case (1 t)
  then show ?case by simp
next
  case (2 tr t a es t')
  then show ?case using step_handling [of ph rnd t a es t'] by simp
qed


subsection \<open>Queued messages are sent once\<close>

abbreviation sender_ghosts :: "pheromones \<Rightarrow> (nat \<Rightarrow> int) \<Rightarrow> access list \<Rightarrow> ghosts" where
  "sender_ghosts ph rnd tr \<equiv>
     \<lparr>g_queued = total (queued_in ph rnd) tr, g_sent = total sent_out_in tr, g_discarded = total discarded_in tr\<rparr>"

lemma step_sender:
  assumes step: "thread_step ph rnd t a es t'" and ok: "all_ok t"
    and inv: "interleaved_inv (at_outbound t) (bridge t) \<lparr>g_queued = q, g_sent = s, g_discarded = d\<rparr>"
  shows "interleaved_inv (at_outbound t') (bridge t')
    \<lparr>g_queued = q + queued_in ph rnd (t, a, es), g_sent = s + sent_out_in (t, a, es),
     g_discarded = d + discarded_in (t, a, es)\<rparr>"
  using step
proof (cases rule: thread_step.cases)
  case (spin_calls env)
  then show ?thesis using inv by simp
next
  case (spin_access pc b)
  then show ?thesis
    using spin_access_sender [OF inv _ spin_access(3,4)] ok by (auto simp: all_ok_def)
next
  case (inbound_access d' pc b)
  have "outbound b = outbound (bridge t) \<and> m_outboundThread b = m_outboundThread (bridge t)"
    using inbound_access(5) by (cases rule: inbound_micro_cases) simp_all
  then show ?thesis using inv inbound_access interleaved_inv_flag by simp
next
  case (outbound_access pc b)
  then show ?thesis using micro_inv [OF inv outbound_access(3,4)] by simp
next
  case (user_call c r b)
  then have "appends_only (bridge t) b" using api_appends [of "bridge t" ph rnd c] by simp
  from interleaved_inv_appends [OF inv this] show ?thesis using user_call by simp
next
  case (action_ends i b)
  then have "outbound b = outbound (bridge t) \<and> m_outboundThread b = m_outboundThread (bridge t)"
    using finish_call_frame [of i "bridge t"] by auto
  then show ?thesis using inv action_ends interleaved_inv_flag by simp
qed

interpretation sender: access_invariant ph rnd
  "\<lambda>tr t. interleaved_inv (at_outbound t) (bridge t) (sender_ghosts ph rnd tr)"
  for ph :: pheromones and rnd :: "nat \<Rightarrow> int"
proof (unfold_locales, goal_cases)
  case (1 t)
  then show ?case by (auto simp: initial_threads_def interleaved_inv_def initial_bridge_def)
next
  case (2 tr t a es t')
  then show ?case using step_sender [of ph rnd t a es t'] by simp
qed


subsection \<open>What is on the stream\<close>

text \<open>Between the spins' greetings, answers and returns and the outbound thread's messages nothing else
  is written to the stream.\<close>

fun greeted_in :: "access \<Rightarrow> MessageDTO list" where
  "greeted_in (t, SpinAccess, es) =
     (case at_spin t of SGreet env \<Rightarrow> if isTCPClientConnected (bridge t) then [createGreetMessage] else [] | _ \<Rightarrow> [])"
| "greeted_in _ = []"

fun answered_in :: "access \<Rightarrow> MessageDTO list" where
  "answered_in (t, SpinAccess, es) = answering (at_spin t)"
| "answered_in _ = []"

lemma step_sent:
  assumes step: "thread_step ph rnd t a es t'" and ok: "all_ok t"
  shows "mset (serialized es) = mset (answered_in (t, a, es)) + mset (return_sends_in (t, a, es)) +
    mset (greeted_in (t, a, es)) + sent_out_in (t, a, es)"
  using step
proof (cases rule: thread_step.cases)
  case (spin_access pc b)
  then show ?thesis
    using spin_micro_sends [OF spin_access(4)] ok
    by (cases "at_spin t") (auto simp: all_ok_def)
next
  case (inbound_access d pc b)
  from inbound_access(5) have "serialized es = []" by (cases rule: inbound_micro_cases) simp_all
  then show ?thesis using inbound_access by simp
next
  case (user_call c r b)
  then show ?thesis using api_step_silent [of ph rnd c "bridge t"] by simp
next
  case (action_ends i b)
  then show ?thesis using finish_silent [of i "bridge t"] by simp
qed simp_all

interpretation stream: access_invariant ph rnd
  "\<lambda>tr t. mset (along sent_in tr) = mset (along answered_in tr) + mset (along return_sends_in tr) +
     mset (along greeted_in tr) + total sent_out_in tr"
  for ph :: pheromones and rnd :: "nat \<Rightarrow> int"
proof (unfold_locales, goal_cases)
  case (1 t)
  then show ?case by simp
next
  case (2 tr t a es t')
  then show ?case using step_sent [of ph rnd t a es t'] by (simp add: ac_simps)
qed

end
