(* ===== verification/AtomicSteps.thy ===== *)
theory AtomicSteps
  imports Prelude Pheromones Handles UserCallRequestHandler MessageHandler HiveMindBridgeImpl OutboundQueue
    Spin HiveMindBridge BridgeSystem Inbound OutboundThread Executions CallResults SpinThread Concurrency ThreadRuns
begin

section \<open>Whole calls and turns among the interleavings\<close>

text \<open>
  An execution of \<open>Executions\<close>, whose steps are whole calls and whole turns, is one of the
  interleavings of \<open>Concurrency\<close>: each step is made of the accesses of one thread with none of another
  between them. It shows that the two models are of the same program, and that the interleaved threads
  reach what the executions reach.
\<close>

subsection \<open>Between two calls and turns\<close>

text \<open>The spin has returned and the two threads are at the heads of their loops or have ended.\<close>

definition idle_threads :: "threads \<Rightarrow> bool" where
  "idle_threads t \<longleftrightarrow> at_inbound t \<in> {RLoop, RReturned} \<and> at_outbound t \<in> {AtLoop, Returned}"

text \<open>\<open>more\<close> accesses lead from \<open>t\<close> to \<open>t'\<close>; they read \<open>ms\<close> and send \<open>ms'\<close>.\<close>

definition leads_to ::
  "pheromones \<Rightarrow> (nat \<Rightarrow> int) \<Rightarrow> threads \<Rightarrow> MessageDTO list \<Rightarrow> MessageDTO list \<Rightarrow> threads \<Rightarrow> bool" where
  "leads_to ph rnd t ms ms' t' \<longleftrightarrow>
     (\<forall>tr. thread_run ph rnd tr t \<longrightarrow>
       (\<exists>more. thread_run ph rnd (tr @ more) t' \<and> along read_in more = ms \<and> along sent_in more = ms'))"

lemma leads_nowhere: "leads_to ph rnd t [] [] t"
  unfolding leads_to_def by (intro allI impI exI [of _ "[]"]) simp

lemma leads_trans:
  "leads_to ph rnd t1 ms1 ms1' t2 \<Longrightarrow> leads_to ph rnd t2 ms2 ms2' t3 \<Longrightarrow>
   leads_to ph rnd t1 (ms1 @ ms2) (ms1' @ ms2') t3"
  unfolding leads_to_def by (metis along_simps(2) append.assoc)

lemma leads_access:
  "thread_step ph rnd t a es t' \<Longrightarrow> leads_to ph rnd t (read_in (t, a, es)) (serialized es) t'"
  unfolding leads_to_def by (intro allI impI exI [of _ "[(t, a, es)]"]) (simp add: run_accesses)

lemma leads_then:
  assumes "thread_step ph rnd t a es t1" "leads_to ph rnd t1 ms ms' t2"
  shows "leads_to ph rnd t (read_in (t, a, es) @ ms) (serialized es @ ms') t2"
  by (rule leads_trans [OF leads_access [OF assms(1)] assms(2)])


subsection \<open>A spin\<close>

text \<open>The accesses of a spin that has no thread to wait for.\<close>

fun no_wait :: "spin_pc \<Rightarrow> HiveMindBridgeImpl \<Rightarrow> bool" where
  "no_wait (SpinCall env) b =
     (isTCPClientConnected b \<or> m_inboundThread b \<noteq> RunningThread \<and> m_outboundThread b \<noteq> RunningThread)"
| "no_wait (SJoinInbound env) b =
     (m_inboundThread b \<noteq> RunningThread \<and> m_outboundThread b \<noteq> RunningThread)"
| "no_wait (SJoinOutbound env) b = (m_outboundThread b \<noteq> RunningThread)"
| "no_wait _ b = True"

lemma no_wait_free: "no_wait pc b \<Longrightarrow> \<not> join_waits pc b"
  by (cases pc) simp_all

lemma no_wait_step:
  assumes "spin_micro ph rnd pc b = Inr (pc', b', es)" "no_wait pc b"
  shows "no_wait pc' b'"
  using assms by (cases pc) (auto simp: rbind_eq_Inr Let_def split: if_splits handled.splits option.splits prod.splits)

lemma spin_leads:
  assumes "spin_alone ph rnd n (at_spin t) (bridge t) = Inr (pc, b, es)" "no_wait (at_spin t) (bridge t)"
    "idle_threads t"
  shows "\<exists>t'. leads_to ph rnd t [] (serialized es) t' \<and> bridge t' = b \<and> at_spin t' = pc \<and> idle_threads t'"
  using assms
proof (induction n arbitrary: t es)
  case 0
  then show ?case using leads_nowhere by auto
next
  case (Suc n)
  obtain pc1 b1 es1 es2 where m: "spin_micro ph rnd (at_spin t) (bridge t) = Inr (pc1, b1, es1)"
    and r: "spin_alone ph rnd n pc1 b1 = Inr (pc, b, es2)" and es: "es = es1 @ es2"
    using Suc.prems(1) by (auto simp: rbind_eq_Inr)
  let ?t = "t\<lparr>bridge := b1, at_spin := pc1,
         at_inbound := if at_spin t = SStartInbound then RLoop else at_inbound t,
         at_outbound := if at_spin t = SStartOutbound then AtLoop else at_outbound t\<rparr>"
  have "idle_threads ?t" using Suc.prems(3) by (auto simp: idle_threads_def)
  moreover have "no_wait pc1 b1" by (rule no_wait_step [OF m Suc.prems(2)])
  ultimately obtain t' where t': "leads_to ph rnd ?t [] (serialized es2) t'" "bridge t' = b" "at_spin t' = pc"
    "idle_threads t'"
    using Suc.IH [of ?t es2] r by auto
  from leads_then [OF spin_access [OF no_wait_free [OF Suc.prems(2)] m] t'(1)]
  have "leads_to ph rnd t [] (serialized es) t'" by (simp add: es)
  with t' show ?case by blast
qed

text \<open>Before a spin that joins them the threads see that the connection is gone and return.\<close>

lemma inbound_leaves:
  assumes "threads_ok t" "idle_threads t" "\<not> isTCPClientConnected (bridge t)"
  shows "\<exists>t'. leads_to ph rnd t [] [] t' \<and> (\<exists>x. bridge t' = (bridge t)\<lparr>m_inboundThread := x\<rparr> \<and> x \<noteq> RunningThread) \<and>
    at_spin t' = at_spin t \<and> idle_threads t'"
proof (cases "m_inboundThread (bridge t) = RunningThread")
  case True
  then have pc: "at_inbound t = RLoop" using assms(1,2) by (auto simp: threads_ok_def idle_threads_def)
  let ?d = "greet_read sample_env"
  let ?t = "t\<lparr>bridge := (bridge t)\<lparr>m_inboundThread := FinishedThread\<rparr>, at_inbound := RReturned\<rparr>"
  have "read_wf ?d" by (simp add: read_wf_def sample_env_def message_wf_def)
  moreover have "inbound_micro ?d (at_inbound t) (bridge t) =
      Inr (RReturned, (bridge t)\<lparr>m_inboundThread := FinishedThread\<rparr>, [])"
    using pc assms(3) by simp
  ultimately have "thread_step ph rnd t (InboundAccess ?d) [] ?t"
    using inbound_access [OF True, of ?d RReturned _ "[]" ph rnd] by simp
  from leads_access [OF this] have "leads_to ph rnd t [] [] ?t" using pc by simp
  then show ?thesis using assms(2) by (intro exI [of _ ?t]) (auto simp: idle_threads_def)
next
  case False
  have "bridge t = (bridge t)\<lparr>m_inboundThread := m_inboundThread (bridge t)\<rparr>" by simp
  with False assms(2) leads_nowhere [of ph rnd t] show ?thesis by blast
qed

lemma outbound_leaves:
  assumes "threads_ok t" "idle_threads t" "\<not> isTCPClientConnected (bridge t)"
  shows "\<exists>t'. leads_to ph rnd t [] [] t' \<and> (\<exists>x. bridge t' = (bridge t)\<lparr>m_outboundThread := x\<rparr> \<and> x \<noteq> RunningThread) \<and>
    at_spin t' = at_spin t \<and> idle_threads t'"
proof (cases "m_outboundThread (bridge t) = RunningThread")
  case True
  then have pc: "at_outbound t = AtLoop"
    using assms(1,2) by (auto simp: threads_ok_def idle_threads_def interleaved_inv_def)
  let ?t = "t\<lparr>bridge := (bridge t)\<lparr>m_outboundThread := FinishedThread\<rparr>, at_outbound := Returned\<rparr>"
  have "outbound_micro (at_outbound t) (bridge t) =
      Inr (Returned, (bridge t)\<lparr>m_outboundThread := FinishedThread\<rparr>, [])"
    using pc assms(3) by simp
  then have "thread_step ph rnd t OutboundAccess [] ?t"
    using outbound_access [OF True, of Returned _ "[]" ph rnd] by simp
  from leads_access [OF this] have "leads_to ph rnd t [] [] ?t" by simp
  then show ?thesis using assms(2) by (intro exI [of _ ?t]) (auto simp: idle_threads_def)
next
  case False
  have "bridge t = (bridge t)\<lparr>m_outboundThread := m_outboundThread (bridge t)\<rparr>" by simp
  with False assms(2) leads_nowhere [of ph rnd t] show ?thesis by blast
qed

lemma spin_joined:
  assumes "\<not> isTCPClientConnected b"
  shows "spin ph rnd env (b\<lparr>m_inboundThread := x, m_outboundThread := y\<rparr>) = spin ph rnd env b"
proof -
  obtain s es where l: "tcp_listen (listen_result env) (accept_result env) (m_tcpServer b) = (s, es)"
    by fastforce
  have "spin_reconnect env (b\<lparr>m_inboundThread := x, m_outboundThread := y\<rparr>) = spin_reconnect env b"
    using spin_reconnect_eq [OF l]
      spin_reconnect_eq [of env "b\<lparr>m_inboundThread := x, m_outboundThread := y\<rparr>" s es] l by simp
  then show ?thesis using assms by (simp add: spin_def isTCPClientConnected_def)
qed

lemma leads_ok: "leads_to ph rnd t ms ms' t' \<Longrightarrow> thread_run ph rnd tr t \<Longrightarrow> \<exists>tr'. thread_run ph rnd tr' t'"
  unfolding leads_to_def by blast

lemma spin_call_leads:
  assumes run: "thread_run ph rnd tr t" and idle: "idle_threads t" "at_spin t = SpinDone"
    and spin: "spin ph rnd env (bridge t) = Inr (b, es)"
  shows "\<exists>t'. leads_to ph rnd t [] (serialized es) t' \<and> bridge t' = b \<and> at_spin t' = SpinDone \<and> idle_threads t'"
proof -
  obtain t1 where t1: "leads_to ph rnd t [] [] t1" "idle_threads t1" "at_spin t1 = SpinDone"
    and spin1: "spin ph rnd env (bridge t1) = Inr (b, es)" and free: "no_wait (SpinCall env) (bridge t1)"
  proof (cases "isTCPClientConnected (bridge t)")
    case True
    then show thesis using that [OF leads_nowhere idle spin] by simp
  next
    case False
    have "threads_ok t" using thread_run_ok [OF run] by (simp add: all_ok_def)
    from inbound_leaves [OF this idle(1) False, of ph rnd] obtain t2 x where
      t2: "leads_to ph rnd t [] [] t2" "bridge t2 = (bridge t)\<lparr>m_inboundThread := x\<rparr>" "x \<noteq> RunningThread"
      "at_spin t2 = at_spin t" "idle_threads t2" by blast
    have ok2: "threads_ok t2" using leads_ok [OF t2(1) run] thread_run_ok by (auto simp: all_ok_def)
    have "\<not> isTCPClientConnected (bridge t2)" using False t2(2) by (simp add: isTCPClientConnected_def)
    from outbound_leaves [OF ok2 t2(5) this, of ph rnd] obtain t3 y where
      t3: "leads_to ph rnd t2 [] [] t3" "bridge t3 = (bridge t2)\<lparr>m_outboundThread := y\<rparr>" "y \<noteq> RunningThread"
      "at_spin t3 = at_spin t2" "idle_threads t3" by blast
    from leads_trans [OF t2(1) t3(1)] have "leads_to ph rnd t [] [] t3" by simp
    then show thesis
      using that [of t3] t2 t3 idle(2) spin spin_joined [OF False] by simp
  qed
  let ?t = "t1\<lparr>at_spin := SpinCall env\<rparr>"
  let ?n = "2 * length (m_inboundRequestsQueue (bridge t1)) + 13"
  have "spin_alone ph rnd ?n (at_spin ?t) (bridge ?t) = Inr (SpinDone, b, es)"
    using cut_spin [of "bridge t1" ?n ph rnd env] spin1 by (simp del: spin_alone.simps)
  moreover have "idle_threads ?t" using t1(2) by (simp add: idle_threads_def)
  ultimately obtain t' where "leads_to ph rnd ?t [] (serialized es) t'"
    "bridge t' = b" "at_spin t' = SpinDone" "idle_threads t'"
    using spin_leads [of ph rnd ?n ?t] free by auto
  with leads_trans [OF t1(1) leads_then [OF spin_calls [OF t1(3), of ph rnd env]], of "[]" "serialized es" t']
  show ?thesis by auto
qed


subsection \<open>Turns of the two threads\<close>

lemma outbound_leads:
  assumes "outbound_alone (Suc n) (at_outbound t) (bridge t) = Inr (pc, b, es)" "pc = AtLoop \<or> pc = Returned"
    "at_outbound t \<noteq> Returned" "all_ok t" "at_inbound t \<in> {RLoop, RReturned}"
  shows "\<exists>t'. leads_to ph rnd t [] (serialized es) t' \<and> bridge t' = b \<and> at_spin t' = at_spin t \<and> idle_threads t'"
  using assms
proof (induction n arbitrary: t es)
  case (0 t es)
  then obtain pc1 where m: "outbound_micro (at_outbound t) (bridge t) = Inr (pc, b, es)"
    by (auto simp: rbind_eq_Inr split: if_splits)
  have run: "m_outboundThread (bridge t) = RunningThread"
    using 0(3,4) by (auto simp: all_ok_def threads_ok_def interleaved_inv_def)
  let ?t = "t\<lparr>bridge := b, at_outbound := pc\<rparr>"
  from leads_access [OF outbound_access [OF run m, of ph rnd]]
  have "leads_to ph rnd t [] (serialized es) ?t" by simp
  then show ?case using 0(2,5) by (intro exI [of _ ?t]) (simp add: idle_threads_def)
next
  case (Suc n)
  have run: "m_outboundThread (bridge t) = RunningThread"
    using Suc.prems(3,4) by (auto simp: all_ok_def threads_ok_def interleaved_inv_def)
  obtain pc1 b1 es1 where m: "outbound_micro (at_outbound t) (bridge t) = Inr (pc1, b1, es1)"
    using Suc.prems(1) by (auto simp: rbind_eq_Inr)
  let ?t = "t\<lparr>bridge := b1, at_outbound := pc1\<rparr>"
  note acc = outbound_access [OF run m, of ph rnd]
  show ?case
  proof (cases "pc1 = AtLoop \<or> pc1 = Returned")
    case True
    then have "b1 = b" "es1 = es" using Suc.prems(1) m by auto
    with leads_access [OF acc] have "leads_to ph rnd t [] (serialized es) ?t" by simp
    then show ?thesis
      using True Suc.prems(5) \<open>b1 = b\<close> by (intro exI [of _ ?t]) (auto simp: idle_threads_def)
  next
    case False
    then obtain es2 where r: "outbound_alone (Suc n) pc1 b1 = Inr (pc, b, es2)" and es: "es = es1 @ es2"
      using Suc.prems(1) m by (auto simp: rbind_eq_Inr simp del: outbound_alone.simps(2)
          simp: outbound_alone.simps(2) [of "Suc n"])
    have "all_ok ?t" by (rule thread_step_ok [OF acc Suc.prems(4)])
    then obtain t' where t': "leads_to ph rnd ?t [] (serialized es2) t'" "bridge t' = b"
      "at_spin t' = at_spin t" "idle_threads t'"
      using Suc.IH [of ?t es2] r Suc.prems(2,5) False by auto
    from leads_then [OF acc t'(1)] have "leads_to ph rnd t [] (serialized es) t'" by (simp add: es)
    with t' show ?thesis by blast
  qed
qed

lemma outbound_turn_leads:
  assumes run: "thread_run ph rnd tr t" and idle: "idle_threads t"
    and thread: "m_outboundThread (bridge t) = RunningThread" and turn: "outboundThread_step (bridge t) = Inr (b, es)"
  shows "\<exists>t'. leads_to ph rnd t [] (serialized es) t' \<and> bridge t' = b \<and> at_spin t' = at_spin t \<and> idle_threads t'"
proof -
  have ok: "all_ok t" by (rule thread_run_ok [OF run])
  then have pc: "at_outbound t = AtLoop"
    using idle thread by (auto simp: all_ok_def threads_ok_def interleaved_inv_def idle_threads_def)
  have "outbound_alone (Suc 6) (at_outbound t) (bridge t) =
      Inr (if isTCPClientConnected (bridge t) then AtLoop else Returned, b, es)"
    using outbound_alone_turn [of 7 "bridge t"] turn pc by (simp del: outbound_alone.simps add: numeral_eq_Suc)
  from outbound_leads [OF this _ _ ok] pc idle show ?thesis by (auto simp: idle_threads_def split: if_splits)
qed

lemma inbound_turn_leads:
  assumes run: "thread_run ph rnd tr t" and idle: "idle_threads t"
    and thread: "m_inboundThread (bridge t) = RunningThread" and wf: "read_wf d"
    and turn: "inboundThread_step d (bridge t) = Inr (b, es)"
  shows "\<exists>t'. leads_to ph rnd t
      (if isTCPClientConnected (bridge t) \<and> read_ok d then [read_message d] else []) (serialized es) t' \<and>
    bridge t' = b \<and> at_spin t' = at_spin t \<and> idle_threads t'"
proof -
  have ok: "threads_ok t" using thread_run_ok [OF run] by (simp add: all_ok_def)
  then have pc: "at_inbound t = RLoop" using idle thread by (auto simp: threads_ok_def idle_threads_def)
  show ?thesis
  proof (cases "isTCPClientConnected (bridge t)")
    case False
    then have "b = (bridge t)\<lparr>m_inboundThread := FinishedThread\<rparr>" "es = []"
      using turn by (auto simp: inboundThread_step_def)
    then have "inbound_micro d (at_inbound t) (bridge t) = Inr (RReturned, b, [])" "es = []"
      using False pc by simp_all
    from leads_access [OF inbound_access [OF thread wf this(1)]] this(2) False pc idle show ?thesis
      by (intro exI [of _ "t\<lparr>bridge := b, at_inbound := RReturned\<rparr>"]) (simp add: idle_threads_def)
  next
    case True
    from inbound_alone_turn [OF True turn] obtain pc1 b1 where
      m: "inbound_micro d RLoop (bridge t) = Inr (RRead, bridge t, [])"
      "inbound_micro d RRead (bridge t) = Inr (pc1, b1, es)"
      and last: "if read_ok d then pc1 = RPush (read_message d) \<and> inbound_micro d pc1 b1 = Inr (RLoop, b, [])
        else pc1 = RLoop \<and> b1 = b" by blast
    let ?t1 = "t\<lparr>at_inbound := RRead\<rparr>" and ?t2 = "t\<lparr>bridge := b1, at_inbound := pc1\<rparr>"
      and ?t3 = "t\<lparr>bridge := b, at_inbound := RLoop\<rparr>"
    have "thread_step ph rnd t (InboundAccess d) [] ?t1" using inbound_access [OF thread wf] m(1) pc by fastforce
    moreover have "thread_step ph rnd ?t1 (InboundAccess d) es ?t2"
      using inbound_access [of ?t1 d pc1 b1 es ph rnd] thread wf m(2) by simp
    ultimately have two: "leads_to ph rnd t (if read_ok d then [read_message d] else []) (serialized es) ?t2"
      using leads_then [OF _ leads_access] pc by fastforce
    have thread1: "m_inboundThread b1 = RunningThread"
      using m(2) by (cases rule: inbound_micro_cases) (use thread in simp_all)
    have "leads_to ph rnd t (if read_ok d then [read_message d] else []) (serialized es) ?t3"
    proof (cases "read_ok d")
      case True
      then have "thread_step ph rnd ?t2 (InboundAccess d) [] ?t3"
        using inbound_access [of ?t2 d RLoop b "[]" ph rnd] thread1 wf last by auto
      from leads_trans [OF two leads_access [OF this]] True last show ?thesis by simp
    next
      case False
      then show ?thesis using two last by simp
    qed
    then show ?thesis using True idle by (intro exI [of _ ?t3]) (simp add: idle_threads_def)
  qed
qed


subsection \<open>Executions\<close>

lemma step_leads:
  assumes step: "bridge_step ph rnd (bridge t) a es b" and run: "thread_run ph rnd tr t"
    and idle: "idle_threads t" "at_spin t = SpinDone"
  shows "\<exists>t'. leads_to ph rnd t (arrived (bridge t, a, es)) (serialized es) t' \<and> bridge t' = b \<and>
    at_spin t' = SpinDone \<and> idle_threads t'"
  using step
proof (cases rule: bridge_step.cases)
  case (spin_step env)
  from spin_call_leads [OF run idle spin_step(2)] show ?thesis by (simp add: spin_step(1))
next
  case (api_call_step c r)
  from leads_access [OF user_call [OF api_call_step(2)]] idle show ?thesis
    by (intro exI [of _ "t\<lparr>bridge := b\<rparr>"]) (simp add: api_call_step(1) idle_threads_def)
next
  case (inbound_step d)
  from inbound_turn_leads [OF run idle(1) inbound_step(2,3,4)] idle(2) show ?thesis
    by (simp add: inbound_step(1))
next
  case outbound_step
  from outbound_turn_leads [OF run idle(1) outbound_step(2,3)] idle(2) show ?thesis
    by (simp add: outbound_step(1))
next
  case (finish_step i)
  from leads_access [OF action_ends [OF finish_step(2)]] idle show ?thesis
    by (intro exI [of _ "t\<lparr>bridge := b\<rparr>"]) (simp add: finish_step(1) idle_threads_def)
qed

lemma execution_interleaved:
  assumes "bridge_run ph rnd tr b"
  shows "\<exists>tr' t. thread_run ph rnd tr' t \<and> bridge t = b \<and> at_spin t = SpinDone \<and> idle_threads t \<and>
    along read_in tr' = arrivals tr \<and> along sent_in tr' = emissions tr"
  using assms
proof (induction rule: bridge_run.induct)
  case (run_new b)
  let ?t = "\<lparr>bridge = b, at_spin = SpinDone, at_inbound = RReturned, at_outbound = Returned\<rparr>"
  have "thread_run ph rnd [] ?t" using run_new by (intro run_starts) (simp add: initial_threads_def)
  then show ?case by (intro exI [of _ "[]"] exI [of _ ?t]) (simp add: idle_threads_def)
next
  case (run_step tr b a es b')
  then obtain tr1 t where t: "thread_run ph rnd tr1 t" "bridge t = b" "at_spin t = SpinDone" "idle_threads t"
    "along read_in tr1 = arrivals tr" "along sent_in tr1 = emissions tr" by blast
  from run_step.hyps(2) have "bridge_step ph rnd (bridge t) a es b'" using t(2) by simp
  from step_leads [OF this t(1,4,3)] obtain t' where
    t': "leads_to ph rnd t (arrived (b, a, es)) (serialized es) t'" "bridge t' = b'" "at_spin t' = SpinDone"
    "idle_threads t'" using t(2) by blast
  from t'(1) t(1) obtain more where "thread_run ph rnd (tr1 @ more) t'"
    "along read_in more = arrived (b, a, es)" "along sent_in more = serialized es"
    unfolding leads_to_def by blast
  with t t' show ?case by (intro exI [of _ "tr1 @ more"] exI [of _ t']) simp
qed

text \<open>
  C8. Every execution whose steps are whole spins, whole turns of the two threads, calls of users and
  ends of actions is an interleaving of single accesses: it ends in the same bridge, with no call or
  turn unfinished, has read the same messages and has sent the same messages in the same order. So
  what the program can be shown to do in whole steps its threads can do.
\<close>

theorem executions_are_interleavings:
  assumes "bridge_run ph rnd tr b"
  shows "\<exists>tr' t. thread_run ph rnd tr' t \<and> bridge t = b \<and> at_spin t = SpinDone \<and> idle_threads t \<and>
    along read_in tr' = arrivals tr \<and> along sent_in tr' = emissions tr"
  by (rule execution_interleaved [OF assms])

theorem executions_are_interleavings_witness:
  "\<exists>tr t. thread_run sample_pheromones (\<lambda>n. 7) tr t \<and> isTCPClientConnected (bridge t) \<and>
    m_calls (user_calls (bridge t)) = [Ready (Some \<lparr>m_args = [3, 5], m_returnFunctionName = ''back''\<rparr>)]"
proof -
  obtain tr b where "bridge_run sample_pheromones (\<lambda>n. 7) tr b" "isTCPClientConnected b"
    "m_calls (user_calls b) = [Ready (Some \<lparr>m_args = [3, 5], m_returnFunctionName = ''back''\<rparr>)]"
    using sample_call_run by blast
  with executions_are_interleavings [OF this(1)] show ?thesis by blast
qed

end
