(* ===== verification/ThreadSafety.thy ===== *)
theory ThreadSafety
  imports Prelude Pheromones ThreadSafeQueue Handles UserCallRequestHandler MessageHandler TCPServer
    HiveMindBridgeImpl OutboundQueue Spin HiveMindBridge BridgeSystem Inbound OutboundThread Executions
    CallResults SpinThread Concurrency ThreadRuns AtomicSteps
begin

section \<open>No access faults, no thread is stuck\<close>

text \<open>
  What holds of every reachable state of the interleaved threads: the next access of each thread is
  within the defined behaviour of C++, with two exceptions; a spin ends after a bounded number of its
  own accesses, whatever the others do; and where it waits for a thread, that thread returns. Accesses
  are taken one at a time: what happens when two of them overlap, a data race where no lock orders them,
  is not part of these statements.
\<close>

subsection \<open>Faults\<close>

lemma spin_micro_ok:
  assumes knows: "spin_knows pc b" and work: "spin_work pc b"
  shows "ok (spin_micro ph rnd pc b) \<longleftrightarrow> \<not> (\<exists>m. pc = SHandle m \<and> asks_index_at_size m (callback_map b))"
proof (cases pc)
  case SFront
  then show ?thesis using knows by (cases "inbound b") (simp_all add: front_def)
next
  case (SHandle m)
  then have "m \<in> set (inbound b)" using knows by auto
  then have "message_wf m" using work by (simp add: spin_work_def)
  then have "ok (MessageHandler_handleMessage ph m (m_messageHandler b)) \<longleftrightarrow>
      \<not> asks_index_at_size m (callback_map b)"
    using MessageHandler_ok [of m "m_messageHandler b" ph] MessageHandler_index_fault [of m "m_messageHandler b" ph]
    by auto
  then show ?thesis
    using SHandle by (cases "MessageHandler_handleMessage ph m (m_messageHandler b)") auto
next
  case (SPop r)
  then show ?thesis using knows by (cases "inbound b") (simp_all add: pop_def)
next
  case (SReturn j)
  then obtain i where j: "j < length (m_inboundRequestsQueue b)"
    and i: "m_callbackReturnContext (m_inboundRequestsQueue b ! j) = Some i" "is_ready (user_calls b) i"
    using knows by auto
  have "handle_wf (length (m_calls (user_calls b))) (m_inboundRequestsQueue b ! j)"
    using work j by (simp add: spin_work_def spin_handles_def)
  from sendReturn_eq [OF this i, of ph rnd] show ?thesis using SReturn j by (auto simp: ok_iff)
next
  case (SAwaitGreet env)
  then have "m_clientFd (m_tcpServer b) \<noteq> None" using knows by (simp add: has_client_fd_def)
  from deserialize_run [OF this, of "greet_read env"] show ?thesis
    using SAwaitGreet by (cases "handleGreet (read_message (greet_read env))") auto
next
  case SClose
  then show ?thesis using knows by (auto simp: has_client_fd_def tcp_close_def)
qed (use knows in \<open>auto simp: no_threads_def start_thread_def joinable_def case_prod_unfold Let_def
       split: handled.split option.split\<close>)

lemma inbound_micro_ok:
  assumes "pc = RRead \<Longrightarrow> has_client_fd b"
  shows "ok (inbound_micro d pc b)"
proof (cases pc)
  case RRead
  then have "m_clientFd (m_tcpServer b) \<noteq> None" using assms by (simp add: has_client_fd_def)
  from deserialize_run [OF this, of d] show ?thesis using RRead by auto
qed simp_all

text \<open>
  The iterator the outbound thread holds points to an entry that is still in the map, since only that
  thread erases.
\<close>

definition erase_inv :: "threads \<Rightarrow> bool" where
  "erase_inv t \<longleftrightarrow>
     (\<forall>it. at_outbound t = AtErase it \<longrightarrow> m_inboundResponsesMap (bridge t) (it_key it) \<noteq> None)"

lemma spin_micro_responses:
  assumes "spin_micro ph rnd pc b = Inr (pc', b', es)" "m_inboundResponsesMap b k \<noteq> None"
  shows "m_inboundResponsesMap b' k \<noteq> None"
proof (cases pc)
  case (SReturn j)
  then show ?thesis
    using assms sendReturn_erase [of ph rnd j b pc' b' es] by (auto simp: erase_request_def)
next
  case (SAwaitGreet env)
  then show ?thesis
    using assms deserialize_frame by (fastforce simp: rbind_eq_Inr split: option.splits)
qed (use assms in \<open>auto simp: rbind_eq_Inr case_prod_unfold Let_def erase_request_def
       split: if_splits option.splits handled.splits\<close>)

lemma outbound_finds:
  "outbound_micro pc b = Inr (AtErase it, b', es) \<Longrightarrow> m_inboundResponsesMap b' (it_key it) \<noteq> None"
  by (cases pc) (auto simp: Let_def rbind_eq_Inr split: if_splits message_body.splits option.splits prod.splits)

lemma thread_run_erase: "thread_run ph rnd tr t \<Longrightarrow> erase_inv t"
proof (induction rule: thread_run.induct)
  case (run_starts t)
  then show ?case by (simp add: erase_inv_def initial_threads_def)
next
  case (run_accesses tr t a es t')
  from run_accesses.hyps(2) run_accesses.IH show ?case
  proof (cases rule: thread_step.cases)
    case (spin_access pc b)
    then show ?thesis
      using run_accesses.IH spin_micro_responses [OF spin_access(4)] by (simp add: erase_inv_def)
  next
    case (inbound_access d pc b)
    from inbound_access(5) have "m_inboundResponsesMap b = m_inboundResponsesMap (bridge t)"
      by (cases rule: inbound_micro_cases) simp_all
    then show ?thesis using run_accesses.IH inbound_access by (simp add: erase_inv_def)
  next
    case (outbound_access pc b)
    then show ?thesis by (auto simp: erase_inv_def dest!: outbound_finds)
  next
    case (user_call c r b)
    then show ?thesis
      using run_accesses.IH api_step_cases [of "bridge t" ph rnd c]
      by (auto simp: erase_inv_def sends_only_def configures_def)
  next
    case (action_ends i b)
    have "m_inboundResponsesMap b = m_inboundResponsesMap (bridge t)"
      using finish_call_frame(7) [of i "bridge t"] by (simp add: action_ends(3))
    then show ?thesis using run_accesses.IH action_ends by (simp add: erase_inv_def)
  qed (simp add: erase_inv_def)
qed

lemma stale_erase_iff:
  "erase_inv t \<Longrightarrow> stale_erase (at_outbound t) (m_inboundResponsesMap (bridge t)) \<longleftrightarrow>
    (\<exists>it. at_outbound t = AtErase it \<and> \<not> dom (m_inboundResponsesMap (bridge t)) \<subseteq> it_keys it)"
  by (cases "at_outbound t") (auto simp: erase_inv_def valid_iterator_def)

text \<open>
  C7. However the accesses of the threads interleave, each taken as a whole: the next access of the
  inbound thread never faults, whatever it reads; that of the outbound thread faults in one case only,
  when it erases the response it has found and a spin has meanwhile stored a response under a new id,
  which may have rehashed the map and invalidated the iterator; and that of a spin faults in one case
  only, when it handles a description request whose index is the number of registered actions. So no
  thread reads an empty queue, an unset descriptor or a future that is not ready, and no thread is
  started while the one before it is joinable.
\<close>

theorem thread_accesses_safe:
  assumes "thread_run ph rnd tr t"
  shows "ok (inbound_micro d (at_inbound t) (bridge t)) \<and>
    (ok (outbound_micro (at_outbound t) (bridge t)) \<longleftrightarrow>
      \<not> (\<exists>it. at_outbound t = AtErase it \<and> \<not> dom (m_inboundResponsesMap (bridge t)) \<subseteq> it_keys it)) \<and>
    (ok (spin_micro ph rnd (at_spin t) (bridge t)) \<longleftrightarrow>
      \<not> (\<exists>m. at_spin t = SHandle m \<and> asks_index_at_size m (callback_map (bridge t))))"
proof -
  have inv: "all_ok t" by (rule thread_run_ok [OF assms])
  then have "at_inbound t = RRead \<Longrightarrow> has_client_fd (bridge t)" by (auto simp: all_ok_def threads_ok_def)
  moreover obtain g where "interleaved_inv (at_outbound t) (bridge t) g"
    using inv by (auto simp: all_ok_def threads_ok_def)
  ultimately show ?thesis
    using inv inbound_micro_ok micro_ok spin_micro_ok [of "at_spin t" "bridge t" ph rnd]
      stale_erase_iff [OF thread_run_erase [OF assms]]
    by (auto simp: all_ok_def interleaved_inv_def)
qed

text \<open>A client has connected and both threads run.\<close>

lemma sample_connected:
  "\<exists>tr t. thread_run sample_pheromones (\<lambda>n. 7) tr t \<and> at_spin t = SpinDone \<and> at_inbound t = RLoop \<and>
    at_outbound t = AtLoop \<and> isTCPClientConnected (bridge t) \<and> m_inboundThread (bridge t) = RunningThread \<and>
    has_client_fd (bridge t)"
proof -
  let ?b0 = "fst (new_HiveMindBridge 5000 0 3 0 0)"
  have "initial_bridge ?b0" unfolding initial_bridge_def by blast
  then have "bridge_run sample_pheromones (\<lambda>n. 7) [] ?b0" by (rule run_new)
  then obtain tr b where b: "bridge_run sample_pheromones (\<lambda>n. 7) tr b" "isTCPClientConnected b"
    "m_inboundThread b = RunningThread" "m_outboundThread b = RunningThread"
    using sample_connect [of sample_pheromones "\<lambda>n. 7" "[]" ?b0] by auto
  with execution_interleaved [OF b(1)] obtain tr' t where t: "thread_run sample_pheromones (\<lambda>n. 7) tr' t"
    "bridge t = b" "at_spin t = SpinDone" "idle_threads t" by blast
  have "threads_ok t" using thread_run_ok [OF t(1)] by (simp add: all_ok_def)
  then show ?thesis
    using t b by (intro exI [of _ tr'] exI [of _ t])
      (auto simp: threads_ok_def idle_threads_def interleaved_inv_def)
qed

theorem thread_accesses_safe_witness:
  "\<exists>tr t. thread_run sample_pheromones (\<lambda>n. 7) tr t \<and> isTCPClientConnected (bridge t) \<and>
    ok (inbound_micro (greet_read sample_env) (at_inbound t) (bridge t)) \<and>
    ok (outbound_micro (at_outbound t) (bridge t)) \<and>
    ok (spin_micro sample_pheromones (\<lambda>n. 7) (at_spin t) (bridge t))"
proof -
  obtain tr t where t: "thread_run sample_pheromones (\<lambda>n. 7) tr t" "isTCPClientConnected (bridge t)"
    "at_spin t = SpinDone" "at_outbound t = AtLoop" using sample_connected by blast
  from thread_accesses_safe [OF t(1), of "greet_read sample_env"] t show ?thesis by (intro exI conjI) auto
qed


subsection \<open>A spin ends\<close>

text \<open>How many accesses a spin has left at most.\<close>

fun spin_left :: "spin_pc \<Rightarrow> HiveMindBridgeImpl \<Rightarrow> nat" where
  "spin_left (SpinCall env) b = 13 + 2 * length (m_inboundRequestsQueue b)"
| "spin_left SEmpty b = 12 + 2 * length (m_inboundRequestsQueue b)"
| "spin_left SFront b = 11 + 2 * length (m_inboundRequestsQueue b)"
| "spin_left (SHandle m) b = 10 + 2 * length (m_inboundRequestsQueue b)"
| "spin_left (SPop r) b = 9 + 2 * length (m_inboundRequestsQueue b)"
| "spin_left (SStore r) b = 8 + 2 * length (m_inboundRequestsQueue b)"
| "spin_left (SSweep j) b = 5 + 2 * (length (m_inboundRequestsQueue b) - j)"
| "spin_left (SReturn j) b = 4 + 2 * (length (m_inboundRequestsQueue b) - j)"
| "spin_left (SJoinInbound env) b = 11"
| "spin_left (SJoinOutbound env) b = 10"
| "spin_left (SListen env) b = 9"
| "spin_left (SGreet env) b = 8"
| "spin_left (SAwaitGreet env) b = 7"
| "spin_left SStartInbound b = 6"
| "spin_left SStartOutbound b = 5"
| "spin_left SClose b = 5"
| "spin_left SKeepAlive b = 4"
| "spin_left SKeepQueue b = 3"
| "spin_left SKeepPush b = 2"
| "spin_left SKeepCount b = 1"
| "spin_left SpinDone b = 0"

lemma erase_request_length:
  "j < length (m_inboundRequestsQueue b) \<Longrightarrow>
   Suc (length (m_inboundRequestsQueue (erase_request j b))) = length (m_inboundRequestsQueue b)"
  by (simp add: erase_request_def)

lemma spin_micro_progress:
  assumes step: "spin_micro ph rnd pc b = Inr (pc', b', es)" and "pc \<noteq> SpinDone" "spin_knows pc b"
  shows "spin_left pc' b' < spin_left pc b"
proof (cases pc)
  case (SStore r)
  then show ?thesis using step by (cases r) auto
next
  case (SSweep j)
  then show ?thesis
    using step erase_request_length [of j b] by (auto split: if_splits option.splits)
next
  case (SReturn j)
  then obtain n where "pc' = SSweep j" "b' = erase_request j (b\<lparr>rand_calls := n\<rparr>)"
    using step sendReturn_erase by blast
  moreover have "length (m_inboundRequestsQueue (erase_request j (b\<lparr>rand_calls := n\<rparr>))) - j <
      length (m_inboundRequestsQueue b) - j"
    using assms(3) SReturn erase_request_length [of j "b\<lparr>rand_calls := n\<rparr>"] by simp arith
  ultimately show ?thesis using SReturn by simp
next
  case (SListen env)
  then show ?thesis using step by (auto simp: Let_def split: prod.splits)
next
  case (SAwaitGreet env)
  then show ?thesis using step by (auto simp: rbind_eq_Inr split: option.splits)
qed (use assms in \<open>auto simp: rbind_eq_Inr split: if_splits\<close>)

lemma spin_left_rely: "rely b b' \<Longrightarrow> spin_left pc b' = spin_left pc b"
  by (cases pc) (simp_all add: rely_def)

text \<open>
  C19. A spin ends whatever the other threads do meanwhile: with \<open>n\<close> handles queued it makes at most
  \<open>2 n + 13\<close> accesses. Each of its accesses brings it nearer to its end and no access of another
  thread, no call of a user and no action that ends puts it back.
\<close>

theorem spin_terminates:
  assumes "thread_run ph rnd tr t" "thread_step ph rnd t a es t'"
  shows "(case a of
      SpinCalls env \<Rightarrow> spin_left (at_spin t') (bridge t') = 13 + 2 * length (m_inboundRequestsQueue (bridge t))
    | SpinAccess \<Rightarrow> at_spin t = SpinDone \<or> spin_left (at_spin t') (bridge t') < spin_left (at_spin t) (bridge t)
    | _ \<Rightarrow> spin_left (at_spin t') (bridge t') = spin_left (at_spin t) (bridge t)) \<and>
    (spin_left (at_spin t) (bridge t) = 0 \<longleftrightarrow> at_spin t = SpinDone)"
proof
  have inv: "all_ok t" by (rule thread_run_ok [OF assms(1)])
  show "case a of
      SpinCalls env \<Rightarrow> spin_left (at_spin t') (bridge t') = 13 + 2 * length (m_inboundRequestsQueue (bridge t))
    | SpinAccess \<Rightarrow> at_spin t = SpinDone \<or> spin_left (at_spin t') (bridge t') < spin_left (at_spin t) (bridge t)
    | _ \<Rightarrow> spin_left (at_spin t') (bridge t') = spin_left (at_spin t) (bridge t)"
    using assms(2)
  proof (cases rule: thread_step.cases)
    case (spin_access pc b)
    then show ?thesis using spin_micro_progress [OF spin_access(4)] inv by (auto simp: all_ok_def)
  next
    case (inbound_access d pc b)
    then show ?thesis using spin_left_rely [OF inbound_micro_rely] by simp
  next
    case (outbound_access pc b)
    then show ?thesis using spin_left_rely [OF outbound_micro_rely] by simp
  next
    case (user_call c r b)
    then show ?thesis using spin_left_rely [OF api_step_rely] by simp
  next
    case (action_ends i b)
    then have "rely (bridge t) b" using finish_rely [of "bridge t" i] by simp
    then show ?thesis using action_ends spin_left_rely by simp
  qed simp
  show "spin_left (at_spin t) (bridge t) = 0 \<longleftrightarrow> at_spin t = SpinDone" by (cases "at_spin t") simp_all
qed

theorem spin_terminates_witness:
  "\<exists>tr t t'. thread_run sample_pheromones (\<lambda>n. 7) tr t \<and> isTCPClientConnected (bridge t) \<and>
    thread_step sample_pheromones (\<lambda>n. 7) t (SpinCalls sample_env) [] t' \<and>
    spin_left (at_spin t') (bridge t') = 13 + 2 * length (m_inboundRequestsQueue (bridge t))"
proof -
  obtain tr t where t: "thread_run sample_pheromones (\<lambda>n. 7) tr t" "isTCPClientConnected (bridge t)"
    "at_spin t = SpinDone" using sample_connected by blast
  note s = spin_calls [OF t(3), of sample_pheromones "\<lambda>n. 7" sample_env]
  from spin_terminates [OF t(1) s]
  have "spin_left (at_spin (t\<lparr>at_spin := SpinCall sample_env\<rparr>)) (bridge (t\<lparr>at_spin := SpinCall sample_env\<rparr>)) =
      13 + 2 * length (m_inboundRequestsQueue (bridge t))" by simp
  with t s show ?thesis by blast
qed


subsection \<open>Joins end\<close>

text \<open>The inbound thread makes \<open>n\<close> accesses; \<open>d\<close> is what it would read.\<close>

fun inbound_run ::
  "nat \<Rightarrow> stream_read \<Rightarrow> inbound_pc \<Rightarrow> HiveMindBridgeImpl \<Rightarrow>
    (inbound_pc \<times> HiveMindBridgeImpl \<times> event list) result" where
  "inbound_run 0 d pc b = Inr (pc, b, [])"
| "inbound_run (Suc n) d pc b =
     rbind (inbound_micro d pc b) (\<lambda>(pc, b, es).
       rbind (inbound_run n d pc b) (\<lambda>(pc, b, es'). Inr (pc, b, es @ es')))"

lemma outbound_ends:
  assumes inv: "all_ok t" and con: "\<not> isTCPClientConnected (bridge t)"
    and fresh: "\<not> stale_erase (at_outbound t) (m_inboundResponsesMap (bridge t))"
  shows "\<exists>b es. outbound_run 7 (at_outbound t) (bridge t) = Inr (Returned, b, es) \<and>
      m_outboundThread b \<noteq> RunningThread \<and> length (serialized es) \<le> 1"
proof -
  obtain g where g: "interleaved_inv (at_outbound t) (bridge t) g"
    using inv by (auto simp: all_ok_def threads_ok_def)
  have "accesses_left (at_outbound t) \<le> 7" by (cases "at_outbound t") simp_all
  from run_to_end [OF g con this fresh] show ?thesis by (auto split: if_splits)
qed

lemma stale_run:
  "stale_erase pc (m_inboundResponsesMap b) \<Longrightarrow> outbound_run 7 pc b = Inl DanglingIterator"
  by (cases pc) (simp_all add: eval_nat_numeral)

text \<open>
  C18. A spin that waits in a join is never stuck: the connection is gone for good until the join is
  over, the inbound thread is not in a read, so it returns after at most two accesses without reading
  from the connection and the outbound thread after at most seven, of which one at most sends a
  message. Neither needs an access of the spin or of the other thread. The one case in which the
  outbound thread does not return is the undefined erase through an invalidated iterator.
\<close>

theorem joins_end:
  assumes "thread_run ph rnd tr t" "at_spin t = SJoinInbound env \<or> at_spin t = SJoinOutbound env"
  shows "\<not> isTCPClientConnected (bridge t) \<and> at_inbound t \<noteq> RRead \<and>
    (\<exists>b. inbound_run 2 d (at_inbound t) (bridge t) = Inr (RReturned, b, []) \<and>
      m_inboundThread b \<noteq> RunningThread) \<and>
    (if \<exists>it. at_outbound t = AtErase it \<and> \<not> dom (m_inboundResponsesMap (bridge t)) \<subseteq> it_keys it
     then outbound_run 7 (at_outbound t) (bridge t) = Inl DanglingIterator
     else \<exists>b es. outbound_run 7 (at_outbound t) (bridge t) = Inr (Returned, b, es) \<and>
      m_outboundThread b \<noteq> RunningThread \<and> length (serialized es) \<le> 1)"
proof -
  have inv: "all_ok t" by (rule thread_run_ok [OF assms(1)])
  then have con: "\<not> isTCPClientConnected (bridge t)" using assms(2) by (auto simp: all_ok_def)
  then have read: "at_inbound t \<noteq> RRead" using inv by (auto simp: all_ok_def threads_ok_def)
  have run: "m_inboundThread (bridge t) = RunningThread \<longleftrightarrow> at_inbound t \<noteq> RReturned"
    using inv by (simp add: all_ok_def threads_ok_def)
  have inbound: "\<exists>b. inbound_run 2 d (at_inbound t) (bridge t) = Inr (RReturned, b, []) \<and>
      m_inboundThread b \<noteq> RunningThread"
    using con read run
    by (cases "at_inbound t") (simp_all add: numeral_2_eq_2 isTCPClientConnected_def)
  have "if stale_erase (at_outbound t) (m_inboundResponsesMap (bridge t))
      then outbound_run 7 (at_outbound t) (bridge t) = Inl DanglingIterator
      else \<exists>b es. outbound_run 7 (at_outbound t) (bridge t) = Inr (Returned, b, es) \<and>
      m_outboundThread b \<noteq> RunningThread \<and> length (serialized es) \<le> 1"
    using outbound_ends [OF inv con] stale_run by simp
  with con read inbound show ?thesis
    unfolding stale_erase_iff [OF thread_run_erase [OF assms(1)]] by blast
qed

text \<open>A spin waits for both threads: the client has gone, which the inbound thread has noticed in a read.\<close>

lemma sample_waiting:
  "\<exists>tr t. thread_run sample_pheromones (\<lambda>n. 7) tr t \<and> at_spin t = SJoinInbound sample_env \<and>
    m_inboundThread (bridge t) = RunningThread \<and> at_inbound t = RLoop \<and> at_outbound t = AtLoop"
proof -
  let ?ph = sample_pheromones and ?rnd = "\<lambda>n. 7"
  let ?d = "\<lparr>recv_results = [(0, 1)], read_ok = False, read_message = createGreetMessage\<rparr>"
  obtain tr t where t: "thread_run ?ph ?rnd tr t" "at_spin t = SpinDone" "at_inbound t = RLoop"
    "at_outbound t = AtLoop" "isTCPClientConnected (bridge t)" "m_inboundThread (bridge t) = RunningThread"
    "has_client_fd (bridge t)" using sample_connected by blast
  have wf: "read_wf ?d" by (simp add: read_wf_def createGreetMessage_def message_wf_def)
  obtain s es where "deserializeFromStream ?d (bridge t) =
      Inr (False, createGreetMessage, (bridge t)\<lparr>m_tcpServer := s\<rparr>, es)" "\<not> m_isClientConnected s"
    using deserialize_run [of "bridge t" ?d] t(7) by (auto simp: has_client_fd_def stays_connected_def)
  then have reads: "inbound_micro ?d RRead (bridge t) = Inr (RLoop, (bridge t)\<lparr>m_tcpServer := s\<rparr>, es)"
    and gone: "\<not> isTCPClientConnected ((bridge t)\<lparr>m_tcpServer := s\<rparr>)"
    by (simp_all add: isTCPClientConnected_def tcp_isClientConnected_def)
  let ?b = "(bridge t)\<lparr>m_tcpServer := s\<rparr>"
  let ?t1 = "t\<lparr>at_inbound := RRead\<rparr>" and ?t2 = "t\<lparr>bridge := ?b, at_inbound := RLoop\<rparr>"
  have "thread_step ?ph ?rnd t (InboundAccess ?d) [] ?t1"
    using inbound_access [OF t(6) wf, of RRead "bridge t" "[]" ?ph ?rnd] t(3,5) by simp
  note r1 = run_accesses [OF t(1) this]
  have "thread_step ?ph ?rnd ?t1 (InboundAccess ?d) es ?t2"
    using inbound_access [of ?t1 ?d RLoop ?b es ?ph ?rnd] t(6) wf reads by simp
  note r2 = run_accesses [OF r1 this]
  have "at_spin ?t2 = SpinDone" using t(2) by simp
  note r3 = run_accesses [OF r2 spin_calls [OF this, of ?ph ?rnd sample_env]]
  let ?t3 = "?t2\<lparr>at_spin := SpinCall sample_env\<rparr>"
  have "thread_step ?ph ?rnd ?t3 SpinAccess [] (?t3\<lparr>at_spin := SJoinInbound sample_env\<rparr>)"
    using spin_access [of ?t3 ?ph ?rnd "SJoinInbound sample_env" ?b "[]"] gone
    by (cases t) simp
  from run_accesses [OF r3 this] t(3,4,6) show ?thesis
    by (intro exI conjI) (assumption | simp)+
qed

theorem joins_end_witness:
  "\<exists>tr t b b' es. thread_run sample_pheromones (\<lambda>n. 7) tr t \<and> at_spin t = SJoinInbound sample_env \<and>
    m_inboundThread (bridge t) = RunningThread \<and>
    inbound_run 2 (greet_read sample_env) (at_inbound t) (bridge t) = Inr (RReturned, b, []) \<and>
    outbound_run 7 (at_outbound t) (bridge t) = Inr (Returned, b', es)"
proof -
  obtain tr t where t: "thread_run sample_pheromones (\<lambda>n. 7) tr t" "at_spin t = SJoinInbound sample_env"
    "m_inboundThread (bridge t) = RunningThread" "at_outbound t = AtLoop" using sample_waiting by blast
  from joins_end [OF t(1) disjI1 [OF t(2)], of "greet_read sample_env"] t
  obtain b b' es where "inbound_run 2 (greet_read sample_env) (at_inbound t) (bridge t) = Inr (RReturned, b, [])"
    "outbound_run 7 (at_outbound t) (bridge t) = Inr (Returned, b', es)" by auto
  with t show ?thesis by blast
qed

end
