(* ===== verification/ThreadConservation.thy ===== *)
theory ThreadConservation
  imports Prelude Pheromones Handles UserCallRequestHandler MessageHandler HiveMindBridgeImpl OutboundQueue
    Spin HiveMindBridge BridgeSystem Inbound OutboundThread Executions CallResults SpinThread Concurrency
    ThreadRuns AtomicSteps "HOL-Library.Multiset" "HOL-Library.Sublist"
begin

section \<open>The conservation laws of the interleaved threads\<close>

text \<open>
  The laws of \<open>ThreadRuns\<close> put together: what holds of the messages read, the requests answered, the
  calls started and the messages queued in every interleaving of single accesses. Each law names what
  the threads have in hand between two accesses. The witnesses are the sample executions of
  \<open>Executions\<close> and \<open>CallResults\<close>, taken access by access.
\<close>

subsection \<open>Messages read\<close>

text \<open>
  C4. However the accesses of the threads interleave, every message the inbound thread reads from the
  connection is handled once and in the order it came (the one message that \<open>greet\<close> reads itself, the
  greeting, never enters the queue): those read are those a spin has taken, followed by those on
  the inbound queue, followed by the one the inbound thread is about to push. And every request for the
  host's actions is answered by exactly one response, in that order, to the agent and the module that
  asked, under the id of the request and of its kind: the questions read are those answered, then the
  one whose answer the spin has in hand, then those still queued. No thread sends any other response.
\<close>

theorem reads_answered_in_order:
  assumes "thread_run ph rnd tr t"
  shows "along read_in tr = along popped_in tr @ inbound (bridge t) @ pushing (at_inbound t) \<and>
    questions (along read_in tr) =
      map answer_of (filter is_response (along sent_in tr)) @ map answer_of (answering (at_spin t)) @
      questions (inbound (bridge t) @ pushing (at_inbound t))"
  using reading.along_run [OF assms] answered.along_run [OF assms] by (simp del: is_response.simps)

lemma idle_pushing: "idle_threads t \<Longrightarrow> pushing (at_inbound t) = []"
  by (auto simp: idle_threads_def)

theorem reads_answered_in_order_witness:
  "\<exists>tr t. thread_run sample_pheromones (\<lambda>n. 7) tr t \<and> along popped_in tr = [sample_question] \<and>
    map answer_of (filter is_response (along sent_in tr)) = [question_of sample_question]"
proof -
  obtain tr0 b where "bridge_run sample_pheromones (\<lambda>n. 7) tr0 b" "inbound b = []"
    "arrivals tr0 = [sample_question]" using sample_answer_run by blast
  with execution_interleaved [OF this(1)] obtain tr t
    where t: "thread_run sample_pheromones (\<lambda>n. 7) tr t" "inbound (bridge t) = []" "at_spin t = SpinDone"
      "idle_threads t" "along read_in tr = [sample_question]" by metis
  with reads_answered_in_order [OF t(1)] show ?thesis
    by (intro exI [of _ tr] exI [of _ t])
       (simp add: idle_pushing sample_questions del: is_response.simps)
qed


subsection \<open>Calls\<close>

text \<open>
  C5. However the accesses of the threads interleave, the calls are started by requests among the
  messages taken, in their order and each by one, and a running call runs the action with the
  arguments asked for. Every started call has been returned once, or is tracked by exactly one
  handle, on the spin's queue or in its hands, never both; also while the spin's loop erases handles
  in place and actions finish under it. Only finished calls are returned, and the requests with which
  spins return them are exactly the payloads of their actions, from the agent called to the agent and
  the module that called; a call without a payload, or with too many arguments, is returned by sending
  nothing.
\<close>

theorem interleaved_calls_returned_once:
  assumes "thread_run ph rnd tr t"
  shows "subseq (along started_in tr) (along popped_in tr @ handling (at_spin t) (bridge t)) \<and>
    list_all2 runs_request (along started_in tr) (m_calls (user_calls (bridge t))) \<and>
    mset (along returned_in tr @ call_numbers (spin_handles (at_spin t) (bridge t))) =
      mset [0 ..< length (m_calls (user_calls (bridge t)))] \<and>
    (\<forall>i \<in> set (along returned_in tr). is_ready (user_calls (bridge t)) i) \<and>
    map return_of (along return_sends_in tr) =
      due_returns ph (along started_in tr) (m_calls (user_calls (bridge t))) (along returned_in tr)"
  using handled.along_run [OF assms] ledgers.along_run [OF assms]
  by (simp add: call_ledger_def is_ready_eq)

lemma subseq_single: "subseq ms [m] \<Longrightarrow> length ms = 1 \<Longrightarrow> ms = [m]"
  by (cases ms) (auto split: if_splits)

theorem interleaved_calls_returned_once_witness:
  "\<exists>tr t. thread_run sample_pheromones (\<lambda>n. 7) tr t \<and> along started_in tr = [sample_call_request] \<and>
    along returned_in tr = [0] \<and> map return_of (along return_sends_in tr) = [Some sample_return]"
proof -
  let ?r = "Ready (Some \<lparr>m_args = [3, 5], m_returnFunctionName = ''back''\<rparr>)"
  obtain tr0 b where "bridge_run sample_pheromones (\<lambda>n. 7) tr0 b" "arrivals tr0 = [sample_call_request]"
    "inbound b = []" "m_calls (user_calls b) = [?r]" "m_inboundRequestsQueue b = []"
    using sample_return_run by blast
  with execution_interleaved [OF this(1)] obtain tr t
    where t: "thread_run sample_pheromones (\<lambda>n. 7) tr t" "at_spin t = SpinDone" "idle_threads t"
      "along read_in tr = [sample_call_request]" "inbound (bridge t) = []"
      "m_calls (user_calls (bridge t)) = [?r]" "m_inboundRequestsQueue (bridge t) = []" by metis
  note law = interleaved_calls_returned_once [OF t(1)]
  have "along popped_in tr = [sample_call_request]"
    using reading.along_run [OF t(1)] t(4,5) by (simp add: idle_pushing [OF t(3)])
  then have "subseq (along started_in tr) [sample_call_request]" using law t(2) by simp
  moreover have "length (along started_in tr) = 1" using law t(6) by (auto dest: list_all2_lengthD)
  ultimately have s: "along started_in tr = [sample_call_request]" by (rule subseq_single)
  have "mset (along returned_in tr) = {#0#}" using law t(2,6,7) by (simp add: spin_handles_def)
  then have r: "along returned_in tr = [0]" by simp
  with law s t(6) have "map return_of (along return_sends_in tr) = [Some sample_return]"
    by (simp add: due_returns_def sample_due)
  with t(1) s r show ?thesis by (intro exI conjI)
qed


subsection \<open>Messages sent\<close>

text \<open>
  C6. However the accesses of the threads interleave, no message queued for sending is lost or sent
  twice: those queued so far are those the outbound thread has sent, once each, those that wait, on
  the queue or in the thread's hands, and those given up unsent because their response was known or
  because they are neither requests nor greetings. And all that was ever written to the stream is
  what the outbound thread sent, the answers to requests, the returns of calls and the greetings of
  new clients; nothing else is sent and each of these once.
\<close>

theorem interleaved_messages_conserved:
  assumes "thread_run ph rnd tr t"
  shows "total (queued_in ph rnd) tr =
      total sent_out_in tr + total discarded_in tr + waiting (held (at_outbound t) @ outbound (bridge t)) \<and>
    mset (along sent_in tr) = mset (along answered_in tr) + mset (along return_sends_in tr) +
      mset (along greeted_in tr) + total sent_out_in tr"
  using sender.along_run [OF assms] stream.along_run [OF assms] by (simp add: interleaved_inv_def)

theorem interleaved_messages_conserved_witness:
  "\<exists>tr t. thread_run sample_pheromones (\<lambda>n. 7) tr t \<and>
    sample_request \<in># total (queued_in sample_pheromones (\<lambda>n. 7)) tr \<and>
    mset (along sent_in tr) = {#createGreetMessage#}"
proof -
  let ?ph = sample_pheromones and ?rnd = "\<lambda>n. 7"
  let ?b0 = "fst (new_HiveMindBridge 5000 0 3 0 0)"
  have "initial_bridge ?b0" unfolding initial_bridge_def by blast
  then have "bridge_run ?ph ?rnd [] ?b0" by (rule run_new)
  then obtain b1 es1 where r1: "bridge_run ?ph ?rnd [(?b0, SpinAction sample_env, es1)] b1"
    and b1: "isTCPClientConnected b1" "serialized es1 = [createGreetMessage]"
    using sample_connect [of ?ph ?rnd "[]" ?b0] by auto
  let ?b2 = "snd (queueAndSend sample_request b1)"
  have "bridge_step ?ph ?rnd b1 (ApiAction (QueueAndSendCall sample_request)) [] ?b2"
    by (simp add: bridge_step_simps case_prod_unfold Let_def)
  from run_step [OF r1 this] obtain tr0 where r2: "bridge_run ?ph ?rnd tr0 ?b2"
    and em: "emissions tr0 = [createGreetMessage]" using b1(2) by (auto simp: emissions_def)
  have "outbound ?b2 = outbound b1 @ [mk_OutboundRequestHandle sample_request]" using b1(1) by simp
  with execution_interleaved [OF r2] obtain tr t where t: "thread_run ?ph ?rnd tr t"
    "outbound (bridge t) = outbound b1 @ [mk_OutboundRequestHandle sample_request]"
    "along sent_in tr = [createGreetMessage]" using em by metis
  from interleaved_messages_conserved [OF t(1)] t(2)
  have "sample_request \<in># total (queued_in ?ph ?rnd) tr" by (simp add: mk_OutboundRequestHandle_def)
  moreover have "mset (along sent_in tr) = {#createGreetMessage#}" using t(3) by simp
  ultimately show ?thesis using t(1) by (intro exI conjI)
qed

end
