(* ===== verification/Interfaces.thy ===== *)
theory Interfaces
  imports Prelude Pheromones ThreadSafeQueue Handles UserCallRequestHandler HostApiRequestHandler
    HostApiResponseHandler MessageHandler
begin

section \<open>The interfaces of the handlers and of the queue\<close>

text \<open>
  Each abstract class as the datatype of its calls, with a step that makes a call on the class that
  implements it. The locale \<open>component\<close> is what it takes for one of several handlers to see exactly
  its own calls; it is interpreted on the three handlers behind the dispatcher, which so do not
  influence each other. The queue answers every sequence of calls as a list does.
\<close>

subsection \<open>Sequences of calls\<close>

fun run_calls :: "('c \<Rightarrow> 's \<Rightarrow> ('r \<times> 's \<times> event list) result) \<Rightarrow> 'c list \<Rightarrow> 's \<Rightarrow>
    ('r list \<times> 's \<times> event list) result" where
  "run_calls step [] s = Inr ([], s, [])"
| "run_calls step (c # cs) s =
     rbind (step c s) (\<lambda>(r, s, es).
       rbind (run_calls step cs s) (\<lambda>(rs, s, es'). Inr (r # rs, s, es @ es')))"

lemma run_calls_append:
  "run_calls step (cs @ cs') s =
     rbind (run_calls step cs s) (\<lambda>(rs, s, es).
       rbind (run_calls step cs' s) (\<lambda>(rs', s, es'). Inr (rs @ rs', s, es @ es')))"
proof (induction cs arbitrary: s)
  case Nil
  then show ?case by (cases "run_calls step cs' s") auto
qed (simp add: rbind_assoc case_prod_unfold)

lemma run_one_call: "run_calls step [c] s = rbind (step c s) (\<lambda>(r, s, es). Inr ([r], s, es))"
  by (simp add: case_prod_unfold)


subsection \<open>The calls\<close>

text \<open>\<open>IMessageHandler\<close>\<close>

datatype message_handler_call = HandleMessage MessageDTO | HandleGreet MessageDTO

datatype message_handler_result = Handled handled | AgentId "u32 option"

fun message_handler_step :: "pheromones \<Rightarrow> message_handler_call \<Rightarrow> MessageHandler \<Rightarrow>
    (message_handler_result \<times> MessageHandler \<times> event list) result" where
  "message_handler_step ph (HandleMessage message) s =
     rbind (MessageHandler_handleMessage ph message s) (\<lambda>(r, s, es). Inr (Handled r, s, es))"
| "message_handler_step ph (HandleGreet greetMessage) s = Inr (AgentId (handleGreet greetMessage), s, [])"

text \<open>\<open>IUserCallRequestHandler\<close>\<close>

datatype user_call_handler_call = HandleUserCall MessageDTO UserCallRequestDTO

fun user_call_handler_step :: "pheromones \<Rightarrow> user_call_handler_call \<Rightarrow> UserCallRequestHandler \<Rightarrow>
    (handled \<times> UserCallRequestHandler \<times> event list) result" where
  "user_call_handler_step ph (HandleUserCall message ucRequest) s =
     UserCallRequestHandler_handleMessage ph message ucRequest s"

text \<open>\<open>IHiveMindHostRequestHandler\<close>; \<open>handleMessage\<close> returns nothing, the setter whether it replaced.\<close>

datatype request_handler_call = HandleHostRequest MessageDTO host_api_request | OnBytesReceived "hook option"

fun request_handler_step :: "request_handler_call \<Rightarrow> HiveMindHostApiRequestHandler \<Rightarrow>
    (bool option \<times> HiveMindHostApiRequestHandler \<times> event list) result" where
  "request_handler_step (HandleHostRequest message hmRequest) s =
     rbind (HostApiRequestHandler_handleMessage message hmRequest s) (\<lambda>(s, es). Inr (None, s, es))"
| "request_handler_step (OnBytesReceived callback) s =
     (let (retVal, s) = onBytesReceived callback s in Inr (Some retVal, s, []))"

text \<open>\<open>IHiveMindHostApiResponseHandler\<close>\<close>

datatype response_handler_call =
    HandleHostResponse MessageDTO host_api_response
  | OnNeighborListUpdated "hook option"
  | OnNeighborUpdated "hook option"

fun response_handler_step :: "response_handler_call \<Rightarrow> HiveMindHostApiResponseHandler \<Rightarrow>
    (bool option \<times> HiveMindHostApiResponseHandler \<times> event list) result" where
  "response_handler_step (HandleHostResponse message hmResponse) s =
     Inr (None, s, HostApiResponseHandler_handleMessage message hmResponse s)"
| "response_handler_step (OnNeighborListUpdated callback) s =
     (let (retVal, s) = onNeighborListUpdated callback s in Inr (Some retVal, s, []))"
| "response_handler_step (OnNeighborUpdated callback) s =
     (let (retVal, s) = onNeighborUpdated callback s in Inr (Some retVal, s, []))"


subsection \<open>One handler among several\<close>

text \<open>
  \<open>calls c\<close> are the calls that \<open>c\<close> makes to the part; \<open>out\<close> and \<open>shown\<close> are the results and the events
  by which the part is seen from outside.
\<close>

locale component =
  fixes whole :: "'c \<Rightarrow> 's \<Rightarrow> ('r \<times> 's \<times> event list) result"
    and part :: "'d \<Rightarrow> 'p \<Rightarrow> ('q \<times> 'p \<times> event list) result"
    and the_part :: "'s \<Rightarrow> 'p"
    and calls :: "'c \<Rightarrow> 'd list"
    and out :: "'r \<Rightarrow> 'o list"
    and part_out :: "'q \<Rightarrow> 'o list"
    and shown :: "event \<Rightarrow> bool"
  assumes makes: "whole c s = Inr (r, s', es) \<Longrightarrow>
    \<exists>qs es'. run_calls part (calls c) (the_part s) = Inr (qs, the_part s', es') \<and>
      out r = concat (map part_out qs) \<and> filter shown es = filter shown es'"
begin

lemma projection:
  "run_calls whole cs s = Inr (rs, s', es) \<Longrightarrow>
   \<exists>qs es'. run_calls part (concat (map calls cs)) (the_part s) = Inr (qs, the_part s', es') \<and>
     concat (map out rs) = concat (map part_out qs) \<and> filter shown es = filter shown es'"
proof (induction cs arbitrary: s rs es)
  case Nil
  then show ?case by simp
next
  case (Cons c cs)
  then obtain r s1 es1 rs2 es2 where c: "whole c s = Inr (r, s1, es1)"
    and cs: "run_calls whole cs s1 = Inr (rs2, s', es2)" and eq: "rs = r # rs2" "es = es1 @ es2"
    by (auto simp: rbind_eq_Inr)
  obtain qs1 es1' where p1: "run_calls part (calls c) (the_part s) = Inr (qs1, the_part s1, es1')"
    "out r = concat (map part_out qs1)" "filter shown es1 = filter shown es1'"
    using makes [OF c] by blast
  obtain qs2 es2' where p2: "run_calls part (concat (map calls cs)) (the_part s1) = Inr (qs2, the_part s', es2')"
    "concat (map out rs2) = concat (map part_out qs2)" "filter shown es2 = filter shown es2'"
    using Cons.IH [OF cs] by blast
  from p1 p2 show ?case by (simp add: run_calls_append eq)
qed

end

text \<open>The calls the dispatcher makes for one of its own.\<close>

fun user_calls_of :: "message_handler_call \<Rightarrow> user_call_handler_call list" where
  "user_calls_of (HandleMessage message) =
     (case getMessage message of
        Request req \<Rightarrow> (case getRequest req of UserCallRequest uc \<Rightarrow> [HandleUserCall message uc] | _ \<Rightarrow> [])
      | _ \<Rightarrow> [])"
| "user_calls_of (HandleGreet message) = []"

fun host_requests_of :: "message_handler_call \<Rightarrow> request_handler_call list" where
  "host_requests_of (HandleMessage message) =
     (case getMessage message of
        Request req \<Rightarrow> (case getRequest req of HostApiRequest r \<Rightarrow> [HandleHostRequest message r] | _ \<Rightarrow> [])
      | _ \<Rightarrow> [])"
| "host_requests_of (HandleGreet message) = []"

fun host_responses_of :: "message_handler_call \<Rightarrow> response_handler_call list" where
  "host_responses_of (HandleMessage message) =
     (case getMessage message of
        Response resp \<Rightarrow> (case getResponse resp of HostApiResponse r \<Rightarrow> [HandleHostResponse message r] | _ \<Rightarrow> [])
      | _ \<Rightarrow> [])"
| "host_responses_of (HandleGreet message) = []"

text \<open>The request handles the user calls leave, and the events of the two host handlers.\<close>

fun kept_request :: "handled \<Rightarrow> InboundRequestHandle list" where
  "kept_request (HandledRequest h) = [h]"
| "kept_request _ = []"

fun kept_of :: "message_handler_result \<Rightarrow> InboundRequestHandle list" where
  "kept_of (Handled r) = kept_request r"
| "kept_of (AgentId i) = []"

fun is_delivery :: "event \<Rightarrow> bool" where
  "is_delivery (BytesReceived h bs n) = True"
| "is_delivery _ = False"

fun is_neighbor_update :: "event \<Rightarrow> bool" where
  "is_neighbor_update (NeighborListUpdated h ns n) = True"
| "is_neighbor_update (NeighborUpdated h n p) = True"
| "is_neighbor_update _ = False"


subsection \<open>The dispatcher keeps its handlers apart\<close>

lemma user_call_events:
  assumes "UserCallRequestHandler_handleMessage ph msg uc s = Inr (r, s', es)"
  shows "filter is_delivery es = []" "filter is_neighbor_update es = []"
  using assms
  by (auto simp: UserCallRequestHandler_handleMessage_def Let_def rbind_eq_Inr handleFunctionCallRequest_def
      handleFunctionDescriptionRequest_def
      split: message_body.splits user_call_request.splits option.splits prod.splits)

lemma host_request_events:
  assumes "HostApiRequestHandler_handleMessage msg r s = Inr (s', es)"
  shows "filter is_neighbor_update es = []"
  using assms
  by (auto simp: HostApiRequestHandler_handleMessage_def handleBytes_def Let_def rbind_eq_Inr
      split: host_api_request.splits option.splits if_splits)

lemma host_response_events: "filter is_delivery (HostApiResponseHandler_handleMessage msg r s) = []"
  by (auto simp: HostApiResponseHandler_handleMessage_def handleNeighborList_def handleNeighbor_def Let_def
      split: host_api_response.split option.split)

lemma message_handler_step_cases:
  assumes "message_handler_step ph c s = Inr (r, s', es)"
  obtains (greet) m where "c = HandleGreet m" "r = AgentId (handleGreet m)" "s' = s" "es = []"
  | (user) m req uc h u where "c = HandleMessage m" "getMessage m = Request req" "getRequest req = UserCallRequest uc"
      "UserCallRequestHandler_handleMessage ph m uc (m_userCallRequestHandler s) = Inr (h, u, es)"
      "r = Handled h" "s' = s\<lparr>m_userCallRequestHandler := u\<rparr>"
  | (request) m req hr q where "c = HandleMessage m" "getMessage m = Request req" "getRequest req = HostApiRequest hr"
      "HostApiRequestHandler_handleMessage m hr (m_hmRequestHandler s) = Inr (q, es)"
      "r = Handled NoHandle" "s' = s\<lparr>m_hmRequestHandler := q\<rparr>"
  | (response) m resp hr where "c = HandleMessage m" "getMessage m = Response resp" "getResponse resp = HostApiResponse hr"
      "es = HostApiResponseHandler_handleMessage m hr (m_hmResponseHandler s)" "r = Handled NoHandle" "s' = s"
  | (other) m h where "c = HandleMessage m" "user_calls_of c = []" "host_requests_of c = []" "host_responses_of c = []"
      "r = Handled h" "kept_request h = []" "s' = s" "filter is_delivery es = []" "filter is_neighbor_update es = []"
proof (cases c)
  case (HandleGreet m)
  then show ?thesis using assms by (intro greet) auto
next
  case (HandleMessage m)
  then obtain h where h: "MessageHandler_handleMessage ph m s = Inr (h, s', es)" and r: "r = Handled h"
    using assms by (auto simp: rbind_eq_Inr)
  show ?thesis
  proof (cases "getMessage m")
    case (Request req)
    then show ?thesis
      using h r HandleMessage
      by (cases "getRequest req")
         (auto simp: MessageHandler_handleMessage_def rbind_eq_Inr unknown_message_def
           intro: user request other)
  next
    case (Response resp)
    then show ?thesis
      using h r HandleMessage
      by (cases "getResponse resp")
         (auto simp: MessageHandler_handleMessage_def unknown_message_def response_handle_def
           intro: response other split: user_call_response.splits)
  qed (use h r HandleMessage in \<open>auto simp: MessageHandler_handleMessage_def unknown_message_def intro: other\<close>)
qed

interpretation user_part: component "message_handler_step ph" "user_call_handler_step ph"
  m_userCallRequestHandler user_calls_of kept_of kept_request "\<lambda>e. False" for ph
proof (unfold_locales, goal_cases)
  case (1 c s r s' es)
  then show ?case by (cases rule: message_handler_step_cases) (auto simp: run_one_call)
qed

interpretation request_part: component "message_handler_step ph" request_handler_step
  m_hmRequestHandler host_requests_of "\<lambda>r. []" "\<lambda>r. []" is_delivery for ph
proof (unfold_locales, goal_cases)
  case (1 c s r s' es)
  then show ?case
    by (cases rule: message_handler_step_cases) (auto simp: run_one_call user_call_events host_response_events)
qed

interpretation response_part: component "message_handler_step ph" response_handler_step
  m_hmResponseHandler host_responses_of "\<lambda>r. []" "\<lambda>r. []" is_neighbor_update for ph
proof (unfold_locales, goal_cases)
  case (1 c s r s' es)
  then show ?case
    by (cases rule: message_handler_step_cases) (auto simp: run_one_call user_call_events host_request_events)
qed

lemma message_handler_step_fault:
  assumes "message_handler_step ph c s = Inl e"
  shows "run_calls (user_call_handler_step ph) (user_calls_of c) (m_userCallRequestHandler s) = Inl e \<or>
    run_calls request_handler_step (host_requests_of c) (m_hmRequestHandler s) = Inl e"
  using assms
  by (cases c)
     (auto simp: rbind_eq_Inl run_one_call MessageHandler_handleMessage_def Let_def
       split: message_body.splits request_body.splits response_body.splits user_call_response.splits)

lemma run_calls_fault: "run_calls step cs s = Inl e \<Longrightarrow> run_calls step (cs @ cs') s = Inl e"
  by (simp add: run_calls_append)

lemma dispatcher_fault:
  "run_calls (message_handler_step ph) cs s = Inl e \<Longrightarrow>
   run_calls (user_call_handler_step ph) (concat (map user_calls_of cs)) (m_userCallRequestHandler s) = Inl e \<or>
   run_calls request_handler_step (concat (map host_requests_of cs)) (m_hmRequestHandler s) = Inl e"
proof (induction cs arbitrary: s)
  case Nil
  then show ?case by simp
next
  case (Cons c cs)
  show ?case
  proof (cases "message_handler_step ph c s")
    case (Inl e')
    then have "e' = e" using Cons.prems by simp
    then show ?thesis
      using message_handler_step_fault [OF Inl] run_calls_fault
      by (metis concat.simps(2) list.simps(9))
  next
    case (Inr x)
    then obtain r s1 es where c: "message_handler_step ph c s = Inr (r, s1, es)" by (cases x) auto
    then have "run_calls (message_handler_step ph) cs s1 = Inl e" using Cons.prems by (auto simp: rbind_eq_Inl)
    then show ?thesis
      using Cons.IH [of s1] user_part.makes [OF c] request_part.makes [OF c]
      by (auto simp: run_calls_append)
  qed
qed

text \<open>
  C35. The dispatcher keeps the three handlers apart. For every sequence of messages and greetings it is
  given, each handler sees exactly the messages of its kind, in order, and ends as if it had been
  called with them alone; so what one handler is sent cannot change what another does. The request
  handles that come out are those of the user call handler, the payloads delivered those of the bytes
  handler and the neighbor updates those of the neighbor handler, in order. A fault of the dispatcher
  is a fault of one of the handlers by itself.
\<close>

theorem dispatcher_keeps_handlers_apart:
  "case run_calls (message_handler_step ph) cs s of
     Inl e \<Rightarrow>
       run_calls (user_call_handler_step ph) (concat (map user_calls_of cs)) (m_userCallRequestHandler s) = Inl e \<or>
       run_calls request_handler_step (concat (map host_requests_of cs)) (m_hmRequestHandler s) = Inl e
   | Inr (rs, s', es) \<Rightarrow>
       (\<exists>us eu. run_calls (user_call_handler_step ph) (concat (map user_calls_of cs)) (m_userCallRequestHandler s) =
           Inr (us, m_userCallRequestHandler s', eu) \<and>
         concat (map kept_of rs) = concat (map kept_request us)) \<and>
       (\<exists>qs eq. run_calls request_handler_step (concat (map host_requests_of cs)) (m_hmRequestHandler s) =
           Inr (qs, m_hmRequestHandler s', eq) \<and> filter is_delivery es = filter is_delivery eq) \<and>
       (\<exists>ps ep. run_calls response_handler_step (concat (map host_responses_of cs)) (m_hmResponseHandler s) =
           Inr (ps, m_hmResponseHandler s', ep) \<and>
         filter is_neighbor_update es = filter is_neighbor_update ep)"
proof (cases "run_calls (message_handler_step ph) cs s")
  case (Inl e)
  then show ?thesis using dispatcher_fault by fastforce
next
  case (Inr x)
  then obtain rs s' es where run: "run_calls (message_handler_step ph) cs s = Inr (rs, s', es)" by (cases x) auto
  from user_part.projection [OF run] request_part.projection [OF run] response_part.projection [OF run]
  show ?thesis unfolding run by simp blast
qed


subsection \<open>The queue\<close>

text \<open>\<open>IThreadSafeQueue\<close>\<close>

datatype 'a queue_call = Push 'a | Pop | Front | Back | Size | Empty

datatype 'a queue_result = Unit | Item 'a | Count nat | IsEmpty bool

fun queue_step :: "'a queue_call \<Rightarrow> 'a ThreadSafeQueue \<Rightarrow>
    ('a queue_result \<times> 'a ThreadSafeQueue \<times> event list) result" where
  "queue_step (Push item) q = Inr (Unit, push item q, [])"
| "queue_step Pop q = rbind (pop q) (\<lambda>q. Inr (Unit, q, []))"
| "queue_step Front q = rbind (front q) (\<lambda>x. Inr (Item x, q, []))"
| "queue_step Back q = rbind (queue_back q) (\<lambda>x. Inr (Item x, q, []))"
| "queue_step Size q = Inr (Count (queue_size q), q, [])"
| "queue_step Empty q = Inr (IsEmpty (empty q), q, [])"

fun pushed :: "'a queue_call list \<Rightarrow> 'a list" where
  "pushed [] = []"
| "pushed (Push x # cs) = x # pushed cs"
| "pushed (_ # cs) = pushed cs"

fun pops :: "'a queue_call list \<Rightarrow> nat" where
  "pops [] = 0"
| "pops (Pop # cs) = Suc (pops cs)"
| "pops (_ # cs) = pops cs"

text \<open>
  After any calls without a fault the queue holds what was in it and what was pushed, in order, less
  as many items from the front as were popped.
\<close>

lemma queue_is_fifo:
  "run_calls queue_step cs q = Inr (rs, q', es) \<Longrightarrow>
   m_queue q' = drop (pops cs) (m_queue q @ pushed cs) \<and> pops cs \<le> length (m_queue q @ pushed cs)"
proof (induction cs arbitrary: q rs es)
  case Nil
  then show ?case by simp
next
  case (Cons c cs)
  then obtain r q1 rs1 es1 where step: "queue_step c q = Inr (r, q1, [])"
    and run: "run_calls queue_step cs q1 = Inr (rs1, q', es1)"
    by (cases c) (auto simp: rbind_eq_Inr)
  show ?case
    using step Cons.IH [OF run] by (cases c; cases "m_queue q") (auto simp: rbind_eq_Inr pop_def simp del: drop_append)
qed

end
