(* ===== verification/UnlockedAccesses.thy ===== *)
theory UnlockedAccesses
  imports Prelude Pheromones ThreadSafeQueue Handles UserCallRequestHandler MessageHandler TCPServer
    HiveMindBridgeImpl OutboundQueue Spin HiveMindBridge BridgeSystem Inbound OutboundThread Executions
    CallResults SpinThread Concurrency ThreadRuns AtomicSteps RemoteCall
begin

section \<open>Where unlocked accesses meet\<close>

text \<open>
  The queues are locked for each call. The map of responses and the stream are not, although the
  thread that spins and the outbound thread both use them. The interleavings show that both threads
  can be about to use them at the same time: the next accesses of the two are then not ordered by
  anything in the program. They also show that a spin can store a response between the outbound
  thread's \<open>find\<close> and its \<open>erase\<close>.
\<close>

lemma outbound_goes_on:
  assumes "thread_run ph rnd tr t" "m_outboundThread (bridge t) = RunningThread"
    "outbound_micro (at_outbound t) (bridge t) = Inr (pc, b, es)"
  shows "\<exists>tr'. thread_run ph rnd tr' (t\<lparr>bridge := b, at_outbound := pc\<rparr>)"
  using run_accesses [OF assms(1) outbound_access [OF assms(2,3)]] by blast

lemma outbound_takes:
  assumes run: "thread_run ph rnd tr t" and pc: "at_outbound t = AtLoop"
    and b: "isTCPClientConnected (bridge t)" "m_outboundThread (bridge t) = RunningThread" "outbound (bridge t) = h # hs"
  shows "\<exists>tr' t'. thread_run ph rnd tr' t' \<and> at_spin t' = at_spin t \<and> at_outbound t' = AtSearch h \<and>
    m_inboundResponsesMap (bridge t') = m_inboundResponsesMap (bridge t) \<and>
    m_outboundThread (bridge t') = RunningThread"
proof -
  obtain tr1 where r1: "thread_run ph rnd tr1 (t\<lparr>at_outbound := AtEmpty\<rparr>)"
    using outbound_goes_on [OF run b(2), of AtEmpty "bridge t" "[]"] pc b(1) by auto
  then obtain tr2 where r2: "thread_run ph rnd tr2 (t\<lparr>at_outbound := AtFront\<rparr>)"
    using outbound_goes_on [OF r1, of AtFront "bridge t" "[]"] b by (auto simp: empty_iff)
  then obtain tr3 where r3: "thread_run ph rnd tr3 (t\<lparr>at_outbound := AtPop h\<rparr>)"
    using outbound_goes_on [OF r2, of "AtPop h" "bridge t" "[]"] b by (auto simp: front_def)
  let ?b = "(bridge t)\<lparr>m_outboundQueue := (m_outboundQueue (bridge t))\<lparr>m_queue := hs\<rparr>\<rparr>"
  obtain tr4 where "thread_run ph rnd tr4 (t\<lparr>bridge := ?b, at_outbound := AtSearch h\<rparr>)"
    using outbound_goes_on [OF r3, of "AtSearch h" ?b "[]"] b by (cases t) (auto simp: pop_def)
  then show ?thesis using b(2) by (intro exI conjI) (assumption | simp)+
qed

text \<open>
  A run in which a message arrives at a served bridge and a request is queued, the spin has handled the
  message and the outbound thread has taken the request from its queue.
\<close>

definition served_idle :: "HiveMindBridgeImpl \<Rightarrow> bool" where
  "served_idle b \<longleftrightarrow> isTCPClientConnected b \<and> m_inboundThread b = RunningThread \<and>
     m_outboundThread b = RunningThread \<and> inbound b = [] \<and> outbound b = []"

lemma handled_and_taken:
  assumes r1: "bridge_run sample_pheromones (\<lambda>n. 7) tr1 b1" and b1: "served_idle b1" and wf: "message_wf msg"
    and h: "\<And>s. MessageHandler_handleMessage sample_pheromones msg s = Inr (r s, mh s, es s)"
  shows "\<exists>tr t s. thread_run sample_pheromones (\<lambda>n. 7) tr t \<and> at_spin t = SStore (r s) \<and>
    at_outbound t = AtSearch (mk_OutboundRequestHandle sample_request) \<and>
    m_inboundResponsesMap (bridge t) = m_inboundResponsesMap b1 \<and> m_outboundThread (bridge t) = RunningThread"
proof -
  let ?ph = sample_pheromones and ?rnd = "\<lambda>n. 7" and ?h = "mk_OutboundRequestHandle sample_request"
  let ?b2 = "b1\<lparr>m_inboundQueue := push msg (m_inboundQueue b1)\<rparr>"
  let ?b3 = "snd (queueAndSend sample_request ?b2)"
  have c1: "isTCPClientConnected b1" "m_inboundThread b1 = RunningThread" "m_outboundThread b1 = RunningThread"
    "inbound b1 = []" "outbound b1 = []" using b1 by (simp_all add: served_idle_def)
  note r2 = sample_arrival [OF r1 c1(1,2) wf]
  have "bridge_step ?ph ?rnd ?b2 (ApiAction (QueueAndSendCall sample_request)) [] ?b3"
    by (simp add: bridge_step_simps case_prod_unfold Let_def)
  from execution_interleaved [OF run_step [OF r2 this]] obtain tr3 t3
    where t3: "thread_run ?ph ?rnd tr3 t3" "bridge t3 = ?b3" "at_spin t3 = SpinDone" "idle_threads t3"
    by blast
  let ?b4 = "?b3\<lparr>m_messageHandler := mh (m_messageHandler ?b3), m_inboundQueue := (m_inboundQueue ?b3)\<lparr>m_queue := []\<rparr>\<rparr>"
  let ?t4 = "t3\<lparr>at_spin := SpinCall sample_env\<rparr>"
  have con: "isTCPClientConnected ?b3" using c1(1) by (simp add: isTCPClientConnected_def)
  have q: "inbound ?b3 = [msg]" "outbound ?b3 = [?h]"
    using c1 by (simp_all add: isTCPClientConnected_def)
  have "spin_alone ?ph ?rnd 5 (SpinCall sample_env) ?b3 =
      Inr (SStore (r (m_messageHandler ?b3)), ?b4, es (m_messageHandler ?b3))"
    using con q by (simp add: numeral_eq_Suc empty_iff front_def pop_def h)
  with t3(2) have alone: "spin_alone ?ph ?rnd 5 (at_spin ?t4) (bridge ?t4) =
      Inr (SStore (r (m_messageHandler ?b3)), ?b4, es (m_messageHandler ?b3))" by simp
  have idle: "idle_threads ?t4" using t3(4) by (simp add: idle_threads_def)
  have free: "no_wait (at_spin ?t4) (bridge ?t4)" using t3(2) con by simp
  from spin_leads [OF alone free idle] obtain t5
    where "leads_to ?ph ?rnd ?t4 [] (serialized (es (m_messageHandler ?b3))) t5"
      and t5: "bridge t5 = ?b4" "at_spin t5 = SStore (r (m_messageHandler ?b3))" "idle_threads t5"
    by blast
  with run_accesses [OF t3(1) spin_calls [OF t3(3), of ?ph ?rnd sample_env]] obtain tr5
    where r5: "thread_run ?ph ?rnd tr5 t5" using leads_ok by blast
  have b4: "isTCPClientConnected ?b4" "outbound ?b4 = [?h]" "m_outboundThread ?b4 = RunningThread"
    "m_inboundResponsesMap ?b4 = m_inboundResponsesMap b1"
    using con q c1 by (simp_all add: isTCPClientConnected_def)
  have "threads_ok t5" using thread_run_ok [OF r5] by (simp add: all_ok_def)
  then have pc: "at_outbound t5 = AtLoop"
    using t5(1,3) b4(3) by (auto simp: threads_ok_def interleaved_inv_def idle_threads_def)
  from outbound_takes [OF r5 pc] t5 b4 show ?thesis by auto
qed

lemma sample_served:
  "\<exists>tr b. bridge_run sample_pheromones (\<lambda>n. 7) tr b \<and> served_idle b \<and>
    m_inboundResponsesMap b = Map.empty \<and> m_inboundRequestsQueue b = [] \<and> m_keepAliveNbSpin b = 0"
proof -
  let ?b0 = "fst (new_HiveMindBridge 5000 0 3 0 0)"
  have "initial_bridge ?b0" unfolding initial_bridge_def by blast
  then have "bridge_run sample_pheromones (\<lambda>n. 7) [] ?b0" by (rule run_new)
  from sample_connect [OF this] show ?thesis by (fastforce simp: served_idle_def)
qed

text \<open>The response to the request arrives before the request is sent: a stray or a repeated one.\<close>

definition sample_response :: "u32 \<Rightarrow> MessageDTO" where
  "sample_response i = \<lparr>getSourceId = 1, getDestinationId = 1,
     getMessage = Response \<lparr>getResponseRequestId = i,
       getResponse = GenericResponse \<lparr>getStatus = Ok, getDetails = []\<rparr>\<rparr>\<rparr>"

definition sample_remembered :: "u32 \<Rightarrow> InboundResponseHandle" where
  "sample_remembered i = \<lparr>m_responseId = i, m_responseStatus = Ok, m_statusDetails = []\<rparr>"

lemma sample_response_handled:
  "MessageHandler_handleMessage ph (sample_response i) s = Inr (HandledResponse (sample_remembered i), s, [])"
  "message_wf (sample_response i)"
  by (simp_all add: MessageHandler_handleMessage_def sample_response_def sample_remembered_def response_handle_def
      bridge_defs message_wf_def)

lemma same_entry_met:
  "\<exists>tr t h h'. thread_run sample_pheromones (\<lambda>n. 7) tr t \<and> at_spin t = SStore (HandledResponse h) \<and>
    at_outbound t = AtSearch h' \<and> m_responseId h \<in> set (request_ids h')"
proof -
  obtain tr0 b where b: "bridge_run sample_pheromones (\<lambda>n. 7) tr0 b" "served_idle b"
    using sample_served by blast
  obtain tr t where "thread_run sample_pheromones (\<lambda>n. 7) tr t"
    "at_spin t = SStore (HandledResponse (sample_remembered 9))"
    "at_outbound t = AtSearch (mk_OutboundRequestHandle sample_request)"
    using handled_and_taken [OF b sample_response_handled(2,1)] by blast
  moreover have "m_responseId (sample_remembered 9) \<in> set (request_ids (mk_OutboundRequestHandle sample_request))"
    by (simp add: request_ids_def mk_OutboundRequestHandle_def sample_request_def sample_remembered_def)
  ultimately show ?thesis by (intro exI conjI) (assumption | simp)+
qed

text \<open>
  A second response comes while the outbound thread is between \<open>find\<close> and \<open>erase\<close>: the response with
  id 9 is remembered, a spin is about to store one with id 8, and the thread, which holds the request
  with id 9, looks its response up before the spin stores and erases it after.
\<close>

lemma stale_erase_met:
  "\<exists>tr t. thread_run sample_pheromones (\<lambda>n. 7) tr t \<and> m_outboundThread (bridge t) = RunningThread \<and>
    outbound_micro (at_outbound t) (bridge t) = Inl DanglingIterator"
proof -
  let ?ph = sample_pheromones and ?rnd = "\<lambda>n. 7" and ?h = "mk_OutboundRequestHandle sample_request"
  obtain tr0 b where b: "bridge_run ?ph ?rnd tr0 b" "served_idle b" "m_inboundResponsesMap b = Map.empty"
    "m_inboundRequestsQueue b = []" "m_keepAliveNbSpin b = 0" using sample_served by blast
  then have c: "isTCPClientConnected b" "m_inboundThread b = RunningThread" "inbound b = []"
    by (simp_all add: served_idle_def)
  let ?b1 = "b\<lparr>m_inboundQueue := push (sample_response 9) (m_inboundQueue b)\<rparr>"
  let ?b2 = "spin_keepAlive (?b1\<lparr>m_inboundQueue := (m_inboundQueue ?b1)\<lparr>m_queue := []\<rparr>,
      m_inboundResponsesMap := (m_inboundResponsesMap ?b1)(9 \<mapsto> sample_remembered 9)\<rparr>)"
  note r1 = sample_arrival [OF b(1) c(1,2) sample_response_handled(2) [of 9]]
  have "spin ?ph ?rnd sample_env ?b1 = Inr (?b2, [])"
    using spin_response [of ?b1 "sample_response 9" ?ph "sample_remembered 9" ?rnd sample_env] b(4) c(1,3)
    by (simp add: sample_response_handled(1) isTCPClientConnected_def sample_remembered_def)
  from run_step [OF r1 spin_step [OF this]] obtain tr2 where r2: "bridge_run ?ph ?rnd tr2 ?b2" by blast
  have "served_idle ?b2"
    using b(2,5) by (simp add: served_idle_def spin_keepAlive_eq keepAlive_due_def isTCPClientConnected_def)
  from handled_and_taken [OF r2 this sample_response_handled(2) [of 8] sample_response_handled(1) [of _ 8]] obtain tr3 t3
    where t3: "thread_run ?ph ?rnd tr3 t3" "at_spin t3 = SStore (HandledResponse (sample_remembered 8))"
      "at_outbound t3 = AtSearch ?h" "m_inboundResponsesMap (bridge t3) = [9 \<mapsto> sample_remembered 9]"
      "m_outboundThread (bridge t3) = RunningThread"
    using b(3) by auto
  let ?it = "\<lparr>it_key = 9, it_keys = {9}\<rparr>"
  have "outbound_micro (at_outbound t3) (bridge t3) = Inr (AtErase ?it, bridge t3, [])"
    using t3(3,4) by (simp add: mk_OutboundRequestHandle_def sample_request_def bridge_defs)
  from outbound_goes_on [OF t3(1,5) this] obtain tr4 where
    r4: "thread_run ?ph ?rnd tr4 (t3\<lparr>at_outbound := AtErase ?it\<rparr>)" by auto
  let ?b5 = "(bridge t3)\<lparr>m_inboundResponsesMap := (m_inboundResponsesMap (bridge t3))(8 \<mapsto> sample_remembered 8)\<rparr>"
  let ?t5 = "t3\<lparr>bridge := ?b5, at_spin := SSweep 0, at_outbound := AtErase ?it\<rparr>"
  have "thread_step ?ph ?rnd (t3\<lparr>at_outbound := AtErase ?it\<rparr>) SpinAccess [] ?t5"
    using spin_access [of "t3\<lparr>at_outbound := AtErase ?it\<rparr>" ?ph ?rnd "SSweep 0" ?b5 "[]"] t3(2)
    by (cases t3) (simp add: sample_remembered_def bridge_defs)
  from run_accesses [OF r4 this] t3(4,5) show ?thesis
    by (intro exI conjI) (assumption | simp add: valid_iterator_def)+
qed

text \<open>
  C39. The threads can reach a state in which the spin is about to write an entry of the map of
  responses and the outbound thread to look up the same entry, with no lock between them: the accesses
  to the unordered map can overlap, which is a data race. Also without overlap the order matters: if the
  spin goes first the request is given up unsent, if the thread goes first it is sent. And they can
  reach a state in which the outbound thread is about to erase its response through an iterator that a
  response stored since has invalidated, which is undefined behaviour.
\<close>

theorem map_accesses_meet:
  "(\<exists>tr t h h'. thread_run sample_pheromones (\<lambda>n. 7) tr t \<and> at_spin t = SStore (HandledResponse h) \<and>
    at_outbound t = AtSearch h' \<and> m_responseId h \<in> set (request_ids h')) \<and>
   (\<exists>tr t. thread_run sample_pheromones (\<lambda>n. 7) tr t \<and> m_outboundThread (bridge t) = RunningThread \<and>
    outbound_micro (at_outbound t) (bridge t) = Inl DanglingIterator)"
  using same_entry_met stale_erase_met by blast

text \<open>The stream: the spin is about to send an answer and the outbound thread a request.\<close>

theorem stream_accesses_meet:
  "\<exists>tr t h h'. thread_run sample_pheromones (\<lambda>n. 7) tr t \<and> at_spin t = SStore (HandledRequest h) \<and>
    at_outbound t = AtSend h'"
proof -
  have "message_wf sample_question" by (simp add: sample_question_def query_message_def message_wf_def)
  moreover obtain f where f: "\<And>s. MessageHandler_handleMessage sample_pheromones sample_question s =
      Inr (HandledRequest (f s), s, [])"
    using handle_length_query [of sample_pheromones 1 2 3 BUZZ HOST] unfolding sample_question_def by metis
  moreover obtain tr0 b where b: "bridge_run sample_pheromones (\<lambda>n. 7) tr0 b" "served_idle b"
    "m_inboundResponsesMap b = Map.empty" using sample_served by blast
  ultimately obtain tr t s where t: "thread_run sample_pheromones (\<lambda>n. 7) tr t"
    "at_spin t = SStore (HandledRequest (f s))" "m_inboundResponsesMap (bridge t) = Map.empty"
    "at_outbound t = AtSearch (mk_OutboundRequestHandle sample_request)"
    "m_outboundThread (bridge t) = RunningThread"
    using handled_and_taken [OF b(1,2), of sample_question "\<lambda>s. HandledRequest (f s)" "\<lambda>s. s" "\<lambda>s. []"] by auto
  have "outbound_micro (at_outbound t) (bridge t) =
      Inr (AtSend (mk_OutboundRequestHandle sample_request), bridge t, [])"
    using t(3,4) by (simp add: mk_OutboundRequestHandle_def sample_request_def bridge_defs)
  from outbound_goes_on [OF t(1,5) this] t(2) show ?thesis by fastforce
qed

end
