(* ===== verification/Destruction.thy ===== *)
theory Destruction
  imports Prelude Pheromones ThreadSafeQueue Handles UserCallRequestHandler MessageHandler TCPServer
    HiveMindBridgeImpl OutboundQueue Spin HiveMindBridge BridgeSystem Inbound OutboundThread Executions
    CallResults SpinThread Concurrency ThreadRuns AtomicSteps ThreadSafety
begin

section \<open>Destroying a bridge\<close>

text \<open>
  The destructors, while the threads still run. \<open>~HiveMindBridgeImpl\<close> closes the client and joins the
  two threads; then the bridge's members go, where the handles of running actions make it wait for
  them, and with the members of \<open>HiveMindBridge\<close> the server, which closes the client again and its own
  descriptor. Between any two of these steps the inbound thread, the outbound thread and the actions
  make theirs: the inbound thread may be in a read, which the shutdown ends, and reacts to it. Nobody
  calls the interface of a bridge that is being destroyed.
\<close>

subsection \<open>The destructors\<close>

datatype destroy_pc =
    DClose            \<comment> \<open>\<open>m_tcpServer.close()\<close>\<close>
  | DJoinInbound      \<comment> \<open>\<open>if (m_inboundThread.joinable()) m_inboundThread.join()\<close>\<close>
  | DJoinOutbound     \<comment> \<open>the same for \<open>m_outboundThread\<close>\<close>
  | DRelease          \<comment> \<open>the handles of \<open>m_inboundRequestsQueue\<close>, with their futures\<close>
  | DServer           \<comment> \<open>\<open>~TCPServer\<close>\<close>
  | Destroyed

fun destroy_micro ::
  "destroy_pc \<Rightarrow> HiveMindBridgeImpl \<Rightarrow> (destroy_pc \<times> HiveMindBridgeImpl \<times> event list) result" where
  "destroy_micro DClose b =
     rbind (tcp_close (m_tcpServer b)) (\<lambda>(s, es). Inr (DJoinInbound, b\<lparr>m_tcpServer := s\<rparr>, es))"
| "destroy_micro DJoinInbound b =
     Inr (DJoinOutbound,
       if joinable (m_inboundThread b) then b\<lparr>m_inboundThread := join (m_inboundThread b)\<rparr> else b, [])"
| "destroy_micro DJoinOutbound b =
     Inr (DRelease,
       if joinable (m_outboundThread b) then b\<lparr>m_outboundThread := join (m_outboundThread b)\<rparr> else b, [])"
| "destroy_micro DRelease b = Inr (DServer, b\<lparr>m_inboundRequestsQueue := []\<rparr>, [])"
| "destroy_micro DServer b = rbind (tcp_destroy (m_tcpServer b)) (\<lambda>es. Inr (Destroyed, b, es))"
| "destroy_micro Destroyed b = Inr (Destroyed, b, [])"

text \<open>
  A join waits while its thread runs. The last future of a call started with \<open>std::async\<close> waits in its
  destructor until the call has ended.
\<close>

fun destroy_waits :: "destroy_pc \<Rightarrow> HiveMindBridgeImpl \<Rightarrow> bool" where
  "destroy_waits DJoinInbound b = (m_inboundThread b = RunningThread)"
| "destroy_waits DJoinOutbound b = (m_outboundThread b = RunningThread)"
| "destroy_waits DRelease b = (\<exists>h \<in> set (m_inboundRequestsQueue b). unfinished (user_calls b) h)"
| "destroy_waits _ b = False"

record destruction =
  during :: threads
  at_destroy :: destroy_pc

definition dying_bridge :: "destruction \<Rightarrow> HiveMindBridgeImpl" where
  "dying_bridge D = bridge (during D)"

text \<open>A step is one of the destructors or one of a thread, with the thread's action.\<close>

definition goes_on :: "thread_action \<Rightarrow> bool" where
  "goes_on a \<longleftrightarrow> (case a of InboundAccess d \<Rightarrow> True | OutboundAccess \<Rightarrow> True | ActionEnds i \<Rightarrow> True | _ \<Rightarrow> False)"

inductive destroy_step ::
  "pheromones \<Rightarrow> (nat \<Rightarrow> int) \<Rightarrow> destruction \<Rightarrow> thread_action option \<Rightarrow> event list \<Rightarrow> destruction \<Rightarrow> bool"
  for ph :: pheromones and rnd :: "nat \<Rightarrow> int"
where
  destroys: "\<not> destroy_waits (at_destroy D) (dying_bridge D) \<Longrightarrow>
    destroy_micro (at_destroy D) (dying_bridge D) = Inr (pc, b, es) \<Longrightarrow>
    destroy_step ph rnd D None es (D\<lparr>during := (during D)\<lparr>bridge := b\<rparr>, at_destroy := pc\<rparr>)"
| meanwhile: "thread_step ph rnd (during D) a es t \<Longrightarrow> goes_on a \<Longrightarrow>
    destroy_step ph rnd D (Some a) es (D\<lparr>during := t\<rparr>)"

type_synonym destroy_trace = "(destruction \<times> thread_action option \<times> event list) list"

text \<open>The destruction of a bridge that its threads have brought to some state between two spins.\<close>

inductive destroy_run :: "pheromones \<Rightarrow> (nat \<Rightarrow> int) \<Rightarrow> destroy_trace \<Rightarrow> destruction \<Rightarrow> bool"
  for ph :: pheromones and rnd :: "nat \<Rightarrow> int"
where
  destroy_begins: "thread_run ph rnd tr t \<Longrightarrow> at_spin t = SpinDone \<Longrightarrow>
    destroy_run ph rnd [] \<lparr>during = t, at_destroy = DClose\<rparr>"
| destroy_goes_on: "destroy_run ph rnd tr D \<Longrightarrow> destroy_step ph rnd D a es D' \<Longrightarrow>
    destroy_run ph rnd (tr @ [(D, a, es)]) D'"


subsection \<open>What the run does to the sockets\<close>

fun on_socket :: "event \<Rightarrow> bool" where
  "on_socket (ShutdownFd fd) = True"
| "on_socket (CloseFd fd) = True"
| "on_socket (DisconnectHook h) = True"
| "on_socket _ = False"

definition sockets :: "event list \<Rightarrow> event list" where
  "sockets es = filter on_socket es"

definition trace_events :: "destroy_trace \<Rightarrow> event list" where
  "trace_events tr = concat (map (\<lambda>(D, a, es). es) tr)"

text \<open>How many of the \<open>recv\<close> calls of a step returned 0.\<close>

fun zero_reads :: "destruction \<times> thread_action option \<times> event list \<Rightarrow> nat" where
  "zero_reads (D, Some (InboundAccess d), es) =
     (if at_inbound (during D) = RRead then length (filter (\<lambda>(r, n). r = 0) (recv_results d)) else 0)"
| "zero_reads _ = 0"

definition zero_results :: "destroy_trace \<Rightarrow> nat" where
  "zero_results tr = sum_list (map zero_reads tr)"

lemma sockets_simps [simp]:
  "sockets [] = []"
  "sockets (es @ es') = sockets es @ sockets es'"
  "sockets (e # es) = (if on_socket e then e # sockets es else sockets es)"
  by (simp_all add: sockets_def)

lemma destroy_trace_simps [simp]:
  "trace_events [] = []" "trace_events (tr @ [(D, a, es)]) = trace_events tr @ es"
  "zero_results [] = 0" "zero_results (tr @ [x]) = zero_results tr + zero_reads x"
  by (simp_all add: trace_events_def zero_results_def)

text \<open>One closing of the client, and what a read does for every \<open>recv\<close> that returns 0.\<close>

definition closing :: "int \<Rightarrow> event list" where
  "closing fd = [ShutdownFd fd, CloseFd fd]"

definition hang_up :: "hook option \<Rightarrow> int \<Rightarrow> event list" where
  "hang_up h fd = call_hook DisconnectHook h @ closing fd"

definition hang_ups :: "nat \<Rightarrow> hook option \<Rightarrow> int \<Rightarrow> event list" where
  "hang_ups z h fd = concat (replicate z (hang_up h fd))"

lemma hang_ups_simps [simp]:
  "hang_ups 0 h fd = []" "hang_ups (Suc z) h fd = hang_up h fd @ hang_ups z h fd"
  by (simp_all add: hang_ups_def)

lemma hang_ups_add: "hang_ups (z + z') h fd = hang_ups z h fd @ hang_ups z' h fd"
  by (simp add: hang_ups_def replicate_add)

lemma receive_calls_sockets:
  assumes "receive_calls rs s = Inr (s', es)" "m_clientFd s = Some fd"
  shows "sockets es = hang_ups (length (filter (\<lambda>(r, n). r = 0) rs)) (m_onDisonnect s) fd \<and>
    m_onDisonnect s' = m_onDisonnect s \<and> m_clientFd s' = Some fd \<and> m_serverFd s' = m_serverFd s"
  using assms
proof (induction rs arbitrary: s es)
  case Nil
  then show ?case by simp
next
  case (Cons c rs)
  obtain r n where c: "c = (r, n)" by fastforce
  obtain ret s1 es1 es2 where t: "tcp_receive r n s = Inr (ret, s1, es1)"
    and rs: "receive_calls rs s1 = Inr (s', es2)" and es: "es = es1 @ es2"
    using Cons.prems(1) by (auto simp: c rbind_eq_Inr)
  have hook: "sockets (call_hook DisconnectHook h) = call_hook DisconnectHook h" for h
    by (simp add: call_hook_def split: option.split)
  have "sockets es1 = (if r = 0 then hang_up (m_onDisonnect s) fd else []) \<and>
    m_onDisonnect s1 = m_onDisonnect s \<and> m_clientFd s1 = Some fd \<and> m_serverFd s1 = m_serverFd s"
    using t Cons.prems(2)
    by (auto simp: tcp_receive_def tcp_close_def Let_def hang_up_def closing_def hook split: if_splits)
  with Cons.IH [OF rs] show ?case by (auto simp: es c)
qed

text \<open>The other threads leave the sockets alone.\<close>

lemma outbound_no_socket: "outbound_micro pc b = Inr (pc', b', es) \<Longrightarrow> sockets es = []"
  by (cases pc) (auto simp: Let_def rbind_eq_Inr split: if_splits message_body.splits option.splits prod.splits)

lemma action_no_socket: "sockets (snd (finish_call i b)) = []"
  by (auto simp: finish_call_def run_call_def callbackWrapper_def Let_def
      split: call_state.split option.split callback_outcome.split prod.split)


subsection \<open>What holds during a destruction\<close>

text \<open>
  What the threads know, which does not depend on the connection any more, and which of them are gone.
\<close>

definition dying_ok :: "destruction \<Rightarrow> bool" where
  "dying_ok D \<longleftrightarrow>
     (m_inboundThread (dying_bridge D) = RunningThread \<longleftrightarrow> at_inbound (during D) \<noteq> RReturned) \<and>
     (m_inboundThread (dying_bridge D) \<noteq> NoThread \<longrightarrow> has_client_fd (dying_bridge D)) \<and>
     (\<exists>g. interleaved_inv (at_outbound (during D)) (dying_bridge D) g) \<and>
     (at_destroy D \<noteq> DClose \<longrightarrow> \<not> isTCPClientConnected (dying_bridge D)) \<and>
     (at_destroy D \<notin> {DClose, DJoinInbound} \<longrightarrow> m_inboundThread (dying_bridge D) = NoThread) \<and>
     (at_destroy D \<noteq> DClose \<longrightarrow> has_client_fd (dying_bridge D)) \<and>
     (\<forall>h \<in> set (m_inboundRequestsQueue (dying_bridge D)).
       handle_wf (length (m_calls (user_calls (dying_bridge D)))) h)"

text \<open>
  The accesses to the sockets so far, by where the destructors are, when \<open>z\<close> of the \<open>recv\<close> calls before
  the first closing and \<open>z'\<close> of those after it returned 0.
\<close>

definition socket_calls :: "hook option \<Rightarrow> int \<Rightarrow> int \<Rightarrow> nat \<Rightarrow> nat \<Rightarrow> destroy_pc \<Rightarrow> event list" where
  "socket_calls h fd serverFd z z' pc =
     hang_ups z h fd @
     (if pc = DClose then [] else closing fd @ hang_ups z' h fd) @
     (if pc = Destroyed then closing fd @ [CloseFd serverFd] else [])"

definition socket_ledger :: "hook option \<Rightarrow> int \<Rightarrow> int \<Rightarrow> destroy_trace \<Rightarrow> destroy_pc \<Rightarrow> bool" where
  "socket_ledger h fd serverFd tr pc \<longleftrightarrow>
     (\<exists>z z'. z + z' = zero_results tr \<and> (pc = DClose \<longrightarrow> z' = 0) \<and>
       sockets (trace_events tr) = socket_calls h fd serverFd z z' pc)"

lemma socket_ledgerI:
  "z + z' = zero_results tr \<Longrightarrow> (pc = DClose \<Longrightarrow> z' = 0) \<Longrightarrow>
   sockets (trace_events tr) = socket_calls h fd serverFd z z' pc \<Longrightarrow> socket_ledger h fd serverFd tr pc"
  unfolding socket_ledger_def by blast

text \<open>Between the first closing and the server's the destructors leave the sockets alone.\<close>

lemma socket_ledger_silent:
  assumes "socket_ledger h fd serverFd tr pc" "sockets (trace_events tr') = sockets (trace_events tr)"
    and "zero_results tr' = zero_results tr"
    and "pc' = pc \<or> pc \<notin> {DClose, Destroyed} \<and> pc' \<notin> {DClose, Destroyed}"
  shows "socket_ledger h fd serverFd tr' pc'"
proof -
  obtain z z' where z: "z + z' = zero_results tr" "pc = DClose \<longrightarrow> z' = 0"
    "sockets (trace_events tr) = socket_calls h fd serverFd z z' pc"
    using assms(1) unfolding socket_ledger_def by blast
  have "socket_calls h fd serverFd z z' pc' = socket_calls h fd serverFd z z' pc"
    using assms(4) by (auto simp: socket_calls_def)
  with z assms show ?thesis by (intro socket_ledgerI [of z z']) auto
qed

definition ledger_ok :: "destroy_trace \<Rightarrow> destruction \<Rightarrow> bool" where
  "ledger_ok tr D \<longleftrightarrow>
     (case m_clientFd (m_tcpServer (dying_bridge D)) of
        None \<Rightarrow> at_destroy D = DClose
      | Some fd \<Rightarrow> socket_ledger (m_onDisonnect (m_tcpServer (dying_bridge D))) fd
          (m_serverFd (m_tcpServer (dying_bridge D))) tr (at_destroy D))"

lemma ledger_okD:
  "ledger_ok tr D \<Longrightarrow> m_clientFd (m_tcpServer (dying_bridge D)) = Some fd \<Longrightarrow>
    socket_ledger (m_onDisonnect (m_tcpServer (dying_bridge D))) fd
      (m_serverFd (m_tcpServer (dying_bridge D))) tr (at_destroy D)"
  by (simp add: ledger_ok_def)

lemma ledger_silent:
  assumes "ledger_ok tr D" "sockets es = []" "zero_reads (D, a, es) = 0"
    and "m_tcpServer (dying_bridge D') = m_tcpServer (dying_bridge D)"
    and "at_destroy D' = at_destroy D \<or>
      at_destroy D \<notin> {DClose, Destroyed} \<and> at_destroy D' \<notin> {DClose, Destroyed}"
  shows "ledger_ok (tr @ [(D, a, es)]) D'"
proof (cases "m_clientFd (m_tcpServer (dying_bridge D))")
  case None
  then show ?thesis using assms by (auto simp: ledger_ok_def)
next
  case (Some fd)
  have "sockets (trace_events (tr @ [(D, a, es)])) = sockets (trace_events tr)"
    "zero_results (tr @ [(D, a, es)]) = zero_results tr" using assms(2,3) by simp_all
  from socket_ledger_silent [OF ledger_okD [OF assms(1) Some] this assms(5)] Some assms(4)
  show ?thesis by (simp add: ledger_ok_def)
qed

lemma ledger_read:
  assumes led: "ledger_ok tr D" and ok: "dying_ok D" and pc: "at_inbound (during D) = RRead"
    and step: "inbound_micro d RRead (dying_bridge D) = Inr (pc', b, es)"
    and run: "m_inboundThread (dying_bridge D) = RunningThread"
    and D': "dying_bridge D' = b" "at_destroy D' = at_destroy D"
  shows "ledger_ok (tr @ [(D, Some (InboundAccess d), es)]) D'"
proof -
  obtain s where s: "receive_calls (recv_results d) (m_tcpServer (dying_bridge D)) = Inr (s, es)"
    and b: "b = (dying_bridge D)\<lparr>m_tcpServer := s\<rparr>"
    using step by (auto simp: deserializeFromStream_def rbind_eq_Inr)
  obtain fd where fd: "m_clientFd (m_tcpServer (dying_bridge D)) = Some fd"
    using ok run by (auto simp: dying_ok_def has_client_fd_def)
  have early: "at_destroy D = DClose \<or> at_destroy D = DJoinInbound"
    using ok run by (auto simp: dying_ok_def)
  note r = receive_calls_sockets [OF s fd]
  let ?h = "m_onDisonnect (m_tcpServer (dying_bridge D))"
    and ?n = "length (filter (\<lambda>(r, n). r = 0) (recv_results d))"
  obtain z z' where z: "z + z' = zero_results tr" "at_destroy D = DClose \<longrightarrow> z' = 0"
    "sockets (trace_events tr) =
      socket_calls ?h fd (m_serverFd (m_tcpServer (dying_bridge D))) z z' (at_destroy D)"
    using ledger_okD [OF led fd] unfolding socket_ledger_def by blast
  have "socket_ledger ?h fd (m_serverFd (m_tcpServer (dying_bridge D)))
      (tr @ [(D, Some (InboundAccess d), es)]) (at_destroy D)"
  proof (cases "at_destroy D = DClose")
    case True
    then show ?thesis
      using z r by (intro socket_ledgerI [of "z + ?n" 0]) (simp_all add: socket_calls_def hang_ups_add pc)
  next
    case False
    then have "at_destroy D = DJoinInbound" using early by blast
    then show ?thesis
      using z r by (intro socket_ledgerI [of z "z' + ?n"]) (simp_all add: socket_calls_def hang_ups_add pc)
  qed
  then show ?thesis using r D' by (simp add: ledger_ok_def b)
qed

lemma ledger_close:
  assumes led: "ledger_ok tr D" and pc: "at_destroy D = DClose"
    and step: "tcp_close (m_tcpServer (dying_bridge D)) = Inr (s, es)"
    and D': "dying_bridge D' = (dying_bridge D)\<lparr>m_tcpServer := s\<rparr>" "at_destroy D' = DJoinInbound"
  shows "ledger_ok (tr @ [(D, None, es)]) D'"
proof -
  obtain fd where fd: "m_clientFd (m_tcpServer (dying_bridge D)) = Some fd"
    and es: "es = [ShutdownFd fd, CloseFd fd, Log Warn ''TCP server: client disconnected'' []]"
    and s: "s = (m_tcpServer (dying_bridge D))\<lparr>m_isClientConnected := False\<rparr>"
    using step by (cases "m_clientFd (m_tcpServer (dying_bridge D))") (auto simp: tcp_close_def)
  obtain z where "z = zero_results tr" "sockets (trace_events tr) =
      socket_calls (m_onDisonnect (m_tcpServer (dying_bridge D))) fd (m_serverFd (m_tcpServer (dying_bridge D))) z 0 DClose"
    using ledger_okD [OF led fd] pc unfolding socket_ledger_def by auto
  then have "socket_ledger (m_onDisonnect (m_tcpServer (dying_bridge D))) fd (m_serverFd (m_tcpServer (dying_bridge D)))
      (tr @ [(D, None, es)]) DJoinInbound"
    by (intro socket_ledgerI [of z 0]) (simp_all add: socket_calls_def es closing_def)
  then show ?thesis using D' by (simp add: ledger_ok_def fd s)
qed

lemma ledger_server:
  assumes led: "ledger_ok tr D" and pc: "at_destroy D = DServer"
    and step: "tcp_destroy (m_tcpServer (dying_bridge D)) = Inr es"
    and D': "dying_bridge D' = dying_bridge D" "at_destroy D' = Destroyed"
  shows "ledger_ok (tr @ [(D, None, es)]) D'"
proof -
  obtain fd where fd: "m_clientFd (m_tcpServer (dying_bridge D)) = Some fd"
    and es: "sockets es = closing fd @ [CloseFd (m_serverFd (m_tcpServer (dying_bridge D)))]"
    using step by (cases "m_clientFd (m_tcpServer (dying_bridge D))")
      (auto simp: tcp_destroy_def tcp_close_def closing_def)
  obtain z z' where "z + z' = zero_results tr" "sockets (trace_events tr) =
      socket_calls (m_onDisonnect (m_tcpServer (dying_bridge D))) fd (m_serverFd (m_tcpServer (dying_bridge D))) z z' DServer"
    using ledger_okD [OF led fd] pc unfolding socket_ledger_def by auto
  then have "socket_ledger (m_onDisonnect (m_tcpServer (dying_bridge D))) fd (m_serverFd (m_tcpServer (dying_bridge D)))
      (tr @ [(D, None, es)]) Destroyed"
    by (intro socket_ledgerI [of z z']) (simp_all add: socket_calls_def es)
  then show ?thesis using D' by (simp add: ledger_ok_def fd)
qed

lemma destroys_keeps:
  assumes ok: "dying_ok D" and led: "ledger_ok tr D"
    and free: "\<not> destroy_waits (at_destroy D) (dying_bridge D)"
    and step: "destroy_micro (at_destroy D) (dying_bridge D) = Inr (pc, b, es)"
    and D': "D' = D\<lparr>during := (during D)\<lparr>bridge := b\<rparr>, at_destroy := pc\<rparr>"
  shows "dying_ok D' \<and> ledger_ok (tr @ [(D, None, es)]) D'"
proof (cases "at_destroy D")
  case DClose
  then obtain s where s: "tcp_close (m_tcpServer (dying_bridge D)) = Inr (s, es)"
    and b: "b = (dying_bridge D)\<lparr>m_tcpServer := s\<rparr>" "pc = DJoinInbound"
    using step by (auto simp: rbind_eq_Inr)
  have "m_clientFd s = m_clientFd (m_tcpServer (dying_bridge D))" "\<not> m_isClientConnected s"
    "m_clientFd (m_tcpServer (dying_bridge D)) \<noteq> None"
    using s by (auto simp: tcp_close_def rbind_eq_Inr read_member_def split: option.splits)
  then have "dying_ok D'"
    using ok interleaved_inv_flag [of _ "dying_bridge D" _ b]
    by (auto simp: dying_ok_def D' b dying_bridge_def has_client_fd_def isTCPClientConnected_def tcp_isClientConnected_def)
  with ledger_close [OF led DClose s] b show ?thesis by (simp add: D' dying_bridge_def)
next
  case DServer
  then have s: "tcp_destroy (m_tcpServer (dying_bridge D)) = Inr es" and b: "b = dying_bridge D" "pc = Destroyed"
    using step by (auto simp: rbind_eq_Inr)
  have "dying_ok D'" using ok DServer by (auto simp: dying_ok_def D' b dying_bridge_def)
  with ledger_server [OF led DServer s] b show ?thesis by (simp add: D' dying_bridge_def)
next
  case Destroyed
  then have b: "b = dying_bridge D" "pc = Destroyed" "es = []" using step by auto
  have "dying_ok D'" using ok Destroyed by (auto simp: dying_ok_def D' b dying_bridge_def)
  with ledger_silent [OF led, of "[]" None D'] Destroyed b show ?thesis by (simp add: D' dying_bridge_def)
next
  case DRelease
  then have b: "b = (dying_bridge D)\<lparr>m_inboundRequestsQueue := []\<rparr>" "pc = DServer" "es = []" using step by auto
  have "dying_ok D'"
    using ok DRelease by (auto simp: dying_ok_def D' b dying_bridge_def has_client_fd_def interleaved_inv_def
        isTCPClientConnected_def)
  with ledger_silent [OF led, of "[]" None D'] DRelease b show ?thesis by (simp add: D' dying_bridge_def)
next
  case DJoinInbound
  then have b: "b = (dying_bridge D)\<lparr>m_inboundThread := NoThread\<rparr>" "pc = DJoinOutbound" "es = []"
    using step by (cases "dying_bridge D", auto simp: joinable_def join_def)+
  have "dying_ok D'"
    using ok free DJoinInbound by (auto simp: dying_ok_def D' b dying_bridge_def has_client_fd_def
        interleaved_inv_def isTCPClientConnected_def)
  with ledger_silent [OF led, of "[]" None D'] DJoinInbound b show ?thesis by (simp add: D' dying_bridge_def)
next
  case DJoinOutbound
  then have b: "b = (dying_bridge D)\<lparr>m_outboundThread := NoThread\<rparr>" "pc = DRelease" "es = []"
    using step by (cases "dying_bridge D", auto simp: joinable_def join_def)+
  have "dying_ok D'"
    using ok free DJoinOutbound by (auto simp: dying_ok_def D' b dying_bridge_def has_client_fd_def
        interleaved_inv_def isTCPClientConnected_def)
  with ledger_silent [OF led, of "[]" None D'] DJoinOutbound b show ?thesis by (simp add: D' dying_bridge_def)
qed

lemma inbound_keeps:
  assumes ok: "dying_ok D" and led: "ledger_ok tr D" and run: "m_inboundThread (dying_bridge D) = RunningThread"
    and step: "inbound_micro d (at_inbound (during D)) (dying_bridge D) = Inr (pc, b, es)"
    and D': "D' = D\<lparr>during := (during D)\<lparr>bridge := b, at_inbound := pc\<rparr>\<rparr>"
  shows "dying_ok D' \<and> ledger_ok (tr @ [(D, Some (InboundAccess d), es)]) D'"
proof
  have early: "at_destroy D \<in> {DClose, DJoinInbound}" using ok run by (auto simp: dying_ok_def)
  have keep: "\<exists>g. interleaved_inv (at_outbound (during D)) b g"
    if "outbound b = outbound (dying_bridge D)" "m_outboundThread b = m_outboundThread (dying_bridge D)"
    using ok interleaved_inv_flag [OF _ that] by (auto simp: dying_ok_def)
  show "dying_ok D'"
    using step
  proof (cases rule: inbound_micro_cases)
    case test
    then show ?thesis using ok run early by (auto simp: dying_ok_def D' dying_bridge_def)
  next
    case leave
    with keep ok run early show ?thesis
      by (auto simp: dying_ok_def D' dying_bridge_def has_client_fd_def isTCPClientConnected_def)
  next
    case (reads s)
    with keep ok run early show ?thesis
      by (auto simp: dying_ok_def D' dying_bridge_def has_client_fd_def isTCPClientConnected_def tcp_isClientConnected_def)
  next
    case (pushes m)
    with keep ok run early show ?thesis
      by (auto simp: dying_ok_def D' dying_bridge_def has_client_fd_def isTCPClientConnected_def)
  next
    case stays
    then show ?thesis using ok run by (auto simp: dying_ok_def D' dying_bridge_def)
  qed
  show "ledger_ok (tr @ [(D, Some (InboundAccess d), es)]) D'"
  proof (cases "at_inbound (during D) = RRead")
    case True
    then show ?thesis
      using ledger_read [OF led ok True _ run] step by (simp add: D' dying_bridge_def)
  next
    case False
    from step have "es = [] \<and> m_tcpServer b = m_tcpServer (dying_bridge D)"
      by (cases rule: inbound_micro_cases) (use False in auto)
    then show ?thesis
      using ledger_silent [OF led, of es "Some (InboundAccess d)" D'] False by (simp add: D' dying_bridge_def)
  qed
qed

lemma outbound_keeps:
  assumes ok: "dying_ok D" and led: "ledger_ok tr D" and run: "m_outboundThread (dying_bridge D) = RunningThread"
    and step: "outbound_micro (at_outbound (during D)) (dying_bridge D) = Inr (pc, b, es)"
    and D': "D' = D\<lparr>during := (during D)\<lparr>bridge := b, at_outbound := pc\<rparr>\<rparr>"
  shows "dying_ok D' \<and> ledger_ok (tr @ [(D, Some OutboundAccess, es)]) D'"
proof
  obtain g where "interleaved_inv (at_outbound (during D)) (dying_bridge D) g" using ok by (auto simp: dying_ok_def)
  from micro_inv [OF this run step] have g: "\<exists>g. interleaved_inv pc b g" by blast
  obtain q m x where
    b: "b = (dying_bridge D)\<lparr>m_outboundQueue := q, m_inboundResponsesMap := m, m_outboundThread := x\<rparr>"
    using outbound_micro_frame [OF step] by blast
  show "dying_ok D'"
    using ok g b by (auto simp: dying_ok_def D' dying_bridge_def has_client_fd_def isTCPClientConnected_def)
  show "ledger_ok (tr @ [(D, Some OutboundAccess, es)]) D'"
    using ledger_silent [OF led outbound_no_socket [OF step], of "Some OutboundAccess" D'] b
    by (simp add: D' dying_bridge_def)
qed

lemma action_keeps:
  assumes ok: "dying_ok D" and led: "ledger_ok tr D" and step: "finish_call i (dying_bridge D) = (b, es)"
    and D': "D' = D\<lparr>during := (during D)\<lparr>bridge := b\<rparr>\<rparr>"
  shows "dying_ok D' \<and> ledger_ok (tr @ [(D, Some (ActionEnds i), es)]) D'"
proof
  have b: "b = fst (finish_call i (dying_bridge D))" and es: "es = snd (finish_call i (dying_bridge D))"
    using step by simp_all
  obtain g where "interleaved_inv (at_outbound (during D)) (dying_bridge D) g" using ok by (auto simp: dying_ok_def)
  from interleaved_inv_appends [OF this finish_appends [of "dying_bridge D" i]]
  have g: "\<exists>g. interleaved_inv (at_outbound (during D)) b g" unfolding b by blast
  have frame: "m_tcpServer b = m_tcpServer (dying_bridge D)" "m_inboundThread b = m_inboundThread (dying_bridge D)"
    "m_inboundRequestsQueue b = m_inboundRequestsQueue (dying_bridge D)"
    "length (m_calls (user_calls b)) = length (m_calls (user_calls (dying_bridge D)))"
    unfolding b by (simp_all add: run_call_frame)
  show "dying_ok D'"
    using ok g frame by (auto simp: dying_ok_def D' dying_bridge_def has_client_fd_def isTCPClientConnected_def)
  show "ledger_ok (tr @ [(D, Some (ActionEnds i), es)]) D'"
    using ledger_silent [OF led action_no_socket [of i "dying_bridge D"], of "Some (ActionEnds i)" D'] frame(1)
    unfolding es by (simp add: D' dying_bridge_def)
qed

lemma destroy_run_keeps: "destroy_run ph rnd tr D \<Longrightarrow> dying_ok D \<and> ledger_ok tr D"
proof (induction rule: destroy_run.induct)
  case (destroy_begins tr t)
  have "threads_ok t" using thread_run_ok [OF destroy_begins(1)] by (simp add: all_ok_def)
  then show ?case
    using thread_run_ok [OF destroy_begins(1)]
    by (auto simp: threads_ok_def dying_ok_def ledger_ok_def dying_bridge_def socket_calls_def all_ok_def
        spin_work_def spin_handles_def intro!: socket_ledgerI [of 0 0] split: option.split)
next
  case (destroy_goes_on tr D a es D')
  then have ok: "dying_ok D" and led: "ledger_ok tr D" by simp_all
  from destroy_goes_on.hyps(2) show ?case
  proof (cases rule: destroy_step.cases)
    case (destroys pc b)
    then show ?thesis using destroys_keeps [OF ok led] by simp
  next
    case (meanwhile a t)
    from meanwhile(3) show ?thesis
    proof (cases rule: thread_step.cases)
      case (inbound_access d pc b)
      then show ?thesis using inbound_keeps [OF ok led] meanwhile by (simp add: dying_bridge_def)
    next
      case (outbound_access pc b)
      then show ?thesis using outbound_keeps [OF ok led] meanwhile by (simp add: dying_bridge_def)
    next
      case (action_ends i b)
      then show ?thesis using action_keeps [OF ok led] meanwhile by (simp add: dying_bridge_def)
    qed (use meanwhile(4) in \<open>simp_all add: goes_on_def\<close>)
  qed
qed


subsection \<open>A destruction ends\<close>

fun destroy_pc_left :: "destroy_pc \<Rightarrow> nat" where
  "destroy_pc_left DClose = 5"
| "destroy_pc_left DJoinInbound = 4"
| "destroy_pc_left DJoinOutbound = 3"
| "destroy_pc_left DRelease = 2"
| "destroy_pc_left DServer = 1"
| "destroy_pc_left Destroyed = 0"

fun inbound_left :: "inbound_pc \<Rightarrow> nat" where
  "inbound_left RRead = 3"
| "inbound_left (RPush m) = 2"
| "inbound_left RLoop = 1"
| "inbound_left RReturned = 0"

definition open_calls :: "UserCallRequestHandler \<Rightarrow> nat" where
  "open_calls u = length (filter (\<lambda>i. \<not> is_ready u i) [0 ..< length (m_calls u)])"

text \<open>What is left to do: of the destructors, of the two threads without a client, and the running actions.\<close>

definition destroy_left :: "destruction \<Rightarrow> nat" where
  "destroy_left D = destroy_pc_left (at_destroy D) + inbound_left (at_inbound (during D)) +
     accesses_left (at_outbound (during D)) + open_calls (user_calls (dying_bridge D))"

lemma open_calls_cong:
  "m_calls u' = m_calls u \<Longrightarrow> open_calls u' = open_calls u"
  by (simp add: open_calls_def is_ready_def)

lemma open_calls_run:
  assumes "i < length (m_calls u)" "\<not> is_ready u i"
  shows "open_calls (fst (run_call i u)) < open_calls u"
proof -
  obtain name args where call: "m_calls u ! i = Running name args"
    using assms by (cases "m_calls u ! i") (auto simp: is_ready_def)
  let ?u = "fst (run_call i u)"
  have ready: "is_ready ?u j \<longleftrightarrow> j = i \<or> is_ready u j" if "j < length (m_calls u)" for j
    using that call by (auto simp: run_call_def is_ready_def nth_list_update split: prod.split)
  have "open_calls ?u = length (filter (\<lambda>j. j \<noteq> i \<and> \<not> is_ready u j) [0 ..< length (m_calls u)])"
    unfolding open_calls_def run_call_frame by (intro arg_cong [where f = length] filter_cong) (auto simp: ready)
  also have "\<dots> < open_calls u"
    unfolding open_calls_def filter_filter [symmetric] filter_filter_commute [of "\<lambda>j. \<not> is_ready u j"]
    by (rule length_filter_less [of i]) (use assms in auto)
  finally show ?thesis .
qed

lemma destructor_advances:
  assumes "\<not> destroy_waits (at_destroy D) (dying_bridge D)" "has_client_fd (dying_bridge D)" "at_destroy D \<noteq> Destroyed"
  shows "\<exists>es D'. destroy_step ph rnd D None es D' \<and> destroy_left D' < destroy_left D \<and>
    zero_reads (D, None, es) = 0"
proof -
  obtain fd where fd: "m_clientFd (m_tcpServer (dying_bridge D)) = Some fd"
    using assms(2) by (auto simp: has_client_fd_def)
  then obtain pc b es where m: "destroy_micro (at_destroy D) (dying_bridge D) = Inr (pc, b, es)"
    by (cases "at_destroy D") (auto simp: tcp_close_def tcp_destroy_def)
  moreover have "destroy_pc_left pc < destroy_pc_left (at_destroy D)" "user_calls b = user_calls (dying_bridge D)"
    using m assms(3) by (cases "at_destroy D"; auto simp: rbind_eq_Inr)+
  ultimately show ?thesis
    using destroys [OF assms(1) m, of ph rnd]
    by (intro exI conjI) (assumption | simp add: destroy_left_def dying_bridge_def)+
qed

lemma inbound_advances:
  assumes ok: "dying_ok D" and run: "m_inboundThread (dying_bridge D) = RunningThread"
    and gone: "\<not> isTCPClientConnected (dying_bridge D)"
  shows "\<exists>a es D'. destroy_step ph rnd D (Some a) es D' \<and> destroy_left D' < destroy_left D \<and>
    zero_reads (D, Some a, es) = 0"
proof -
  let ?d = "\<lparr>recv_results = [], read_ok = False, read_message = createGreetMessage\<rparr>"
  have wf: "read_wf ?d" by (simp add: read_wf_def createGreetMessage_def message_wf_def)
  have "has_client_fd (dying_bridge D)" "at_inbound (during D) \<noteq> RReturned" using ok run by (auto simp: dying_ok_def)
  then obtain pc b es where m: "inbound_micro ?d (at_inbound (during D)) (dying_bridge D) = Inr (pc, b, es)"
    using inbound_micro_ok [of "at_inbound (during D)" "dying_bridge D" ?d] by (auto simp: ok_iff)
  have "inbound_left pc < inbound_left (at_inbound (during D))" "user_calls b = user_calls (dying_bridge D)"
    using m \<open>at_inbound (during D) \<noteq> RReturned\<close> gone by (cases rule: inbound_micro_cases; auto)+
  moreover have "thread_step ph rnd (during D) (InboundAccess ?d) es ((during D)\<lparr>bridge := b, at_inbound := pc\<rparr>)"
    using inbound_access [of "during D" ?d pc b es] run wf m by (simp add: dying_bridge_def)
  from meanwhile [OF this]
  have "destroy_step ph rnd D (Some (InboundAccess ?d)) es
      (D\<lparr>during := (during D)\<lparr>bridge := b, at_inbound := pc\<rparr>\<rparr>)" by (simp add: goes_on_def)
  ultimately show ?thesis
    by (intro exI conjI) (assumption | simp add: destroy_left_def dying_bridge_def)+
qed

lemma outbound_advances:
  assumes ok: "dying_ok D" and run: "m_outboundThread (dying_bridge D) = RunningThread"
    and gone: "\<not> isTCPClientConnected (dying_bridge D)"
    and fresh: "\<not> stale_erase (at_outbound (during D)) (m_inboundResponsesMap (dying_bridge D))"
  shows "\<exists>a es D'. destroy_step ph rnd D (Some a) es D' \<and> destroy_left D' < destroy_left D \<and>
    zero_reads (D, Some a, es) = 0"
proof -
  obtain g where g: "interleaved_inv (at_outbound (during D)) (dying_bridge D) g" using ok by (auto simp: dying_ok_def)
  then obtain pc b es where m: "outbound_micro (at_outbound (during D)) (dying_bridge D) = Inr (pc, b, es)"
    using micro_ok [of "at_outbound (during D)" "dying_bridge D"] fresh by (auto simp: interleaved_inv_def ok_iff)
  have "at_outbound (during D) \<noteq> Returned" using g run by (auto simp: interleaved_inv_def)
  then have "0 < accesses_left (at_outbound (during D))" by (cases "at_outbound (during D)") simp_all
  then have "accesses_left pc < accesses_left (at_outbound (during D))"
    using micro_progress(1) [OF gone m] by simp
  moreover have "user_calls b = user_calls (dying_bridge D)" using outbound_micro_frame [OF m] by auto
  moreover have "thread_step ph rnd (during D) OutboundAccess es ((during D)\<lparr>bridge := b, at_outbound := pc\<rparr>)"
    using outbound_access [of "during D" pc b es] run m by (simp add: dying_bridge_def)
  from meanwhile [OF this]
  have "destroy_step ph rnd D (Some OutboundAccess) es (D\<lparr>during := (during D)\<lparr>bridge := b, at_outbound := pc\<rparr>\<rparr>)"
    by (simp add: goes_on_def)
  ultimately show ?thesis
    by (intro exI conjI) (assumption | simp add: destroy_left_def dying_bridge_def)+
qed

lemma action_advances:
  assumes "dying_ok D" "h \<in> set (m_inboundRequestsQueue (dying_bridge D))" "unfinished (user_calls (dying_bridge D)) h"
  shows "\<exists>a es D'. destroy_step ph rnd D (Some a) es D' \<and> destroy_left D' < destroy_left D \<and>
    zero_reads (D, Some a, es) = 0"
proof -
  obtain i where i: "m_callbackReturnContext h = Some i" "\<not> is_ready (user_calls (dying_bridge D)) i"
    using assms(3) by (auto simp: unfinished_def split: option.splits)
  then have "i < length (m_calls (user_calls (dying_bridge D)))"
    using assms(1,2) by (auto simp: dying_ok_def handle_wf_def)
  note less = open_calls_run [OF this i(2)]
  let ?b = "fst (finish_call i (dying_bridge D))"
  have "thread_step ph rnd (during D) (ActionEnds i) (snd (finish_call i (dying_bridge D))) ((during D)\<lparr>bridge := ?b\<rparr>)"
    using action_ends [of i "during D" ?b] by (simp add: dying_bridge_def)
  from meanwhile [OF this]
  have "destroy_step ph rnd D (Some (ActionEnds i)) (snd (finish_call i (dying_bridge D)))
      (D\<lparr>during := (during D)\<lparr>bridge := ?b\<rparr>\<rparr>)" by (simp add: goes_on_def)
  then show ?thesis
    using less by (intro exI conjI) (assumption | simp add: destroy_left_def dying_bridge_def)+
qed

lemma destruction_advances:
  assumes ok: "dying_ok D" and fd: "has_client_fd (dying_bridge D)" and "at_destroy D \<noteq> Destroyed"
    and fresh: "\<not> stale_erase (at_outbound (during D)) (m_inboundResponsesMap (dying_bridge D))"
  shows "\<exists>a es D'. destroy_step ph rnd D a es D' \<and> destroy_left D' < destroy_left D \<and>
    zero_reads (D, a, es) = 0"
proof (cases "destroy_waits (at_destroy D) (dying_bridge D)")
  case False
  from destructor_advances [OF this fd assms(3)] show ?thesis by blast
next
  case True
  then have "at_destroy D \<in> {DJoinInbound, DJoinOutbound, DRelease}" by (cases "at_destroy D") auto
  moreover from this ok have gone: "\<not> isTCPClientConnected (dying_bridge D)" by (auto simp: dying_ok_def)
  ultimately show ?thesis
    using True inbound_advances [OF ok _ gone] outbound_advances [OF ok _ gone fresh] action_advances [OF ok]
    by fastforce
qed

text \<open>What a step leaves as it is: the client descriptor, and no iterator becomes invalid.\<close>

lemma destroy_step_frame:
  assumes "destroy_step ph rnd D a es D'"
  shows "has_client_fd (dying_bridge D') \<longleftrightarrow> has_client_fd (dying_bridge D)"
    and "\<not> stale_erase (at_outbound (during D)) (m_inboundResponsesMap (dying_bridge D)) \<Longrightarrow>
      \<not> stale_erase (at_outbound (during D')) (m_inboundResponsesMap (dying_bridge D'))"
proof -
  have "(has_client_fd (dying_bridge D') \<longleftrightarrow> has_client_fd (dying_bridge D)) \<and>
    (\<not> stale_erase (at_outbound (during D)) (m_inboundResponsesMap (dying_bridge D)) \<longrightarrow>
      \<not> stale_erase (at_outbound (during D')) (m_inboundResponsesMap (dying_bridge D')))"
    using assms
  proof (cases rule: destroy_step.cases)
    case (destroys pc b)
    have "m_clientFd (m_tcpServer b) = m_clientFd (m_tcpServer (dying_bridge D))"
      "m_inboundResponsesMap b = m_inboundResponsesMap (dying_bridge D)"
      using destroys(4)
      by (cases "at_destroy D"; auto simp: rbind_eq_Inr tcp_close_def)+
    then show ?thesis using destroys(2) by (simp add: dying_bridge_def has_client_fd_def)
  next
    case (meanwhile a t)
    from meanwhile(3) show ?thesis
    proof (cases rule: thread_step.cases)
      case (inbound_access d pc b)
      from inbound_access(5) have "m_clientFd (m_tcpServer b) = m_clientFd (m_tcpServer (dying_bridge D))"
        "m_inboundResponsesMap b = m_inboundResponsesMap (dying_bridge D)"
        by (cases rule: inbound_micro_cases; simp add: dying_bridge_def)+
      then show ?thesis using meanwhile(2) inbound_access(2) by (simp add: dying_bridge_def has_client_fd_def)
    next
      case (outbound_access pc b)
      then show ?thesis
        using meanwhile(2) outbound_micro_frame [OF outbound_access(4)] micro_fresh [OF outbound_access(4)]
        by (auto simp: dying_bridge_def has_client_fd_def)
    next
      case (action_ends i b)
      have "m_tcpServer b = m_tcpServer (bridge (during D))"
        "m_inboundResponsesMap b = m_inboundResponsesMap (bridge (during D))"
        using finish_call_frame(1,7) [of i "bridge (during D)"] by (simp_all add: action_ends(3))
      then show ?thesis using meanwhile(2) action_ends(2) by (simp add: dying_bridge_def has_client_fd_def)
    qed (use meanwhile(4) in \<open>simp_all add: goes_on_def\<close>)
  qed
  then show "has_client_fd (dying_bridge D') \<longleftrightarrow> has_client_fd (dying_bridge D)"
    "\<not> stale_erase (at_outbound (during D)) (m_inboundResponsesMap (dying_bridge D)) \<Longrightarrow>
      \<not> stale_erase (at_outbound (during D')) (m_inboundResponsesMap (dying_bridge D'))" by blast+
qed

lemma destruction_completes:
  assumes "destroy_run ph rnd tr D" "has_client_fd (dying_bridge D)"
    and "\<not> stale_erase (at_outbound (during D)) (m_inboundResponsesMap (dying_bridge D))"
  shows "\<exists>tr' D'. destroy_run ph rnd (tr @ tr') D' \<and> at_destroy D' = Destroyed \<and>
    length tr' \<le> destroy_left D \<and> zero_results (tr @ tr') = zero_results tr \<and> has_client_fd (dying_bridge D')"
  using assms
proof (induction "destroy_left D" arbitrary: tr D rule: less_induct)
  case less
  show ?case
  proof (cases "at_destroy D = Destroyed")
    case True
    then show ?thesis using less.prems by (intro exI [of _ "[]"] exI [of _ D]) simp
  next
    case False
    have "dying_ok D" using destroy_run_keeps [OF less.prems(1)] by simp
    from destruction_advances [OF this less.prems(2) False less.prems(3), of ph rnd] obtain a es D1
      where s: "destroy_step ph rnd D a es D1" "destroy_left D1 < destroy_left D" "zero_reads (D, a, es) = 0"
      by blast
    note frame = destroy_step_frame [OF s(1)]
    from less.hyps [OF s(2) destroy_goes_on [OF less.prems(1) s(1)]] frame less.prems obtain tr' D'
      where "destroy_run ph rnd ((tr @ [(D, a, es)]) @ tr') D'" "at_destroy D' = Destroyed"
        "length tr' \<le> destroy_left D1" "has_client_fd (dying_bridge D')"
        "zero_results ((tr @ [(D, a, es)]) @ tr') = zero_results (tr @ [(D, a, es)])"
      by blast
    then show ?thesis using s(2,3) by (intro exI [of _ "(D, a, es) # tr'"] exI [of _ D']) simp
  qed
qed

text \<open>
  C40. Destroying a bridge between two spins, whatever its threads are doing. If there never was a
  client the destructor reads the client descriptor uninitialised. Otherwise no step of the destructors
  faults, and in any interleaving with the threads the sockets see exactly this: the client descriptor
  is shut down and closed by the bridge's destructor and, last but for the server's own descriptor,
  closed again by the server's; and once more, after the disconnect hook, for every \<open>recv\<close> that
  returned 0 to the inbound thread, before the first closing or, as a read that the shutdown ends
  does, after it. The destruction ends: from every point of it there is a way to the end of at most
  \<open>destroy_left\<close> steps, which waits for the two threads and the running actions, unless the outbound
  thread is about to erase through an invalidated iterator.
\<close>

theorem destruction_closes_client:
  assumes "destroy_run ph rnd tr D"
  shows "case m_clientFd (m_tcpServer (dying_bridge D)) of
      None \<Rightarrow> at_destroy D = DClose \<and> destroy_micro DClose (dying_bridge D) = Inl UninitialisedRead
    | Some fd \<Rightarrow>
        ok (destroy_micro (at_destroy D) (dying_bridge D)) \<and>
        (\<exists>z z'. z + z' = zero_results tr \<and> (at_destroy D = DClose \<longrightarrow> z' = 0) \<and>
          sockets (trace_events tr) = socket_calls (m_onDisonnect (m_tcpServer (dying_bridge D))) fd
            (m_serverFd (m_tcpServer (dying_bridge D))) z z' (at_destroy D)) \<and>
        (stale_erase (at_outbound (during D)) (m_inboundResponsesMap (dying_bridge D)) \<or>
          (\<exists>tr' D'. destroy_run ph rnd (tr @ tr') D' \<and> at_destroy D' = Destroyed \<and>
            length tr' \<le> destroy_left D))"
proof (cases "m_clientFd (m_tcpServer (dying_bridge D))")
  case None
  then show ?thesis
    using destroy_run_keeps [OF assms] by (simp add: ledger_ok_def tcp_close_def)
next
  case (Some fd)
  then have fd: "has_client_fd (dying_bridge D)" by (simp add: has_client_fd_def)
  have "ok (destroy_micro (at_destroy D) (dying_bridge D))"
    using Some by (cases "at_destroy D") (simp_all add: tcp_close_def tcp_destroy_def)
  moreover have "socket_ledger (m_onDisonnect (m_tcpServer (dying_bridge D))) fd
      (m_serverFd (m_tcpServer (dying_bridge D))) tr (at_destroy D)"
    using destroy_run_keeps [OF assms] ledger_okD Some by blast
  ultimately show ?thesis
    using Some destruction_completes [OF assms fd] unfolding socket_ledger_def by auto
qed

text \<open>
  The inbound thread is in a read when the client is closed; the read ends with a \<open>recv\<close> that returns 0.
\<close>

lemma sample_interrupted:
  "\<exists>tr D. destroy_run sample_pheromones (\<lambda>n. 7) tr D \<and> has_client_fd (dying_bridge D) \<and>
    at_outbound (during D) = AtLoop \<and> zero_results tr = 1"
proof -
  let ?ph = sample_pheromones and ?rnd = "\<lambda>n. 7"
  let ?d = "\<lparr>recv_results = [(0, 4)], read_ok = False, read_message = createGreetMessage\<rparr>"
  obtain tr t fd where t: "thread_run ?ph ?rnd tr t" "at_spin t = SpinDone" "at_inbound t = RLoop"
    "at_outbound t = AtLoop" "isTCPClientConnected (bridge t)" "m_inboundThread (bridge t) = RunningThread"
    "m_clientFd (m_tcpServer (bridge t)) = Some fd" using sample_connected by (auto simp: has_client_fd_def)
  have wf: "read_wf ?d" by (simp add: read_wf_def createGreetMessage_def message_wf_def)
  let ?t1 = "t\<lparr>at_inbound := RRead\<rparr>"
  have "thread_step ?ph ?rnd t (InboundAccess ?d) [] ?t1"
    using inbound_access [OF t(6) wf, of RRead "bridge t" "[]" ?ph ?rnd] t(3,5) by simp
  then have s1: "destroy_step ?ph ?rnd \<lparr>during = t, at_destroy = DClose\<rparr> (Some (InboundAccess ?d)) []
      \<lparr>during = ?t1, at_destroy = DClose\<rparr>"
    using meanwhile [of ?ph ?rnd "\<lparr>during = t, at_destroy = DClose\<rparr>"] by (simp add: goes_on_def)
  let ?s = "(m_tcpServer (bridge t))\<lparr>m_isClientConnected := False\<rparr>"
  let ?b = "(bridge t)\<lparr>m_tcpServer := ?s\<rparr>" and ?t2 = "?t1\<lparr>bridge := (bridge t)\<lparr>m_tcpServer := ?s\<rparr>\<rparr>"
  obtain es2 where "tcp_close (m_tcpServer (bridge t)) = Inr (?s, es2)" using t(7) by (simp add: tcp_close_def)
  then have s2: "destroy_step ?ph ?rnd \<lparr>during = ?t1, at_destroy = DClose\<rparr> None es2
      \<lparr>during = ?t2, at_destroy = DJoinInbound\<rparr>"
    using destroys [of "\<lparr>during = ?t1, at_destroy = DClose\<rparr>" DJoinInbound ?b es2 ?ph ?rnd]
    by (simp add: dying_bridge_def)
  obtain s es3 where r: "receive_calls (recv_results ?d) ?s = Inr (s, es3)" "m_clientFd s = Some fd"
    using t(7) by (simp add: tcp_receive_def tcp_close_def)
  let ?t3 = "?t2\<lparr>bridge := ?b\<lparr>m_tcpServer := s\<rparr>, at_inbound := RLoop\<rparr>"
  have "thread_step ?ph ?rnd ?t2 (InboundAccess ?d) es3 ?t3"
    using inbound_access [of ?t2 ?d RLoop "?b\<lparr>m_tcpServer := s\<rparr>" es3 ?ph ?rnd] t(6) wf r
    by (simp add: deserializeFromStream_def)
  then have s3: "destroy_step ?ph ?rnd \<lparr>during = ?t2, at_destroy = DJoinInbound\<rparr> (Some (InboundAccess ?d)) es3
      \<lparr>during = ?t3, at_destroy = DJoinInbound\<rparr>"
    using meanwhile [of ?ph ?rnd "\<lparr>during = ?t2, at_destroy = DJoinInbound\<rparr>"] by (simp add: goes_on_def)
  from destroy_goes_on [OF destroy_goes_on [OF destroy_goes_on [OF destroy_begins [OF t(1,2)] s1] s2] s3]
  show ?thesis
    using t(3,4) r(2)
    by (intro exI conjI) (assumption | simp add: zero_results_def dying_bridge_def has_client_fd_def)+
qed

theorem destruction_closes_client_witness:
  "\<exists>tr D fd. destroy_run sample_pheromones (\<lambda>n. 7) tr D \<and> at_destroy D = Destroyed \<and>
    length (filter (\<lambda>e. e = ShutdownFd fd) (sockets (trace_events tr))) = 3"
proof -
  obtain tr0 D0 where D0: "destroy_run sample_pheromones (\<lambda>n. 7) tr0 D0" "has_client_fd (dying_bridge D0)"
    "at_outbound (during D0) = AtLoop" "zero_results tr0 = 1" using sample_interrupted by blast
  from destruction_completes [OF D0(1,2)] D0(3,4) obtain tr D where
    D: "destroy_run sample_pheromones (\<lambda>n. 7) tr D" "at_destroy D = Destroyed" "zero_results tr = 1"
      "has_client_fd (dying_bridge D)" by auto
  then obtain fd where fd: "m_clientFd (m_tcpServer (dying_bridge D)) = Some fd" by (auto simp: has_client_fd_def)
  from destruction_closes_client [OF D(1)] fd D(2,3) obtain z z' where z: "z + z' = 1"
    "sockets (trace_events tr) = socket_calls (m_onDisonnect (m_tcpServer (dying_bridge D))) fd
       (m_serverFd (m_tcpServer (dying_bridge D))) z z' Destroyed" by auto
  from z(1) have "(z = 0 \<and> z' = 1) \<or> (z = 1 \<and> z' = 0)" by arith
  then have "length (filter (\<lambda>e. e = ShutdownFd fd) (sockets (trace_events tr))) = 3"
    unfolding z(2) by (auto simp: socket_calls_def hang_up_def closing_def call_hook_def split: option.split)
  with D show ?thesis by blast
qed

end
