(* ===== verification/Spec2Isabelle.thy ===== *)
theory Spec2Isabelle
  imports Prelude Pheromones UserCallbackMap ThreadSafeQueue BytesAccumulator HostApiRequestHandler
    HostApiResponseHandler Handles MessageUtils UserCallRequestHandler MessageHandler TCPServer
    HiveMindBridgeImpl SendBytes OutboundQueue Spin HiveMindBridge BridgeSystem EndToEnd Inbound
    TransferFaults RemoteCall Neighbors Sessions OutboundThread BasicLogger EventTypes HelloWorld
    Executions CallResults CallbackRegistry MessageBuilders SpinThread Concurrency ThreadRuns AtomicSteps
    ThreadSafety ThreadConservation Interfaces UnlockedAccesses Destruction
begin

text \<open>
  HiveMindBridge is the C++ library that connects a robot's computer to the SwarmUS HiveMind over
  TCP. The user creates a \<open>HiveMindBridge\<close>, registers callbacks and custom actions, and calls
  \<open>spin\<close> in a loop. This development models the library's own code (\<open>src/src\<close>,
  \<open>src/include/hivemind-bridge\<close>) and the example program (\<open>src/examples\<close>), and proves what makes
  them correct.

  \<^bold>\<open>The program.\<close> A bridge owns a TCP server with one client, a queue of inbound messages, a queue
  of outbound messages, and the handlers of messages. Without a client \<open>spin\<close> waits for one, greets
  it and starts two threads. The inbound thread reads messages from the connection into the inbound
  queue; \<open>spin\<close> takes one message per call from it, gives it to the dispatcher (\<open>MessageHandler\<close>),
  acknowledges requests, remembers responses, and sends the results of finished actions back to
  their callers. The outbound thread takes the front of the outbound queue, sends it, and cycles a
  sent request through the queue until its response is known or it is given up. Actions run on
  threads of their own (\<open>std::async\<close>).

  \<^bold>\<open>The theories\<close>, each with the code it models, in the order they build on each other:

  \<^item> \<open>Prelude\<close>: machine integers, faults (the ways to leave the defined behaviour of C++), results
    that may be a fault, checked reads, and the locale \<open>callback_slot\<close> of a member that holds one
    callback.
  \<^item> \<open>Pheromones\<close>: the interface of the third-party libraries. Messages are datatypes with the
    alternatives the bridge tests for; the constants and the constructors that may clip their input
    are the record \<open>pheromones\<close>, an argument of the definitions; laws about them are hypotheses
    (\<open>bytes_laws\<close> and others), satisfied by \<open>sample_pheromones\<close>. Calls that leave the program are
    the datatype \<open>event\<close>, and operations return the list of the events they make.
  \<^item> \<open>UserCallbackMap\<close> (\<open>user-call/UserCallbackMap.cpp\<close>, \<open>Callback.h\<close>, the wrapper and description
    classes): the registry, its invariant, and the locale \<open>callback_registry\<close> it implements.
  \<^item> \<open>ThreadSafeQueue\<close> (\<open>ThreadSafeQueue.h\<close>): the queue and its contract \<open>thread_queue\<close>.
  \<^item> \<open>BytesAccumulator\<close>, \<open>HostApiRequestHandler\<close> (the files \<open>BytesAccumulator.cpp\<close> and
    \<open>HiveMindHostApiRequestHandler.cpp\<close>): the reassembly of payloads. \<open>transfer_step\<close> specifies one
    transfer; \<open>receive_all_refines\<close> shows that the handler runs every transfer by itself; from it
    follow delivery under interleaving, under loss and under repetition.
  \<^item> \<open>HostApiResponseHandler\<close> (\<open>HiveMindHostApiResponseHandler.cpp\<close>): neighbor updates.
  \<^item> \<open>Handles\<close> (\<open>InboundRequestHandle\<close>, \<open>InboundResponseHandle\<close>, \<open>OutboundRequestHandle\<close>) and
    \<open>MessageUtils\<close> (\<open>MessageUtils.cpp\<close>): what the bridge keeps about messages and how it makes them.
  \<^item> \<open>UserCallRequestHandler\<close> (\<open>user-call/UserCallRequestHandler.cpp\<close>): discovery, description and
    execution of actions. A started call is an entry of \<open>m_calls\<close>, its future the index of the
    entry, and \<open>run_call\<close> the work of its thread.
  \<^item> \<open>MessageHandler\<close> (\<open>MessageHandler.cpp\<close>): the dispatcher, when it faults and what it preserves.
  \<^item> \<open>TCPServer\<close> (\<open>TCPServer.cpp\<close>): the connection as a state machine; the results of the socket
    calls are arguments.
  \<^item> \<open>HiveMindBridgeImpl\<close> (\<open>HiveMindBridgeImpl.cpp\<close>): the state of the bridge and all its operations:
    one definition for a pass of \<open>spin\<close> and for a turn of either thread's loop. The record holds
    also the components the class refers to, and counts the calls of \<open>rand()\<close>, whose results are
    the argument \<open>rnd\<close>.
  \<^item> \<open>SendBytes\<close>: the packets \<open>sendBytes\<close> makes, their number computed by a \<open>float\<close> division
    (modelled on its 24-bit significand), and what a receiver rebuilds from them.
  \<^item> \<open>OutboundQueue\<close>: the life of a queued message. The locale \<open>round_robin\<close> is a loop that visits
    the front of a queue and may put it back with a smaller budget; \<open>outq\<close> is the outbound thread's.
  \<^item> \<open>Spin\<close>: what a spin does with and without a client, and the whole way of a remote call.
  \<^item> \<open>HiveMindBridge\<close> (\<open>HiveMindBridge.cpp\<close>, \<open>IHiveMindBridge.h\<close>): construction, the calls of the
    interface as the datatype \<open>api_call\<close>, and the abstract configuration they refine.
  \<^item> \<open>BridgeSystem\<close>: the interleaving of spins, calls, thread turns and running actions as the step
    relation \<open>bridge_step\<close>; the locale \<open>bridge_invariant\<close> is what a predicate has to satisfy to hold
    in every reachable state, and is interpreted on four invariants.
  \<^item> \<open>EndToEnd\<close>: a payload's way from one bridge to another.
  \<^item> \<open>Inbound\<close>: what becomes of the queued inbound messages. \<open>handle_messages\<close>, the dispatcher applied
    to a list, specifies a series of spins; \<open>spins_handle\<close> shows that they implement it, and from it
    follows the discovery of the actions by a remote agent.
  \<^item> \<open>TransferFaults\<close>: packets that arrive more than once, and payloads that are never finished.
  \<^item> \<open>RemoteCall\<close>, \<open>Neighbors\<close>: the life of a request, from the call that queues it to the removal of
    request and response: two bridges that call each other's actions, and the neighbor requests,
    which their answers do not complete.
  \<^item> \<open>Sessions\<close>: what a lost client leaves on the queues, and that it reaches the next client.
  \<^item> \<open>OutboundThread\<close>: the outbound thread cut into its accesses to shared state. \<open>outbound_micro\<close> is
    one access, \<open>interleaved\<close> the states that accesses and the steps of the other threads reach in any
    order; \<open>outbound_alone_turn\<close> ties the cut turn to \<open>outboundThread_step\<close>. The iterator that
    \<open>find\<close> returns is a value of its own, valid as long as no response is stored under a new id.
  \<^item> \<open>BasicLogger\<close> (\<open>examples/BasicLogger.h\<close>): the example's logger, with \<open>vsnprintf\<close> for the
    conversions the program uses and arguments that carry their C type. \<open>EventTypes\<close>: every step emits
    well-typed events, except for three log calls whose argument does not fit \<open>%d\<close>. \<open>HelloWorld\<close> (\<open>examples/hello-world.cpp\<close>): \<open>main\<close>, a pass of
    its loop and what it prints.

  \<^item> \<open>Executions\<close>, \<open>CallResults\<close>: executions of \<open>bridge_step\<close> with their traces, and the laws they
    conserve. The locale \<open>history_invariant\<close> is what a relation between trace and bridge has to satisfy;
    it is interpreted on the inbound side (messages handled in order, requests answered once) and on
    \<open>call_ledger\<close>, which relates requests, calls, handles and returns.
  \<^item> \<open>CallbackRegistry\<close> (\<open>IUserCallbackMap.h\<close>): the calls of the registry's interface and the list of
    actions they refine. \<open>MessageBuilders\<close> (\<open>MessageUtils.h\<close>): the functions that create messages, the
    answers they match and the two that none of them makes, and what a receiver reads back. \<open>Interfaces\<close> (\<open>IMessageHandler.h\<close> and the
    other abstract classes): the calls of the handlers and of the queue; the locale \<open>component\<close>, with
    which the dispatcher keeps its three handlers apart.
  \<^item> \<open>SpinThread\<close>: \<open>spin\<close> cut into its accesses to shared state, with the loop over the pending calls as
    it is written, an iterator that erases in place. \<open>spin_alone_spin\<close> ties it to \<open>spin\<close>.
  \<^item> \<open>Concurrency\<close>: the inbound thread cut likewise, and \<open>thread_step\<close>, one access of one of the
    threads, a user's call or the end of an action, in any order; a join waits until the joined thread
    has returned. \<open>rely\<close> is what the others may do between two accesses of a spin; \<open>all_ok\<close> is the
    invariant of all threads.
  \<^item> \<open>ThreadRuns\<close>: traces of accesses; the locale \<open>access_invariant\<close> carries the laws of \<open>Executions\<close>,
    \<open>CallResults\<close> and \<open>OutboundThread\<close> over to them. \<open>ThreadConservation\<close> states the laws,
    \<open>ThreadSafety\<close> which accesses fault, that spins end and that joins end, and \<open>AtomicSteps\<close> that
    every execution in whole steps is an interleaving of accesses. \<open>UnlockedAccesses\<close>: accesses to the map
    of responses and to the stream that no lock keeps apart.
  \<^item> \<open>Destruction\<close> (\<open>~HiveMindBridgeImpl\<close>, \<open>~TCPServer\<close> and the members of \<open>HiveMindBridge.h\<close>): the
    destructors as steps that interleave with those of the threads; \<open>destroy_run\<close> is a destruction of a
    bridge in any reachable state, and the lemmas show what it does to the sockets and that it ends.

  This theory states the properties of the whole program.

  \<^bold>\<open>Faults.\<close> A definition that can leave the defined behaviour of C++ returns \<open>fault + 'a\<close>. Reading
  past a vector, the front of an empty queue, a member nobody wrote, a missing optional or variant
  alternative, an invalid future, the assignment of a joinable thread, an erase through an iterator
  that may have been invalidated, a string that cannot be made as long as asked and a format without
  an argument of its type are faults. An access that faults has no successor: the laws of the
  interleavings speak of the executions up to it. The theorems about faults say exactly when they
  happen; some do (the index guard of the description requests, the client descriptor before the first
  client, the erase of a response after another was stored, the log call for an unknown message).

  \<^bold>\<open>Bounds.\<close> Every definition is total; no fuel is used. The loops of \<open>sendBytes\<close> and \<open>appendBytes\<close>
  end by a measure, the scaling of a \<open>float\<close> quotient by the distance to its normal range. The
  threads' loops are modelled turn by turn, and \<open>outbound_turns n\<close> is \<open>n\<close> of them: 11 per queued
  message empty the queue, one to send it and ten to wait for its response.

  \<^bold>\<open>Not modelled.\<close> The libraries the build fetches (serialisation, message objects, the interface of
  loggers); the bytes that \<open>recv\<close> copies and the address structures of the socket calls; the real time
  of sleeps; memory; tests and build files. \<open>bridge_step\<close> takes a spin, a turn of a thread and a call as
  one step, and its join waits for the last turn of the thread; \<open>thread_step\<close> cuts spins and turns
  into accesses. A user's call, the end of an action, a read of a whole message by the inbound thread
  and the handling of one message by the dispatcher remain one access. \<open>m_inboundResponsesMap\<close>, the
  callback table and the members of the TCP server are shared without a lock that both sides take, so
  the model shows only the executions in which two accesses to them do not overlap. The packets of a payload are taken
  from the memory the payload pointer reaches, given as a list.
\<close>

section \<open>Properties of the whole program\<close>

subsection \<open>A payload from bridge to bridge\<close>

text \<open>
  C1. From \<open>sendBytes\<close> on one bridge to the callback on another, for a payload whose size is not a
  multiple of the packet size: if the sender has a client, an empty queue and no stray responses,
  \<open>sendBytes\<close> succeeds, one round of the outbound thread sends the packets, and a receiver with nothing
  else to do, after one spin per message, has called its callback exactly once, with exactly the bytes
  sent.
\<close>

theorem bytes_end_to_end:
  assumes "bytes_laws ph" "unat nbytes \<le> length payload" "unat nbytes mod PAYLOAD_MAX_SIZE ph \<noteq> 0"
    and "isTCPClientConnected a" "outbound a = []" "m_inboundResponsesMap a = Map.empty"
    and "isTCPClientConnected b" "m_inboundRequestsQueue b = []"
    and "m_bytesReceivedCallback (bytes_handler b) = Some h"
    and "m_bytesAccumulatorMap (bytes_handler b) (generateRandomId (rnd (rand_calls a))) = None"
  shows "\<exists>a1 a2 es. sendBytes ph rnd dst payload nbytes a = (True, a1, []) \<and>
    outbound_turns (length (outbound a1)) a1 = Inr (a2, es) \<and>
    (\<forall>envs. length envs = length (serialized es) \<longrightarrow>
      (\<exists>b' es'. spins ph rnd' envs (b\<lparr>m_inboundQueue := \<lparr>m_queue = serialized es\<rparr>\<rparr>) = Inr (b', es') \<and>
        deliveries es' = [take (unat nbytes) payload]))"
proof -
  obtain a1 a2 es where a: "sendBytes ph rnd dst payload nbytes a = (True, a1, [])"
    "outbound_turns (length (outbound a1)) a1 = Inr (a2, es)"
    "list_all2 carries (serialized es)
      (map (packet ph payload (unat nbytes) (packet_total ph (unat nbytes)) (generateRandomId (rnd (rand_calls a))))
        [0 ..< packet_total ph (unat nbytes)])" (is "list_all2 carries _ ?xs")
    using sendBytes_serialized [OF assms(1,4-6), of rnd dst payload nbytes] by blast
  obtain s' tr where r: "receive_all (default_MessageDTO ph) ?xs (bytes_handler b) = Inr (s', tr)"
    and del: "deliveries (concat (map snd tr)) = [take (unat nbytes) payload]"
    using packets_delivered [OF assms(1-3,9,10), of "default_MessageDTO ph"] by blast
  have "\<exists>b' es'. spins ph rnd' envs (b\<lparr>m_inboundQueue := \<lparr>m_queue = serialized es\<rparr>\<rparr>) = Inr (b', es') \<and>
      deliveries es' = [take (unat nbytes) payload]"
    if "length envs = length (serialized es)" for envs
  proof -
    let ?b = "b\<lparr>m_inboundQueue := \<lparr>m_queue = serialized es\<rparr>\<rparr>"
    have "list_all2 carries (inbound ?b) ?xs" using a(3) by simp
    moreover have "idle_receiver ?b" using assms(7,8) by (simp add: idle_receiver_def isTCPClientConnected_def)
    moreover have "length envs = length ?xs" using that list_all2_lengthD [OF a(3)] by simp
    ultimately show ?thesis using spins_packets [of ?b ?xs envs] r del by fastforce
  qed
  then show ?thesis using a(1,2) by blast
qed

theorem bytes_end_to_end_witness:
  "\<exists>a1 a2 es. sendBytes sample_pheromones (\<lambda>n. 9) 2 sample_payload 6 sample_bridge = (True, a1, []) \<and>
    outbound_turns (length (outbound a1)) a1 = Inr (a2, es) \<and>
    (\<exists>b' es'. spins sample_pheromones (\<lambda>n. 0) (replicate (length (serialized es)) sample_env)
        (sample_bridge\<lparr>m_inboundQueue := \<lparr>m_queue = serialized es\<rparr>\<rparr>) = Inr (b', es') \<and>
      deliveries es' = [[1, 2, 3, 4, 5, 6]])"
proof -
  have n: "unat (6::u16) \<le> length sample_payload" "unat (6::u16) mod PAYLOAD_MAX_SIZE sample_pheromones \<noteq> 0"
    by (simp_all add: sample_payload_def)
  have cb: "m_bytesReceivedCallback (bytes_handler sample_bridge) = Some 7"
    "m_bytesAccumulatorMap (bytes_handler sample_bridge) (generateRandomId 9) = None"
    by simp_all
  have run: "\<exists>a1 a2 es. sendBytes sample_pheromones (\<lambda>n. 9) 2 sample_payload 6 sample_bridge = (True, a1, []) \<and>
    outbound_turns (length (outbound a1)) a1 = Inr (a2, es) \<and>
    (\<forall>envs. length envs = length (serialized es) \<longrightarrow>
      (\<exists>b' es'. spins sample_pheromones (\<lambda>n. 0) envs
        (sample_bridge\<lparr>m_inboundQueue := \<lparr>m_queue = serialized es\<rparr>\<rparr>) = Inr (b', es') \<and>
        deliveries es' = [take (unat (6::u16)) sample_payload]))"
    by (rule bytes_end_to_end [OF sample_bytes_laws n sample_bridge_simps(1,2,5) sample_bridge_simps(1,4) cb(1)])
      simp
  have "take (unat (6::u16)) sample_payload = [1, 2, 3, 4, 5, 6]" by (simp add: sample_payload_def)
  then show ?thesis using run length_replicate by metis
qed


subsection \<open>Every reachable bridge\<close>

text \<open>
  C3. Whatever the user calls, the peer sends, the sockets do and the threads interleave: while a
  client is connected both threads run; a thread that exists has a client descriptor; the table of
  actions is consistent, every call in progress is of a registered action and every pending handle
  can be answered; the keep-alive counter is within its period; and every queued message is unsent
  with no delay or was sent less than ten turns ago.
\<close>

theorem reachable_invariants:
  assumes "bridge_reachable ph rnd b"
  shows "(isTCPClientConnected b \<longrightarrow>
      m_inboundThread b = RunningThread \<and> m_outboundThread b = RunningThread) \<and>
    (m_inboundThread b \<noteq> NoThread \<longrightarrow> (\<exists>fd. m_clientFd (m_tcpServer b) = Some fd)) \<and>
    user_calls_inv (user_calls b) \<and>
    (\<forall>h \<in> set (m_inboundRequestsQueue b). handle_wf (length (m_calls (user_calls b))) h) \<and>
    m_keepAliveCounter b \<le> m_keepAliveNbSpin b \<and>
    (\<forall>h \<in> set (outbound b). outbound_handle_wf h)"
  using connection.reachable_inv [OF assms] work.reachable_inv [OF assms]
    keepAlive.reachable_inv [OF assms] outbound_handles.reachable_inv [OF assms]
  by (simp add: connection_inv_def work_inv_def bridge_wf_def keepAlive_inv_def outbound_inv_def)

theorem reachable_invariants_witness:
  "\<exists>b. bridge_reachable sample_pheromones (\<lambda>n. 7) b \<and> isTCPClientConnected b \<and>
    m_inboundThread b = RunningThread \<and> m_outboundThread b = RunningThread \<and>
    user_calls_inv (user_calls b) \<and> (\<forall>h \<in> set (outbound b). outbound_handle_wf h)"
proof -
  obtain b where b: "bridge_reachable sample_pheromones (\<lambda>n. 7) b" "isTCPClientConnected b"
    using sample_reachable by blast
  from reachable_invariants [OF b(1)] b show ?thesis by blast
qed

text \<open>
  C2. The program's loops stay within the defined behaviour of C++ from every reachable state but for
  one kind of inbound message: a turn of the inbound or the outbound thread never faults, and a spin
  does exactly when a client is connected and the message at the front of the inbound queue asks for
  the description of the action whose index is the number of actions; then it reads out of bounds.
\<close>

theorem reachable_safety:
  assumes "bridge_reachable ph rnd b"
  shows "((\<exists>e. spin ph rnd env b = Inl e) \<longleftrightarrow> isTCPClientConnected b \<and> front_faults b) \<and>
    (m_inboundThread b = RunningThread \<longrightarrow> ok (inboundThread_step d b)) \<and>
    ok (outboundThread_step b)"
proof -
  note wf = work.reachable_inv [OF assms, unfolded work_inv_def]
  have "ok (spin ph rnd env b) \<longleftrightarrow> \<not> (isTCPClientConnected b \<and> front_faults b)"
  proof (cases "isTCPClientConnected b")
    case True
    then have "ok (spin ph rnd env b) \<longleftrightarrow> ok (spin_connected ph rnd b)"
      by (cases "spin_connected ph rnd b") (auto simp: spin_served)
    then show ?thesis using True wf spin_connected_ok by auto
  next
    case False
    then show ?thesis using spin_wait [OF False, of ph rnd env] by auto
  qed
  moreover have "(\<exists>e. spin ph rnd env b = Inl e) \<longleftrightarrow> \<not> ok (spin ph rnd env b)"
    by (cases "spin ph rnd env b") simp_all
  ultimately show ?thesis
    using inbound_thread_ok [OF connection.reachable_inv [OF assms]] outbound_thread_ok by auto
qed

theorem reachable_safety_witness:
  "\<exists>b. bridge_reachable sample_pheromones (\<lambda>n. 7) b \<and> isTCPClientConnected b \<and>
    \<not> (\<exists>e. spin sample_pheromones (\<lambda>n. 7) sample_env b = Inl e) \<and> ok (outboundThread_step b)"
proof -
  obtain b where b: "bridge_reachable sample_pheromones (\<lambda>n. 7) b" "isTCPClientConnected b"
    "inbound b = []"
    using sample_reachable by blast
  from reachable_safety [OF b(1), of sample_env] b show ?thesis
    by (auto simp: front_faults_def)
qed

text \<open>
  From every reachable state the outbound thread, if it gets its turns, empties its queue: at
  most 11 turns per queued message later nothing is queued, and no turn faults.
\<close>

theorem reachable_outbound_drains:
  assumes "bridge_reachable ph rnd b" "11 * length (outbound b) \<le> n"
  shows "\<exists>b' es. outbound_turns n b = Inr (b', es) \<and> outbound b' = []"
proof -
  have "\<forall>h \<in> set (outbound b). 0 \<le> m_delaySinceSent h"
    using outbound_handles.reachable_inv [OF assms(1)]
    by (simp add: outbound_inv_def outbound_handle_wf_def)
  from turns_drained [OF this assms(2)] show ?thesis by auto
qed

theorem reachable_outbound_drains_witness:
  "\<exists>b b' es. bridge_reachable sample_pheromones (\<lambda>n. 7) b \<and> length (outbound b) = 1 \<and>
    outbound_turns 11 b = Inr (b', es) \<and> outbound b' = []"
proof -
  obtain b where b: "bridge_reachable sample_pheromones (\<lambda>n. 7) b"
    "outbound b = [mk_OutboundRequestHandle sample_request]"
    using sample_reachable by blast
  then have "11 * length (outbound b) \<le> 11" by simp
  from reachable_outbound_drains [OF b(1) this] b show ?thesis by auto
qed

end
